(* ===== verification/Maock_Prelude.thy ===== *)
theory Maock_Prelude
  imports Main "HOL-Library.Word" "HOL-Library.Sublist" "HOL-Library.Char_ord"
    "HOL-Library.List_Lexorder" "HOL-Library.Product_Lexorder"
begin

text \<open>
  Shared vocabulary of the development: the widths of the machine integers, the ways the
  process can stop, the part of \<^verbatim>\<open>std::string\<close> the sources use (\<^verbatim>\<open>find\<close>, \<^verbatim>\<open>substr\<close>,
  \<^verbatim>\<open>c_str\<close>), the decimal printing and parsing of \<^verbatim>\<open>std::to_string\<close>, \<^verbatim>\<open>std::stoi\<close> and
  \<^verbatim>\<open>atoi\<close>, and the generic lemmas on lists the components share.

  A \<^verbatim>\<open>std::string\<close> is a \<^typ>\<open>string\<close> (a list of bytes), \<^verbatim>\<open>std::string::npos\<close> is \<^term>\<open>None\<close>.
\<close>

section \<open>Widths, faults\<close>

type_synonym u8 = "8 word"
type_synonym u16 = "16 word"
type_synonym u32 = "32 word"
type_synonym u64 = "64 word"
type_synonym bytes = "u8 list"

text \<open>How an operation can fail to return: a call of \<^verbatim>\<open>exit(1)\<close>, of \<^verbatim>\<open>abort()\<close>, a violated
  precondition of a library call (an assertion in a debug build, undefined otherwise), an
  escaping \<^verbatim>\<open>std::out_of_range\<close>, \<^verbatim>\<open>std::invalid_argument\<close> or \<^verbatim>\<open>std::runtime_error\<close>, an access outside an array or a
  signed result outside its type (both undefined), a null pointer followed.\<close>

datatype fault = Exit_1 | Abort | Assertion | Out_Of_Range | Invalid_Argument | Runtime_Error
  | Out_Of_Bounds | Null_Pointer

type_synonym 'a result = "fault + 'a"

fun rbind :: "'e + 'a \<Rightarrow> ('a \<Rightarrow> 'e + 'b) \<Rightarrow> 'e + 'b" where
  "rbind (Inl e) f = Inl e"
| "rbind (Inr x) f = f x"

lemma rbind_Inr_iff [simp]: "rbind r f = Inr y \<longleftrightarrow> (\<exists>x. r = Inr x \<and> f x = Inr y)"
  by (cases r) auto

lemma rbind_Inl_iff: "rbind r f = Inl e \<longleftrightarrow> r = Inl e \<or> (\<exists>x. r = Inr x \<and> f x = Inl e)"
  by (cases r) auto

lemma rbind_cong [fundef_cong]:
  "r = r' \<Longrightarrow> (\<And>x. r' = Inr x \<Longrightarrow> f x = g x) \<Longrightarrow> rbind r f = rbind r' g"
  by (cases r') auto

text \<open>The results of arithmetic on \<^verbatim>\<open>int\<close> and \<^verbatim>\<open>int64_t\<close>, whose overflow is undefined.\<close>

definition c_int :: "int \<Rightarrow> int result" where
  "c_int x = (if - (2 ^ 31) \<le> x \<and> x < 2 ^ 31 then Inr x else Inl Out_Of_Bounds)"

definition c_int64 :: "int \<Rightarrow> int result" where
  "c_int64 x = (if - (2 ^ 63) \<le> x \<and> x < 2 ^ 63 then Inr x else Inl Out_Of_Bounds)"

lemma c_int_Inr [simp]: "- (2 ^ 31) \<le> x \<Longrightarrow> x < 2 ^ 31 \<Longrightarrow> c_int x = Inr x"
  by (simp add: c_int_def)

lemma c_int64_Inr [simp]: "- (2 ^ 63) \<le> x \<Longrightarrow> x < 2 ^ 63 \<Longrightarrow> c_int64 x = Inr x"
  by (simp add: c_int64_def)

section \<open>Named collections\<close>

named_theorems str_find_facts \<open>what a successful or failed string search says\<close>
named_theorems container_invs \<open>operations of the ordered containers keep them ordered\<close>
named_theorems eval_defs \<open>definitions unfolded to evaluate a closed instance\<close>

section \<open>Searching and cutting strings\<close>

fun find_aux :: "string \<Rightarrow> string \<Rightarrow> nat \<Rightarrow> nat option" where
  "find_aux pat [] i = (if pat = [] then Some i else None)"
| "find_aux pat (c # cs) i = (if prefix pat (c # cs) then Some i else find_aux pat cs (Suc i))"

definition str_find :: "string \<Rightarrow> string \<Rightarrow> nat \<Rightarrow> nat option" where
  "str_find s pat pos = (if pos \<le> length s then find_aux pat (drop pos s) pos else None)"

text \<open>\<^verbatim>\<open>s.substr(pos, count)\<close> for \<open>pos \<le> s.size()\<close>, and the same with the exception of the
  other case. \<^term>\<open>None\<close> as the count is \<^verbatim>\<open>npos\<close>, up to the end.\<close>

definition substr :: "string \<Rightarrow> nat \<Rightarrow> nat option \<Rightarrow> string" where
  "substr s pos count = (case count of None \<Rightarrow> drop pos s | Some n \<Rightarrow> take n (drop pos s))"

definition substr_checked :: "string \<Rightarrow> nat \<Rightarrow> nat option \<Rightarrow> string result" where
  "substr_checked s pos count =
     (if length s < pos then Inl Out_Of_Range else Inr (substr s pos count))"

text \<open>A string built from \<^verbatim>\<open>const char*\<close> ends at the first NUL byte.\<close>

definition c_str :: "string \<Rightarrow> string" where
  "c_str s = takeWhile (\<lambda>c. c \<noteq> CHR 0x00) s"

lemma find_aux_Some:
  assumes "find_aux pat s i = Some j"
  shows "i \<le> j \<and> j - i \<le> length s \<and> prefix pat (drop (j - i) s)
    \<and> (\<forall>k < j - i. \<not> prefix pat (drop k s))"
  using assms
proof (induction pat s i rule: find_aux.induct)
  case (1 pat i)
  then show ?case by (auto split: if_splits)
next
  case (2 pat c cs i)
  show ?case
  proof (cases "prefix pat (c # cs)")
    case True
    with 2 show ?thesis by auto
  next
    case False
    with 2 have IH: "Suc i \<le> j" "j - Suc i \<le> length cs" "prefix pat (drop (j - Suc i) cs)"
      "\<forall>k < j - Suc i. \<not> prefix pat (drop k cs)" by auto
    have ji: "j - i = Suc (j - Suc i)" using IH(1) by arith
    have "\<not> prefix pat (drop k (c # cs))" if "k < j - i" for k
      using that False IH(4) ji by (cases k) auto
    with IH ji show ?thesis by auto
  qed
qed

lemma find_aux_None: "find_aux pat s i = None \<longleftrightarrow> (\<forall>k \<le> length s. \<not> prefix pat (drop k s))"
proof (induction pat s i rule: find_aux.induct)
  case (1 pat i)
  then show ?case by auto
next
  case (2 pat c cs i)
  have "(\<forall>k \<le> length (c # cs). \<not> prefix pat (drop k (c # cs)))
     \<longleftrightarrow> \<not> prefix pat (c # cs) \<and> (\<forall>k \<le> length cs. \<not> prefix pat (drop k cs))"
    by (auto simp: less_Suc_eq_le all_simps elim: allE [of _ "Suc _"] split: nat.splits)
       (metis Suc_le_mono drop_Suc_Cons drop0 not0_implies_Suc)
  with 2 show ?case by simp
qed

lemma str_find_Some [str_find_facts]:
  assumes "str_find s pat p = Some i"
  shows "p \<le> i" and "i \<le> length s" and "prefix pat (drop i s)"
    and "\<And>k. p \<le> k \<Longrightarrow> k < i \<Longrightarrow> \<not> prefix pat (drop k s)"
    and "i + length pat \<le> length s"
proof -
  from assms have p: "p \<le> length s" and f: "find_aux pat (drop p s) p = Some i"
    by (auto simp: str_find_def split: if_splits)
  note F = find_aux_Some [OF f]
  show le: "p \<le> i" and il: "i \<le> length s" using F p by auto
  show pre: "prefix pat (drop i s)" using F le by simp
  show "\<not> prefix pat (drop k s)" if "p \<le> k" "k < i" for k
    using F that by (metis diff_less_mono drop_drop le_add_diff_inverse2)
  from pre have "length pat \<le> length (drop i s)" by (rule prefix_length_le)
  with il show "i + length pat \<le> length s" by simp
qed

lemma str_find_None [str_find_facts]:
  assumes "str_find s pat p = None" and "p \<le> k" and "k \<le> length s"
  shows "\<not> prefix pat (drop k s)"
proof -
  from assms have "find_aux pat (drop p s) p = None"
    by (auto simp: str_find_def split: if_splits)
  then have "\<forall>j \<le> length (drop p s). \<not> prefix pat (drop j (drop p s))"
    by (simp only: find_aux_None)
  moreover have "k - p \<le> length (drop p s)" using assms by simp
  ultimately have "\<not> prefix pat (drop (k - p) (drop p s))" by blast
  then show ?thesis using assms(2) by simp
qed

lemma prefix_drop_take: "prefix pat (drop i s) \<Longrightarrow> drop i s = pat @ drop (i + length pat) s"
  by (metis add.commute append_eq_conv_conj drop_drop prefix_def)

lemma str_find_split:
  assumes "str_find s pat p = Some i"
  shows "drop p s = take (i - p) (drop p s) @ pat @ drop (i + length pat) s"
proof -
  have "drop (i - p) (drop p s) = pat @ drop (i + length pat) s"
    using prefix_drop_take [OF str_find_Some(3) [OF assms]] str_find_Some(1) [OF assms] by simp
  then show ?thesis by (metis append_take_drop_id)
qed

lemma str_find_zero_iff: "str_find s pat 0 = Some 0 \<longleftrightarrow> prefix pat s"
  by (cases s) (auto simp: str_find_def dest: find_aux_Some)

lemma str_find_sublist: "str_find s pat 0 \<noteq> None \<longleftrightarrow> sublist pat s"
proof -
  have "str_find s pat 0 = None \<longleftrightarrow> (\<forall>k \<le> length s. \<not> prefix pat (drop k s))"
    by (simp add: str_find_def find_aux_None)
  moreover have "sublist pat s \<longleftrightarrow> (\<exists>k \<le> length s. prefix pat (drop k s))"
  proof
    assume "sublist pat s"
    then obtain xs ys where "s = xs @ pat @ ys" by (auto simp: sublist_def)
    then show "\<exists>k \<le> length s. prefix pat (drop k s)"
      by (intro exI [of _ "length xs"]) simp
  next
    assume "\<exists>k \<le> length s. prefix pat (drop k s)"
    then obtain k where "prefix pat (drop k s)" by blast
    then show "sublist pat s"
      by (metis append_take_drop_id prefix_def sublist_def)
  qed
  ultimately show ?thesis by auto
qed

section \<open>Decimal numbers\<close>

definition digit_char :: "nat \<Rightarrow> char" where
  "digit_char d = char_of (48 + d)"

definition is_digit_char :: "char \<Rightarrow> bool" where
  "is_digit_char c \<longleftrightarrow> 48 \<le> (of_char c :: nat) \<and> (of_char c :: nat) \<le> 57"

definition digit_val :: "char \<Rightarrow> nat" where
  "digit_val c = of_char c - 48"

fun nat_dec :: "nat \<Rightarrow> string" where
  "nat_dec n = (if n < 10 then [digit_char n] else nat_dec (n div 10) @ [digit_char (n mod 10)])"

declare nat_dec.simps [simp del]

definition int_dec :: "int \<Rightarrow> string" where
  "int_dec i = (if i < 0 then CHR ''-'' # nat_dec (nat (- i)) else nat_dec (nat i))"

fun dec_value :: "nat \<Rightarrow> string \<Rightarrow> nat" where
  "dec_value acc [] = acc"
| "dec_value acc (c # cs) = (if is_digit_char c then dec_value (10 * acc + digit_val c) cs else acc)"

definition is_space_char :: "char \<Rightarrow> bool" where
  "is_space_char c \<longleftrightarrow> c \<in> {CHR '' '', CHR 0x09, CHR 0x0A, CHR 0x0B, CHR 0x0C, CHR 0x0D}"

text \<open>\<^verbatim>\<open>strtol(s, &end, 10)\<close>: \<^term>\<open>None\<close> when no digit was found, else the value before any
  clamping. \<^verbatim>\<open>std::stoi\<close> throws in the first case and when the value is no \<^verbatim>\<open>int\<close>; \<^verbatim>\<open>atoi\<close> gives 0
  in the first case.\<close>

definition strtol_dec :: "string \<Rightarrow> int option" where
  "strtol_dec s =
     (let t = dropWhile is_space_char s;
          neg = (t \<noteq> [] \<and> hd t = CHR ''-'');
          u = (if t \<noteq> [] \<and> hd t \<in> {CHR ''-'', CHR ''+''} then tl t else t)
      in if u \<noteq> [] \<and> is_digit_char (hd u)
         then Some (if neg then - int (dec_value 0 u) else int (dec_value 0 u))
         else None)"

definition stoi :: "string \<Rightarrow> int result" where
  "stoi s = (case strtol_dec (c_str s) of
       None \<Rightarrow> Inl Invalid_Argument
     | Some v \<Rightarrow> if v < - (2 ^ 31) \<or> 2 ^ 31 \<le> v then Inl Out_Of_Range else Inr v)"

lemma of_char_digit [simp]: "d < 10 \<Longrightarrow> (of_char (digit_char d) :: nat) = 48 + d"
  by (simp add: digit_char_def)

lemma digit_char_facts [simp]:
  "d < 10 \<Longrightarrow> is_digit_char (digit_char d)" "d < 10 \<Longrightarrow> digit_val (digit_char d) = d"
  by (simp_all add: is_digit_char_def digit_val_def)

lemma nat_dec_digits: "c \<in> set (nat_dec n) \<Longrightarrow> is_digit_char c"
  by (induction n rule: nat_dec.induct) (subst (asm) (2) nat_dec.simps, auto split: if_splits)

lemma nat_dec_nonempty [simp]: "nat_dec n \<noteq> []"
  by (subst nat_dec.simps) simp

lemma dec_value_append:
  assumes "\<forall>c \<in> set xs. is_digit_char c"
  shows "dec_value acc (xs @ ys) = dec_value (dec_value acc xs) ys"
  using assms by (induction xs arbitrary: acc) auto

lemma dec_value_nat_dec [simp]: "dec_value 0 (nat_dec n) = n"
proof (induction n rule: nat_dec.induct)
  case (1 n)
  show ?case
  proof (cases "n < 10")
    case True
    then show ?thesis by (subst nat_dec.simps) simp
  next
    case False
    with 1 have "dec_value 0 (nat_dec (n div 10)) = n div 10" by simp
    moreover have "\<forall>c \<in> set (nat_dec (n div 10)). is_digit_char c" using nat_dec_digits by blast
    ultimately show ?thesis using False
      by (subst nat_dec.simps) (simp add: dec_value_append)
  qed
qed

lemma dec_value_stop:
  "ys = [] \<or> \<not> is_digit_char (hd ys) \<Longrightarrow> dec_value acc ys = acc"
  by (cases ys) auto

lemma hd_nat_dec_digit [simp]: "is_digit_char (hd (nat_dec n))"
  by (rule nat_dec_digits [OF hd_in_set]) simp

lemma digit_not_space: "is_digit_char c \<Longrightarrow> \<not> is_space_char c"
  by (auto simp: is_digit_char_def is_space_char_def)

lemma digit_not_sign: "is_digit_char c \<Longrightarrow> c \<noteq> CHR ''-'' \<and> c \<noteq> CHR ''+''"
  by (auto simp: is_digit_char_def)

text \<open>\<^verbatim>\<open>strtol\<close> reads back what \<^verbatim>\<open>to_string\<close> printed, up to the first character that is no digit.\<close>

lemma strtol_int_dec:
  assumes "ys = [] \<or> \<not> is_digit_char (hd ys)"
  shows "strtol_dec (int_dec i @ ys) = Some i"
proof -
  have dv: "dec_value 0 (nat_dec n @ ys) = n" for n
    using assms nat_dec_digits by (subst dec_value_append) (auto simp: dec_value_stop)
  obtain c cs where n: "nat_dec (nat i) = c # cs" and c: "is_digit_char c"
    by (metis hd_nat_dec_digit list.sel(1) nat_dec_nonempty neq_Nil_conv)
  have m: "\<not> is_space_char (CHR ''-'')" by (simp add: is_space_char_def)
  show ?thesis
  proof (cases "i < 0")
    case True
    then show ?thesis using m dv [of "nat (- i)"]
      by (simp add: int_dec_def strtol_dec_def Let_def)
  next
    case False
    then show ?thesis using n c dv [of "nat i"] digit_not_space [OF c] digit_not_sign [OF c]
      by (simp add: int_dec_def strtol_dec_def Let_def)
  qed
qed

section \<open>Lists\<close>

lemma take_drop_append_drop: "i \<le> j \<Longrightarrow> take (j - i) (drop i xs) @ drop j xs = drop i xs"
  by (metis append_take_drop_id drop_drop le_add_diff_inverse2)

section \<open>Words of 32 bits read as signed and unsigned\<close>

lemma sint_eq_uint: "uint (n :: u32) < 2 ^ 31 \<Longrightarrow> sint n = uint n"
proof -
  assume "uint n < 2 ^ 31"
  moreover have "- (2 ^ 31) \<le> uint n" by (rule order_trans [OF _ uint_ge_0]) simp
  ultimately show ?thesis by (simp add: sint_uint signed_take_bit_int_eq_self_iff)
qed

lemma uint_eq_sint: "0 < sint (n :: u32) \<Longrightarrow> uint n = sint n"
  using sint_lt [of n] by (simp add: uint_sint take_bit_int_eq_self_iff)

lemma uint_Suc: "uint (n :: u32) < 2 ^ 31 \<Longrightarrow> uint (n + 1) = uint n + 1"
  by (simp add: uint_word_ariths)

lemma unat_scast_small: "unat (x :: u32) < 2 ^ 31 \<Longrightarrow> unat (scast x :: u64) = unat x"
proof -
  assume "unat x < 2 ^ 31"
  then have "int (unat x) < 2 ^ 31" by (simp only: of_nat_less_numeral_power_cancel_iff)
  then have "sint x = uint x" by (intro sint_eq_uint) simp
  then have "uint (scast x :: u64) = uint x"
    using unsigned_less [where ?'a = int, of x] by (simp add: scast_eq unsigned_ucast_eq take_bit_int_eq_self)
  then show ?thesis by (simp flip: nat_uint_eq)
qed

lemma unat_scast_large:
  assumes "2 ^ 31 \<le> unat (x :: u32)"
  shows "unat (scast x :: u64) = unat x + (2 ^ 64 - 2 ^ 32)"
proof -
  have b: "2 ^ 31 \<le> uint x" using assms by (metis of_nat_le_iff of_nat_numeral of_nat_power uint_nat)
  have l: "uint x < 2 ^ 32" using unsigned_less [where ?'a = int, of x] by simp
  have "sint x = uint x - 2 ^ 32"
  proof -
    have "uint x div 2 ^ 31 = 1" using b l by (intro int_div_pos_eq [of _ _ _ "uint x - 2 ^ 31"]) simp_all
    then have "bit (uint x) 31" by (simp add: bit_iff_odd)
    then show ?thesis using l by (simp add: sint_uint signed_take_bit_eq_take_bit_minus take_bit_int_eq_self)
  qed
  moreover have "uint (scast x :: u64) = sint x mod 2 ^ 64"
    by (simp only: scast_eq uint_word_of_int) simp
  ultimately have "uint (scast x :: u64) = (uint x - 2 ^ 32) mod 2 ^ 64" by simp
  also have "\<dots> = (uint x - 2 ^ 32 + 2 ^ 64) mod 2 ^ 64" by (rule mod_add_self2 [symmetric])
  also have "\<dots> = uint x + (2 ^ 64 - 2 ^ 32)" using b l by simp
  finally have "int (unat (scast x :: u64)) = int (unat x + (2 ^ 64 - 2 ^ 32))" by simp
  then show ?thesis by (simp only: of_nat_eq_iff)
qed

section \<open>Buffers\<close>

text \<open>Copying a text into a buffer with \<^verbatim>\<open>std::copy_n\<close>, where it fits.\<close>

definition overwrite :: "string \<Rightarrow> nat \<Rightarrow> string \<Rightarrow> string" where
  "overwrite buf at text = take at buf @ text @ drop (at + length text) buf"

lemma length_overwrite [simp]: "at + length text \<le> length buf \<Longrightarrow> length (overwrite buf at text) = length buf"
  by (simp add: overwrite_def)

lemma overwrite_Nil [simp]: "overwrite buf at [] = buf"
  by (simp add: overwrite_def)

lemma overwrite_overwrite:
  "at + length t1 + length t2 \<le> length buf \<Longrightarrow>
     overwrite (overwrite buf at t1) (at + length t1) t2 = overwrite buf at (t1 @ t2)"
  by (simp add: overwrite_def ac_simps)

lemma take_overwrite: "used + length text \<le> length buf \<Longrightarrow>
    take (used + length text) (overwrite buf used text) = take used buf @ text"
  by (simp add: overwrite_def)

end
