(* ===== verification/Config_Schema.thy ===== *)
theory Config_Schema
  imports Maock_Prelude
begin

text \<open>
  The configuration (\<^verbatim>\<open>H2Server_Config_Schema.h\<close>): one record per schema class with the source's
  fields, the constructor of each class that has one, the declaration of its mandatory and optional
  JSON fields (\<^verbatim>\<open>staticjson_init\<close>), and \<^verbatim>\<open>config_post_process\<close>.

  A loader takes the object as its constructor left it and, for each JSON field, the value found
  in the file (\<^term>\<open>None\<close> when the field is absent). A mandatory field that is absent makes the
  whole load fail (\<^term>\<open>None\<close>); an optional one leaves the member as it was. Members that no
  constructor sets have an unspecified value, which is an argument of the model of the constructor.

  A \<^verbatim>\<open>double\<close> read from JSON is finite: sign, mantissa and binary exponent.
\<close>

section \<open>Classes\<close>

datatype binary64 = Finite (dbl_neg: bool) (dbl_mant: nat) (dbl_exp: int)

type_synonym i64 = "64 word"

record Schema_Header_Match =
  hm_matchType :: string
  hm_header :: string
  hm_input :: string

record Schema_Payload_Match =
  pm_matchType :: string
  pm_jsonPointer :: string
  pm_input :: string

record Schema_Request_Match =
  header_match :: "Schema_Header_Match list"
  payload_match :: "Schema_Payload_Match list"
  rm_name :: string

record Schema_Argument =
  type_of_value :: string
  value_identifier :: string
  sa_substring_start :: i64
  sa_substring_length :: i64
  sa_regex :: string

record Schema_Response_Payload =
  msg_payload :: string
  pl_placeholder :: string
  pl_arguments :: "Schema_Argument list"

record Schema_Response_Header =
  sh_header :: string
  sh_placeholder :: string
  sh_arguments :: "Schema_Argument list"

record Schema_Response_To_Return =
  sr_status_code :: u32
  sr_throttle_ratio :: binary64
  sr_payload :: Schema_Response_Payload
  sr_additonalHeaders :: "Schema_Response_Header list"
  sr_luaScript :: string
  sr_lua_offload :: bool
  sr_weight :: u32
  sr_name :: string

record Schema_Service =
  sv_request :: Schema_Request_Match
  sv_responses :: "Schema_Response_To_Return list"

datatype NO_TLS_PROTO = HTTP1_1 | HTTP2

record H2Server_Config_Schema =
  verbose :: bool
  address :: string
  port :: u32
  threads :: u32
  private_key_file :: string
  cert_file :: string
  ca_cert_file :: string
  enable_mTLS :: bool
  max_concurrent_streams :: u32
  skt_recv_buffer_size :: u64
  skt_send_buffer_size :: u64
  window_bits :: u64
  connection_window_bits :: u64
  header_table_size :: u64
  encoder_header_table_size :: u64
  no_tls_proto :: string
  no_tls_proto_enum :: NO_TLS_PROTO
  service :: "Schema_Service list"
  statistics_file :: string
  statistics_interval :: u32

section \<open>Constructors\<close>

text \<open>The constructor assigns \<^verbatim>\<open>substring_start\<close> twice, first 0 and then -1; nothing sets
  \<^verbatim>\<open>substring_length\<close>.\<close>

definition Schema_Argument_init :: "i64 \<Rightarrow> Schema_Argument" where
  "Schema_Argument_init unset_length =
     (let a = \<lparr>type_of_value = [], value_identifier = [], sa_substring_start = 0,
               sa_substring_length = unset_length, sa_regex = []\<rparr>
      in a\<lparr>sa_substring_start := - 1\<rparr>)"

definition Schema_Response_Payload_init :: Schema_Response_Payload where
  "Schema_Response_Payload_init = \<lparr>msg_payload = [], pl_placeholder = [], pl_arguments = []\<rparr>"

definition Schema_Response_To_Return_init ::
    "u32 \<Rightarrow> binary64 \<Rightarrow> u32 \<Rightarrow> Schema_Response_To_Return" where
  "Schema_Response_To_Return_init unset_status unset_ratio unset_weight =
     \<lparr>sr_status_code = unset_status, sr_throttle_ratio = unset_ratio,
      sr_payload = Schema_Response_Payload_init, sr_additonalHeaders = [], sr_luaScript = [],
      sr_lua_offload = False, sr_weight = unset_weight, sr_name = []\<rparr>"

definition H2Server_Config_Schema_init :: "u32 \<Rightarrow> u32 \<Rightarrow> H2Server_Config_Schema" where
  "H2Server_Config_Schema_init unset_port unset_threads =
     \<lparr>verbose = False, address = [], port = unset_port, threads = unset_threads,
      private_key_file = [], cert_file = [], ca_cert_file = [], enable_mTLS = False,
      max_concurrent_streams = 2048, skt_recv_buffer_size = 4 * 1024 * 1024,
      skt_send_buffer_size = 4 * 1024 * 1024, window_bits = 30, connection_window_bits = 30,
      header_table_size = 4096, encoder_header_table_size = 4096, no_tls_proto = ''h2c'',
      no_tls_proto_enum = HTTP2, service = [], statistics_file = [], statistics_interval = 1\<rparr>"

section \<open>Loading\<close>

definition opt :: "'a option \<Rightarrow> 'a \<Rightarrow> 'a" where
  "opt given old = (case given of None \<Rightarrow> old | Some v \<Rightarrow> v)"

definition Schema_Header_Match_load ::
    "string option \<Rightarrow> string option \<Rightarrow> string option \<Rightarrow> Schema_Header_Match option" where
  "Schema_Header_Match_load matchType header_name input =
     (case (matchType, header_name, input) of
        (Some t, Some h, Some i) \<Rightarrow> Some \<lparr>hm_matchType = t, hm_header = h, hm_input = i\<rparr>
      | _ \<Rightarrow> None)"

definition Schema_Payload_Match_load ::
    "string option \<Rightarrow> string option \<Rightarrow> string option \<Rightarrow> Schema_Payload_Match option" where
  "Schema_Payload_Match_load matchType JsonPointer input =
     (case (matchType, JsonPointer, input) of
        (Some t, Some p, Some i) \<Rightarrow> Some \<lparr>pm_matchType = t, pm_jsonPointer = p, pm_input = i\<rparr>
      | _ \<Rightarrow> None)"

definition Schema_Request_Match_load ::
    "Schema_Header_Match list option \<Rightarrow> Schema_Payload_Match list option \<Rightarrow> string option
      \<Rightarrow> Schema_Request_Match option" where
  "Schema_Request_Match_load headers payload name =
     (case (headers, name) of
        (Some h, Some n) \<Rightarrow>
          Some \<lparr>header_match = h, payload_match = opt payload [], rm_name = n\<rparr>
      | _ \<Rightarrow> None)"

definition Schema_Argument_load ::
    "Schema_Argument \<Rightarrow> string option \<Rightarrow> string option \<Rightarrow> string option \<Rightarrow> i64 option \<Rightarrow> i64 option
      \<Rightarrow> Schema_Argument option" where
  "Schema_Argument_load a type_of val_id reg start len =
     (case type_of of None \<Rightarrow> None | Some t \<Rightarrow>
        Some (a\<lparr>type_of_value := t,
                value_identifier := opt val_id (value_identifier a),
                sa_regex := opt reg (sa_regex a),
                sa_substring_start := opt start (sa_substring_start a),
                sa_substring_length := opt len (sa_substring_length a)\<rparr>))"

definition Schema_Response_Payload_load ::
    "string option \<Rightarrow> string option \<Rightarrow> Schema_Argument list option \<Rightarrow> Schema_Response_Payload option" where
  "Schema_Response_Payload_load payload placeholder arguments =
     (case (payload, placeholder, arguments) of
        (Some p, Some ph, Some as) \<Rightarrow>
          Some \<lparr>msg_payload = p, pl_placeholder = ph, pl_arguments = as\<rparr>
      | _ \<Rightarrow> None)"

definition Schema_Response_Header_load ::
    "string option \<Rightarrow> string option \<Rightarrow> Schema_Argument list option \<Rightarrow> Schema_Response_Header option" where
  "Schema_Response_Header_load header placeholder arguments =
     (case (header, placeholder, arguments) of
        (Some h, Some ph, Some as) \<Rightarrow>
          Some \<lparr>sh_header = h, sh_placeholder = ph, sh_arguments = as\<rparr>
      | _ \<Rightarrow> None)"

definition Schema_Response_To_Return_load ::
    "Schema_Response_To_Return \<Rightarrow> u32 option \<Rightarrow> binary64 option \<Rightarrow> Schema_Response_Payload option
      \<Rightarrow> Schema_Response_Header list option \<Rightarrow> string option \<Rightarrow> bool option \<Rightarrow> string option
      \<Rightarrow> u32 option \<Rightarrow> Schema_Response_To_Return option" where
  "Schema_Response_To_Return_load r status ratio payload headers lua offload name weight =
     (case (status, name) of
        (Some s, Some n) \<Rightarrow>
          Some (r\<lparr>sr_status_code := s,
                  sr_throttle_ratio := opt ratio (sr_throttle_ratio r),
                  sr_payload := opt payload (sr_payload r),
                  sr_additonalHeaders := opt headers (sr_additonalHeaders r),
                  sr_luaScript := opt lua (sr_luaScript r),
                  sr_lua_offload := opt offload (sr_lua_offload r),
                  sr_name := n,
                  sr_weight := opt weight (sr_weight r)\<rparr>)
      | _ \<Rightarrow> None)"

definition Schema_Service_load ::
    "Schema_Request_Match option \<Rightarrow> Schema_Response_To_Return list option \<Rightarrow> Schema_Service option" where
  "Schema_Service_load Request Responses =
     (case (Request, Responses) of
        (Some q, Some rs) \<Rightarrow> Some \<lparr>sv_request = q, sv_responses = rs\<rparr> | _ \<Rightarrow> None)"

text \<open>The fields of the top-level object as they are given in the file.\<close>

record config_fields =
  f_verbose :: "bool option"
  f_address :: "string option"
  f_port :: "u32 option"
  f_threads :: "u32 option"
  f_private_key_file :: "string option"
  f_cert_file :: "string option"
  f_caCert_file :: "string option"
  f_mTLS :: "bool option"
  f_max_concurrent_streams :: "u32 option"
  f_socket_receive_buffer_size :: "u64 option"
  f_socket_send_buffer_size :: "u64 option"
  f_header_table_size :: "u64 option"
  f_encoder_header_table_size :: "u64 option"
  f_window_bits :: "u64 option"
  f_connection_window_bits :: "u64 option"
  f_no_tls_proto :: "string option"
  f_statistics_file :: "string option"
  f_statistics_interval :: "u32 option"
  f_Service :: "Schema_Service list option"

definition H2Server_Config_Schema_load ::
    "H2Server_Config_Schema \<Rightarrow> config_fields \<Rightarrow> H2Server_Config_Schema option" where
  "H2Server_Config_Schema_load c f =
     (case (f_address f, f_port f, f_threads f, f_Service f) of
        (Some ad, Some po, Some th, Some sv) \<Rightarrow>
          Some (c\<lparr>verbose := opt (f_verbose f) (verbose c),
                  address := ad,
                  port := po,
                  threads := th,
                  private_key_file := opt (f_private_key_file f) (private_key_file c),
                  cert_file := opt (f_cert_file f) (cert_file c),
                  ca_cert_file := opt (f_caCert_file f) (ca_cert_file c),
                  enable_mTLS := opt (f_mTLS f) (enable_mTLS c),
                  max_concurrent_streams := opt (f_max_concurrent_streams f) (max_concurrent_streams c),
                  skt_recv_buffer_size := opt (f_socket_receive_buffer_size f) (skt_recv_buffer_size c),
                  skt_send_buffer_size := opt (f_socket_send_buffer_size f) (skt_send_buffer_size c),
                  header_table_size := opt (f_header_table_size f) (header_table_size c),
                  encoder_header_table_size :=
                    opt (f_encoder_header_table_size f) (encoder_header_table_size c),
                  window_bits := opt (f_window_bits f) (window_bits c),
                  connection_window_bits := opt (f_connection_window_bits f) (connection_window_bits c),
                  no_tls_proto := opt (f_no_tls_proto f) (no_tls_proto c),
                  statistics_file := opt (f_statistics_file f) (statistics_file c),
                  statistics_interval := opt (f_statistics_interval f) (statistics_interval c),
                  service := sv\<rparr>)
      | _ \<Rightarrow> None)"

section \<open>Post-processing\<close>

text \<open>The file system is a parameter: the contents of a file that can be opened. A payload or
  Lua script that names such a file is replaced by the contents.\<close>

type_synonym file_system = "string \<Rightarrow> string option"

definition file_or_text :: "file_system \<Rightarrow> string \<Rightarrow> string" where
  "file_or_text fs s = (if s = [] then s else case fs s of None \<Rightarrow> s | Some dest \<Rightarrow> dest)"

definition post_process_response ::
    "file_system \<Rightarrow> Schema_Response_To_Return \<Rightarrow> Schema_Response_To_Return" where
  "post_process_response fs r =
     (let r1 = r\<lparr>sr_payload := (sr_payload r)\<lparr>msg_payload := file_or_text fs (msg_payload (sr_payload r))\<rparr>\<rparr>
      in r1\<lparr>sr_luaScript := file_or_text fs (sr_luaScript r1)\<rparr>)"

definition config_post_process ::
    "file_system \<Rightarrow> H2Server_Config_Schema \<Rightarrow> H2Server_Config_Schema" where
  "config_post_process fs c =
     c\<lparr>no_tls_proto_enum := (if no_tls_proto c = ''h2c'' then HTTP2 else HTTP1_1),
       service := map (\<lambda>s. s\<lparr>sv_responses := map (post_process_response fs) (sv_responses s)\<rparr>)
                    (service c)\<rparr>"

section \<open>Properties\<close>

lemma opt_simps [simp]: "opt None x = x" "opt (Some y) x = y"
  by (simp_all add: opt_def)

lemma file_or_text_absent [simp]: "fs s = None \<Longrightarrow> file_or_text fs s = s"
  by (simp add: file_or_text_def)

lemma post_process_frame [simp]:
  "sr_status_code (post_process_response fs r) = sr_status_code r"
  "sr_weight (post_process_response fs r) = sr_weight r"
  "sr_throttle_ratio (post_process_response fs r) = sr_throttle_ratio r"
  "sr_name (post_process_response fs r) = sr_name r"
  "sr_additonalHeaders (post_process_response fs r) = sr_additonalHeaders r"
  "sr_lua_offload (post_process_response fs r) = sr_lua_offload r"
  "pl_arguments (sr_payload (post_process_response fs r)) = pl_arguments (sr_payload r)"
  "pl_placeholder (sr_payload (post_process_response fs r)) = pl_placeholder (sr_payload r)"
  by (simp_all add: post_process_response_def Let_def)

text \<open>Post-processing a configuration changes only payloads and Lua scripts: every service
  keeps its request rules, and its responses keep their number, names, weights, status codes,
  placeholders and arguments, so indices into the configuration stay valid.\<close>

lemma config_post_process_keeps_rules:
  "map sv_request (service (config_post_process fs c)) = map sv_request (service c)
   \<and> map (map (\<lambda>r. (sr_name r, sr_weight r, sr_status_code r,
        pl_placeholder (sr_payload r), pl_arguments (sr_payload r), sr_additonalHeaders r)) \<circ> sv_responses)
        (service (config_post_process fs c))
     = map (map (\<lambda>r. (sr_name r, sr_weight r, sr_status_code r,
        pl_placeholder (sr_payload r), pl_arguments (sr_payload r), sr_additonalHeaders r)) \<circ> sv_responses)
        (service c)
   \<and> (no_tls_proto_enum (config_post_process fs c) = HTTP2 \<longleftrightarrow> no_tls_proto c = ''h2c'')"
  by (simp add: config_post_process_def comp_def)

end
