(* ===== verification/Json_Pointer.thy ===== *)
theory Json_Pointer
  imports Config_Schema
begin

text \<open>
  Tokens and JSON values (first half of \<^verbatim>\<open>H2Server_Response.h\<close>): \<^verbatim>\<open>tokenize_string\<close>, the extended
  JSON pointers \<^verbatim>\<open>/~#n#name\<close> and \<^verbatim>\<open>/~#n#value\<close> that address the n-th member of an object, and the
  conversion of a JSON value to text.

  RapidJSON and the regular expressions of the C++ library are not part of the repository; what the
  code calls of them is the record \<open>lib\<close>, an argument of the definitions that use it.
\<close>

section \<open>JSON values and the libraries\<close>

datatype json =
    JNull
  | JBool bool
  | JInt int
  | JDouble binary64
  | JString string
  | JArray "json list"
  | JObject "(string \<times> json) list"

record lib =
  rj_parse :: "string \<Rightarrow> json"
  rj_pointer_get :: "string \<Rightarrow> json \<Rightarrow> json option"
  rj_write :: "json \<Rightarrow> string"
  re_valid :: "string \<Rightarrow> bool"
  re_match :: "string \<Rightarrow> string \<Rightarrow> bool"
  re_search :: "string \<Rightarrow> string \<Rightarrow> string option"

text \<open>A concrete instance, for closed examples: pointers find nothing but the root, regular
  expressions match literally.\<close>

definition plain_lib :: lib where
  "plain_lib = \<lparr>rj_parse = (\<lambda>s. JString s),
     rj_pointer_get = (\<lambda>p v. if p = [] then Some v else None),
     rj_write = (\<lambda>v. ''{}''), re_valid = (\<lambda>r. True), re_match = (\<lambda>r s. r = s),
     re_search = (\<lambda>r s. if sublist r s then Some r else None)\<rparr>"

section \<open>Tokens\<close>

text \<open>The loop of \<^verbatim>\<open>tokenize_string\<close>; it runs for a non-empty delimiter only.\<close>

function tokenize_loop :: "string \<Rightarrow> string \<Rightarrow> nat \<Rightarrow> string list" where
  "tokenize_loop source [] start = []"
| "tokenize_loop source (d # ds) start =
     (case str_find source (d # ds) start of
        None \<Rightarrow> [substr source start None]
      | Some pos \<Rightarrow> substr source start (Some (pos - start))
                   # tokenize_loop source (d # ds) (pos + length (d # ds)))"
  by pat_completeness auto
termination
proof (relation "measure (\<lambda>(s, d, p). length s - p)", goal_cases)
  case (2 source d ds start pos)
  note F = str_find_Some [OF 2]
  from F(1) F(5) show ?case by simp
qed simp

declare tokenize_loop.simps(2) [simp del]

definition tokenize_string :: "string \<Rightarrow> string \<Rightarrow> string list" where
  "tokenize_string source delimeter =
     (if delimeter \<noteq> [] then tokenize_loop source delimeter 0 else [source])"

section \<open>The n-th member of an object\<close>

fun member_forward :: "int \<Rightarrow> int \<Rightarrow> (string \<times> json) list \<Rightarrow> (string \<times> json) option" where
  "member_forward n index [] = None"
| "member_forward n index (m # ms) = (if index = n then Some m else member_forward n (index + 1) ms)"

text \<open>The backward loop: \<open>itr\<close> is the iterator's distance from \<^verbatim>\<open>MemberBegin()\<close>.\<close>

fun member_backward :: "(string \<times> json) list \<Rightarrow> int \<Rightarrow> nat \<Rightarrow> int \<Rightarrow> (string \<times> json) option" where
  "member_backward ms n 0 index = None"
| "member_backward ms n (Suc itr) index =
     (if index = n then Some (ms ! Suc itr) else member_backward ms n itr (index - 1))"

definition nth_member :: "(string \<times> json) list \<Rightarrow> int \<Rightarrow> (string \<times> json) option" where
  "nth_member ms n =
     (if ms \<noteq> [] \<and> n > 0 then member_forward n 1 ms
      else if ms \<noteq> [] \<and> n < 0 then
        (if 0 - n = int (length ms) then Some (ms ! 0)
         else member_backward ms n (length ms - 1) (- 1))
      else None)"

text \<open>\<^verbatim>\<open>MemberCount()\<close> requires an object.\<close>

fun getNthValue :: "json \<Rightarrow> int \<Rightarrow> json option result" where
  "getNthValue (JObject ms) n = Inr (map_option snd (nth_member ms n))"
| "getNthValue _ n = Inl Assertion"

fun getNthName :: "json \<Rightarrow> int \<Rightarrow> json option result" where
  "getNthName (JObject ms) n = Inr (map_option (JString \<circ> fst) (nth_member ms n))"
| "getNthName _ n = Inl Assertion"

section \<open>Extended pointers\<close>

definition extended_json_pointer_indicator :: string where
  "extended_json_pointer_indicator = ''/~#''"

definition extended_json_pointer_name_indicator :: string where
  "extended_json_pointer_name_indicator = ''#name''"

definition extended_json_pointer_value_indicator :: string where
  "extended_json_pointer_value_indicator = ''#value''"

text \<open>The loop of \<^verbatim>\<open>splitComplexJsonPointer\<close>, from a start position that is not \<^verbatim>\<open>npos\<close>.\<close>

function split_loop :: "string \<Rightarrow> nat \<Rightarrow> string list" where
  "split_loop json_pointer start_pos =
     (let end_pos = str_find json_pointer extended_json_pointer_indicator start_pos;
          plain = (if end_pos \<noteq> Some start_pos
                   then [substr json_pointer start_pos (map_option (\<lambda>e. e - start_pos) end_pos)]
                   else [])
      in case end_pos of
           None \<Rightarrow> plain
         | Some e \<Rightarrow>
             (let nextJsonPtrPos = str_find json_pointer ''/'' (e + 1);
                  ext = substr json_pointer e (map_option (\<lambda>n. n - e) nextJsonPtrPos)
              in plain @ ext # (case nextJsonPtrPos of
                                  None \<Rightarrow> [] | Some n \<Rightarrow> split_loop json_pointer n)))"
  by pat_completeness auto
termination
proof (relation "measure (\<lambda>(p, s). length p - s)", goal_cases)
  case (2 p s e_opt plain e n_opt ext n)
  then have e: "str_find p extended_json_pointer_indicator s = Some e"
    and n: "str_find p ''/'' (e + 1) = Some n" by simp_all
  from str_find_Some(1) [OF e] str_find_Some(1,5) [OF n] show ?case by simp
qed simp

declare split_loop.simps [simp del]

definition splitComplexJsonPointer :: "string \<Rightarrow> string list" where
  "splitComplexJsonPointer json_pointer = split_loop json_pointer 0"

section \<open>Values as text\<close>

text \<open>\<^verbatim>\<open>std::to_string(double)\<close> prints with format \<^verbatim>\<open>%f\<close>: six decimals, the exact value rounded
  to nearest, ties to even.\<close>

definition dbl_micros :: "binary64 \<Rightarrow> nat" where
  "dbl_micros x =
     (if 0 \<le> dbl_exp x then dbl_mant x * 2 ^ nat (dbl_exp x) * 10 ^ 6
      else let d = 2 ^ nat (- dbl_exp x); q = dbl_mant x * 10 ^ 6 div d; r = dbl_mant x * 10 ^ 6 mod d
           in if d < 2 * r \<or> (d = 2 * r \<and> odd q) then q + 1 else q)"

definition dbl_to_string :: "binary64 \<Rightarrow> string" where
  "dbl_to_string x =
     (let n = dbl_micros x; frac = nat_dec (n mod 10 ^ 6)
      in (if dbl_neg x then ''-'' else []) @ nat_dec (n div 10 ^ 6) @ ''.''
           @ replicate (6 - length frac) (CHR ''0'') @ frac)"

definition is_uint64 :: "json \<Rightarrow> bool" where
  "is_uint64 v = (case v of JInt i \<Rightarrow> 0 \<le> i \<and> i < 2 ^ 64 | _ \<Rightarrow> False)"

fun convertRapidVJsonValueToStr :: "lib \<Rightarrow> json option \<Rightarrow> string" where
  "convertRapidVJsonValueToStr L None = []"
| "convertRapidVJsonValueToStr L (Some value) =
     (case value of
        JString s \<Rightarrow> c_str s
      | JBool b \<Rightarrow> (if b then ''true'' else ''false'')
      | JInt i \<Rightarrow> (if is_uint64 value then nat_dec (nat i) else [])
      | JDouble d \<Rightarrow> dbl_to_string d
      | JObject ms \<Rightarrow> c_str (rj_write L value)
      | JArray vs \<Rightarrow> []
      | JNull \<Rightarrow> [])"

text \<open>One turn of the loop of \<^verbatim>\<open>getValueFromJsonPtr\<close>: the new value and whether the loop breaks
  after a \<^verbatim>\<open>#name\<close>. Both exceptions end the process.\<close>

definition pointer_step :: "lib \<Rightarrow> string \<Rightarrow> json \<Rightarrow> (json option \<times> bool) result" where
  "pointer_step L pointer value =
     (if str_find pointer extended_json_pointer_indicator 0 \<noteq> None then
        (case substr_checked pointer (length extended_json_pointer_indicator) None of
           Inl _ \<Rightarrow> Inl Exit_1
         | Inr digits \<Rightarrow>
           (case stoi digits of
              Inl _ \<Rightarrow> Inl Exit_1
            | Inr index \<Rightarrow>
              (case substr_checked pointer
                      (length (extended_json_pointer_indicator @ int_dec index)) None of
                 Inl _ \<Rightarrow> Inl Exit_1
               | Inr name_or_value \<Rightarrow>
                  if name_or_value = extended_json_pointer_name_indicator
                  then rbind (getNthName value index) (\<lambda>v. Inr (v, True))
                  else if name_or_value = extended_json_pointer_value_indicator
                  then rbind (getNthValue value index) (\<lambda>v. Inr (v, False))
                  else Inr (Some value, False))))
      else Inr (rj_pointer_get L (c_str pointer) value, False))"

fun pointer_loop :: "lib \<Rightarrow> string list \<Rightarrow> json \<Rightarrow> json option result" where
  "pointer_loop L [] value = Inr (Some value)"
| "pointer_loop L (p # ps) value =
     rbind (pointer_step L p value) (\<lambda>(v, brk).
       if brk then Inr v
       else case v of None \<Rightarrow> Inr None | Some value' \<Rightarrow> pointer_loop L ps value')"

definition getValueFromJsonPtr :: "lib \<Rightarrow> json \<Rightarrow> string \<Rightarrow> string result" where
  "getValueFromJsonPtr L d json_pointer =
     rbind (pointer_loop L (splitComplexJsonPointer json_pointer) d)
       (\<lambda>v. Inr (convertRapidVJsonValueToStr L v))"

section \<open>Lemmas\<close>

fun join_with :: "string \<Rightarrow> string list \<Rightarrow> string" where
  "join_with sep [] = []"
| "join_with sep [x] = x"
| "join_with sep (x # y # ys) = x @ sep @ join_with sep (y # ys)"

lemma tokenize_loop_nonempty: "d \<noteq> [] \<Longrightarrow> tokenize_loop s d p \<noteq> []"
  by (cases d) (auto simp: tokenize_loop.simps split: option.splits)

lemma tokenize_loop_None:
  "d \<noteq> [] \<Longrightarrow> str_find s d p = None \<Longrightarrow> tokenize_loop s d p = [drop p s]"
  by (cases d) (auto simp: tokenize_loop.simps substr_def)

lemma tokenize_loop_Some:
  "d \<noteq> [] \<Longrightarrow> str_find s d p = Some i
    \<Longrightarrow> tokenize_loop s d p = take (i - p) (drop p s) # tokenize_loop s d (i + length d)"
  by (cases d) (auto simp: tokenize_loop.simps substr_def)

lemma join_with_Cons: "ys \<noteq> [] \<Longrightarrow> join_with sep (x # ys) = x @ sep @ join_with sep ys"
  by (cases ys) auto

lemma join_tokenize_loop:
  "delim \<noteq> [] \<Longrightarrow> p \<le> length s \<Longrightarrow> join_with delim (tokenize_loop s delim p) = drop p s"
proof (induction s delim p rule: tokenize_loop.induct)
  case (2 s d ds p)
  show ?case
  proof (cases "str_find s (d # ds) p")
    case None
    then show ?thesis by (simp add: tokenize_loop_None)
  next
    case (Some i)
    note F = str_find_Some [OF Some]
    have "join_with (d # ds) (tokenize_loop s (d # ds) (i + length (d # ds)))
        = drop (i + length (d # ds)) s"
      using 2 Some F(5) by simp
    then show ?thesis using str_find_split [OF Some]
      by (simp add: tokenize_loop_Some [OF _ Some] join_with_Cons tokenize_loop_nonempty)
  qed
qed simp

lemma prefix_drop_take_mono:
  assumes "prefix pat (drop k (take n xs))" shows "prefix pat (drop k xs)"
  using assms by (metis append_assoc append_take_drop_id drop_append prefix_def)

lemma sublist_prefix_drop: "sublist pat (s :: string) \<longleftrightarrow> (\<exists>k \<le> length s. prefix pat (drop k s))"
  using str_find_sublist [of s pat] find_aux_None [of pat s 0] by (auto simp: str_find_def)

lemma tokenize_loop_no_delim:
  "delim \<noteq> [] \<Longrightarrow> p \<le> length s \<Longrightarrow> t \<in> set (tokenize_loop s delim p) \<Longrightarrow> \<not> sublist delim t"
proof (induction s delim p rule: tokenize_loop.induct)
  case (2 s d ds p)
  show ?case
  proof (cases "str_find s (d # ds) p")
    case None
    with 2 have t: "t = drop p s" by (simp add: tokenize_loop_None)
    have "\<not> prefix (d # ds) (drop k (drop p s))" if "k \<le> length (drop p s)" for k
    proof -
      have "k + p \<le> length s" using that 2(3) by simp
      then show ?thesis using str_find_None [OF None, of "k + p"] by simp
    qed
    then show ?thesis by (auto simp: t sublist_prefix_drop)
  next
    case (Some i)
    note F = str_find_Some [OF Some]
    consider "t = take (i - p) (drop p s)"
      | "t \<in> set (tokenize_loop s (d # ds) (i + length (d # ds)))"
      using 2 by (auto simp: tokenize_loop_Some [OF _ Some])
    then show ?thesis
    proof cases
      case 1
      have "\<not> prefix (d # ds) (drop k t)" if "k \<le> length t" for k
      proof
        assume pre: "prefix (d # ds) (drop k t)"
        then have "k < i - p" using 1 by (cases "k < i - p") auto
        moreover have "prefix (d # ds) (drop (k + p) s)"
          using prefix_drop_take_mono [OF pre [unfolded 1]] by simp
        ultimately show False using F(4) [of "k + p"] by simp
      qed
      then show ?thesis by (auto simp: sublist_prefix_drop)
    next
      case 2
      with "2.IH" Some F(5) show ?thesis by simp
    qed
  qed
qed simp

lemma member_forward_spec:
  "member_forward n i ms
     = (if i \<le> n \<and> n < i + int (length ms) then Some (ms ! nat (n - i)) else None)"
proof (induction ms arbitrary: i)
  case (Cons m ms)
  show ?case
  proof (cases "i = n")
    case True
    then show ?thesis by simp
  next
    case False
    then have "nat (n - i) = Suc (nat (n - (i + 1)))" if "i \<le> n" using that by simp
    with False show ?thesis by (auto simp: Cons.IH)
  qed
qed simp

lemma member_backward_spec:
  "member_backward ms n itr i
     = (if n \<le> i \<and> i - n < int itr then Some (ms ! (itr - nat (i - n))) else None)"
proof (induction itr arbitrary: i)
  case (Suc itr)
  show ?case
  proof (cases "i = n")
    case True
    then show ?thesis by simp
  next
    case False
    then have "itr - nat (i - 1 - n) = Suc itr - nat (i - n)" if "n \<le> i" using that by simp
    with False show ?thesis by (auto simp: Suc.IH)
  qed
qed simp

lemma split_loop_concat: "s \<le> length p \<Longrightarrow> concat (split_loop p s) = drop s p"
proof (induction p s rule: split_loop.induct)
  case (1 p s)
  let ?ind = extended_json_pointer_indicator
  show ?case
  proof (cases "str_find p ?ind s")
    case None
    then show ?thesis by (subst split_loop.simps) (simp add: substr_def)
  next
    case (Some e)
    note E = str_find_Some [OF Some]
    show ?thesis
    proof (cases "str_find p ''/'' (e + 1)")
      case None
      then show ?thesis using Some E take_drop_append_drop [OF E(1), of p]
        by (subst split_loop.simps) (auto simp: substr_def Let_def)
    next
      case n: (Some n)
      note N = str_find_Some [OF n]
      have IH: "concat (split_loop p n) = drop n p"
        using 1(1) [OF refl refl Some refl refl n] N(2) by simp
      have "take (n - e) (drop e p) @ drop n p = drop e p"
        by (rule take_drop_append_drop) (use N(1) in simp)
      then show ?thesis using Some n E IH take_drop_append_drop [OF E(1), of p]
        by (subst split_loop.simps) (auto simp: substr_def Let_def)
    qed
  qed
qed

lemma c_str_id: "CHR 0x00 \<notin> set s \<Longrightarrow> c_str s = s"
  by (induction s) (auto simp: c_str_def)

lemma zero_byte_not_digit: "\<not> is_digit_char (CHR 0x00)"
  by (simp add: is_digit_char_def)

lemma int_dec_no_zero: "CHR 0x00 \<notin> set (int_dec i)"
  using nat_dec_digits zero_byte_not_digit by (auto simp: int_dec_def)

lemma stoi_int_dec:
  assumes "- (2 ^ 31) \<le> i" and "i < 2 ^ 31" and "CHR 0x00 \<notin> set ys"
    and "ys = [] \<or> \<not> is_digit_char (hd ys)"
  shows "stoi (int_dec i @ ys) = Inr i"
  using assms int_dec_no_zero [of i] by (simp add: stoi_def c_str_id strtol_int_dec)

text \<open>The pieces of a pointer: one that holds the indicator starts with it.\<close>

lemma not_sublist_take_before:
  assumes "str_find p pat s = Some e"
  shows "\<not> sublist pat (take (e - s) (drop s p)) \<or> pat = []"
proof -
  note E = str_find_Some [OF assms]
  have "\<not> prefix pat (drop k (take (e - s) (drop s p)))" if "pat \<noteq> []" for k
  proof
    assume pre: "prefix pat (drop k (take (e - s) (drop s p)))"
    then have "k < e - s" using that by (cases "k < e - s") auto
    moreover have "prefix pat (drop (k + s) p)" using prefix_drop_take_mono [OF pre] by simp
    ultimately show False using E(4) [of "k + s"] by simp
  qed
  then show ?thesis by (auto simp: sublist_prefix_drop)
qed

lemma not_sublist_after_last:
  assumes "str_find p pat s = None" and "s \<le> length p"
  shows "\<not> sublist pat (drop s p)"
proof -
  have "\<not> prefix pat (drop k (drop s p))" if "k \<le> length (drop s p)" for k
  proof -
    have "k + s \<le> length p" using that assms(2) by simp
    then show ?thesis using str_find_None [OF assms(1), of "k + s"] by simp
  qed
  then show ?thesis by (auto simp: sublist_prefix_drop)
qed

lemma ext_piece_prefix:
  assumes e: "str_find p extended_json_pointer_indicator s = Some e"
    and n: "str_find p ''/'' (e + 1) = Some n"
  shows "prefix extended_json_pointer_indicator (take (n - e) (drop e p))"
proof -
  note E = str_find_Some [OF e] and N = str_find_Some [OF n]
  have d: "drop e p = ''/~#'' @ drop (e + 3) p"
    using prefix_drop_take [OF E(3)]
    by (simp add: extended_json_pointer_indicator_def numeral_3_eq_3)
  have "drop (e + 1) p = ''~#'' @ drop (e + 3) p"
    using arg_cong [OF d, of "drop 1"] by (simp add: add.commute)
  moreover have "drop (e + 2) p = ''#'' @ drop (e + 3) p"
    using arg_cong [OF d, of "drop 2"] by (simp add: add.commute)
  ultimately have "n \<noteq> e + 1" and "n \<noteq> e + 2" using N(3) by auto
  then have "3 \<le> n - e" using N(1) by simp
  then obtain k where "n - e = 3 + k" using le_Suc_ex by blast
  then show ?thesis using d by (simp add: extended_json_pointer_indicator_def numeral_3_eq_3)
qed

lemma split_loop_pieces:
  assumes "s \<le> length p" and "q \<in> set (split_loop p s)"
  shows "prefix extended_json_pointer_indicator q \<or> \<not> sublist extended_json_pointer_indicator q"
  using assms
proof (induction p s rule: split_loop.induct)
  case (1 p s)
  let ?ind = extended_json_pointer_indicator
  have ne: "?ind \<noteq> []" by (simp add: extended_json_pointer_indicator_def)
  show ?case
  proof (cases "str_find p ?ind s")
    case None
    with 1(3) have "q = drop s p" by (subst (asm) split_loop.simps) (simp add: substr_def)
    then show ?thesis using not_sublist_after_last [OF None 1(2)] by simp
  next
    case (Some e)
    note plain = not_sublist_take_before [OF Some]
    show ?thesis
    proof (cases "str_find p ''/'' (e + 1)")
      case None
      with 1(3) Some have "q = take (e - s) (drop s p) \<or> q = drop e p"
        by (subst (asm) split_loop.simps) (auto simp: substr_def Let_def split: if_splits)
      then show ?thesis using plain ne str_find_Some(3) [OF Some] by auto
    next
      case n: (Some n)
      have IH: "q \<in> set (split_loop p n) \<Longrightarrow> ?thesis"
        using 1(1) [OF refl refl Some refl refl n] str_find_Some(2) [OF n] by blast
      from 1(3) Some n have "q = take (e - s) (drop s p) \<or> q = take (n - e) (drop e p)
          \<or> q \<in> set (split_loop p n)"
        by (subst (asm) split_loop.simps) (auto simp: substr_def Let_def split: if_splits)
      then show ?thesis using plain ne ext_piece_prefix [OF Some n] IH by auto
    qed
  qed
qed

text \<open>The member an index denotes: 1 is the first one, -1 the last one.\<close>

definition member_at :: "(string \<times> json) list \<Rightarrow> int \<Rightarrow> (string \<times> json) option" where
  "member_at ms n =
     (if 1 \<le> n \<and> n \<le> int (length ms) then Some (ms ! nat (n - 1))
      else if - int (length ms) \<le> n \<and> n \<le> - 1 then Some (ms ! nat (int (length ms) + n))
      else None)"

lemma nth_member_member_at: "nth_member ms n = member_at ms n"
proof -
  have "length ms - 1 - nat (- 1 - n) = nat (int (length ms) + n)" if "n < 0" using that by simp
  moreover have "nat (int (length ms) + n) = 0" if "- n = int (length ms)" using that by simp
  ultimately show ?thesis
    by (cases ms) (auto simp: nth_member_def member_at_def member_forward_spec member_backward_spec)
qed

lemma split_single_extended:
  assumes "CHR ''/'' \<notin> set rest"
  shows "splitComplexJsonPointer (extended_json_pointer_indicator @ rest)
    = [extended_json_pointer_indicator @ rest]"
proof -
  let ?p = "extended_json_pointer_indicator @ rest"
  have e: "str_find ?p extended_json_pointer_indicator 0 = Some 0"
    by (simp add: str_find_zero_iff)
  have "CHR ''/'' \<notin> set (drop 1 ?p)"
    using assms by (simp add: extended_json_pointer_indicator_def)
  then have "\<not> sublist ''/'' (drop 1 ?p)"
    by (metis in_set_conv_decomp append_Cons append_Nil sublist_def)
  then have "str_find ?p ''/'' 1 = None"
    using find_aux_None [of "''/''" "drop 1 ?p" 1]
    by (auto simp: str_find_def sublist_prefix_drop)
  with e show ?thesis
    by (simp add: splitComplexJsonPointer_def split_loop.simps [of ?p 0] substr_def)
qed

lemma int_dec_no_slash: "CHR ''/'' \<notin> set (int_dec i)"
proof -
  have "\<not> is_digit_char (CHR ''/'')" by (simp add: is_digit_char_def)
  then show ?thesis using nat_dec_digits by (auto simp: int_dec_def)
qed

lemma pointer_step_extended:
  assumes "- (2 ^ 31) \<le> n" and "n < 2 ^ 31" and "suf = ''#name'' \<or> suf = ''#value''"
  shows "pointer_step L (extended_json_pointer_indicator @ int_dec n @ suf) d
    = (if suf = ''#name'' then rbind (getNthName d n) (\<lambda>v. Inr (v, True))
       else rbind (getNthValue d n) (\<lambda>v. Inr (v, False)))"
proof -
  have "stoi (int_dec n @ suf) = Inr n"
    using assms by (intro stoi_int_dec) (auto simp: is_digit_char_def)
  moreover have "str_find (extended_json_pointer_indicator @ int_dec n @ suf)
      extended_json_pointer_indicator 0 = Some 0"
    by (simp add: str_find_zero_iff)
  ultimately show ?thesis using assms(3)
    by (auto simp: pointer_step_def substr_checked_def substr_def
        extended_json_pointer_name_indicator_def extended_json_pointer_value_indicator_def)
qed

lemma digit_char_5: "digit_char 5 = CHR ''5''"
  by code_simp

section \<open>Properties\<close>

text \<open>C6. Cutting a template at its placeholder loses nothing: joining the tokens with the
  placeholder gives the template back, and no token still contains the placeholder.\<close>

theorem tokenize_string_roundtrip:
  "join_with delimeter (tokenize_string source delimeter) = source
   \<and> (\<forall>t \<in> set (tokenize_string source delimeter). delimeter = [] \<or> \<not> sublist delimeter t)"
  using join_tokenize_loop [of delimeter 0 source] tokenize_loop_no_delim [of delimeter 0 source]
  by (auto simp: tokenize_string_def)

theorem tokenize_string_roundtrip_witness:
  "tokenize_string ''a-$-b-$-'' ''$'' = [''a-'', ''-b-'', ''-''] \<and> \<not> sublist ''$'' ''-b-''"
proof -
  have t: "tokenize_string ''a-$-b-$-'' ''$'' = [''a-'', ''-b-'', ''-'']"
    by code_simp
  show ?thesis
    using t tokenize_string_roundtrip [of "''$''" "''a-$-b-$-''"] by simp
qed

text \<open>Splitting an extended JSON pointer is lossless: the pieces in order are the pointer,
  and each piece either is an extended one (it starts with the indicator) or does not contain the
  indicator at all, so the loop that follows never misreads a piece.\<close>

lemma splitComplexJsonPointer_lossless:
  "concat (splitComplexJsonPointer p) = p
   \<and> list_all (\<lambda>q. prefix extended_json_pointer_indicator q
        \<noteq> (\<not> sublist extended_json_pointer_indicator q)) (splitComplexJsonPointer p)"
  using split_loop_concat [of 0 p] split_loop_pieces [of 0 p]
  by (auto simp: splitComplexJsonPointer_def list_all_iff)

text \<open>C8. A pointer \<^verbatim>\<open>/~#n#value\<close> or \<^verbatim>\<open>/~#n#name\<close> on an object gives the value or the name of the
  n-th member, counted from 1 at the front for positive n and from -1 at the back for negative n,
  and the empty text when there is no such member; no index makes the lookup fail.\<close>

theorem getValueFromJsonPtr_nth:
  assumes "- (2 ^ 31) \<le> n" and "n < 2 ^ 31"
  shows "getValueFromJsonPtr L (JObject ms) (''/~#'' @ int_dec n @ ''#value'')
           = Inr (convertRapidVJsonValueToStr L (map_option snd (member_at ms n)))
    \<and> getValueFromJsonPtr L (JObject ms) (''/~#'' @ int_dec n @ ''#name'')
           = Inr (case member_at ms n of None \<Rightarrow> [] | Some m \<Rightarrow> c_str (fst m))"
proof -
  have split: "splitComplexJsonPointer (extended_json_pointer_indicator @ int_dec n @ suf)
      = [extended_json_pointer_indicator @ int_dec n @ suf]" if "suf = ''#name'' \<or> suf = ''#value''" for suf
    using that int_dec_no_slash [of n] by (intro split_single_extended) auto
  note ev = getValueFromJsonPtr_def pointer_step_extended [OF assms] nth_member_member_at
  have ind: "''/~#'' = extended_json_pointer_indicator"
    by (simp add: extended_json_pointer_indicator_def)
  show ?thesis
    using split [of "''#value''"] split [of "''#name''"] unfolding ind
    by (simp add: ev split: option.splits)
qed

theorem getValueFromJsonPtr_nth_witness:
  "getValueFromJsonPtr plain_lib (JObject [(''a'', JInt 7), (''b'', JBool True)]) ''/~#-1#value'' = Inr ''true''
   \<and> getValueFromJsonPtr plain_lib (JObject [(''a'', JInt 7), (''b'', JBool True)]) ''/~#1#name'' = Inr ''a''"
proof -
  have i: "int_dec (- 1) = ''-1''" "int_dec 1 = ''1''" by code_simp+
  let ?o = "[(''a'', JInt 7), (''b'', JBool True)]"
  show ?thesis
    using getValueFromJsonPtr_nth [of "- 1" plain_lib ?o] getValueFromJsonPtr_nth [of 1 plain_lib ?o]
    by (simp add: i member_at_def c_str_def)
qed

text \<open>Which JSON values become text: strings, booleans, non-negative integers, doubles and
  objects. A negative integer becomes the empty text, exactly as \<^verbatim>\<open>null\<close>, an array or an absent
  value does, so no rule can match on it and no response can echo it.\<close>

lemma convert_negative_integer_is_empty:
  "i < 0 \<Longrightarrow> convertRapidVJsonValueToStr L (Some (JInt i)) = convertRapidVJsonValueToStr L None"
  by (simp add: is_uint64_def)

lemma convert_negative_integer_is_empty_witness:
  "convertRapidVJsonValueToStr plain_lib (Some (JInt (- 5))) = [] \<and>
   convertRapidVJsonValueToStr plain_lib (Some (JInt 5)) = ''5''"
  using convert_negative_integer_is_empty [of "- 5" plain_lib]
  by (simp add: is_uint64_def nat_dec.simps digit_char_5)

end
