(* ===== verification/Cxx_Container.thy ===== *)
theory Cxx_Container
  imports Maock_Prelude
begin

text \<open>
  The ordered containers of the C++ library as the sources use them: \<^verbatim>\<open>std::set\<close>, \<^verbatim>\<open>std::map\<close>
  and \<^verbatim>\<open>std::multimap\<close> with a comparison \<open>lt\<close>, each represented by its elements in iteration
  order. The locale \<open>strict_weak_order\<close> is the contract the library puts on a comparison; the
  behaviour of the containers is proved from it once, and every comparison of the program
  (strings, integers, match rules, requests) is shown to meet it where it is defined.
  The locale \<open>dictionary\<close> is the contract of a keyed store.
\<close>

section \<open>Operations\<close>

definition equivalent :: "('a \<Rightarrow> 'a \<Rightarrow> bool) \<Rightarrow> 'a \<Rightarrow> 'a \<Rightarrow> bool" where
  "equivalent lt x y \<longleftrightarrow> \<not> lt x y \<and> \<not> lt y x"

fun set_insert :: "('a \<Rightarrow> 'a \<Rightarrow> bool) \<Rightarrow> 'a \<Rightarrow> 'a list \<Rightarrow> 'a list" where
  "set_insert lt x [] = [x]"
| "set_insert lt x (y # ys) =
     (if lt x y then x # y # ys else if lt y x then y # set_insert lt x ys else y # ys)"

fun set_index :: "('a \<Rightarrow> 'a \<Rightarrow> bool) \<Rightarrow> 'a \<Rightarrow> 'a list \<Rightarrow> nat" where
  "set_index lt x [] = 0"
| "set_index lt x (y # ys) = (if equivalent lt x y then 0 else Suc (set_index lt x ys))"

fun map_insert :: "('k \<Rightarrow> 'k \<Rightarrow> bool) \<Rightarrow> 'k \<Rightarrow> 'v \<Rightarrow> ('k \<times> 'v) list \<Rightarrow> ('k \<times> 'v) list" where
  "map_insert lt k v [] = [(k, v)]"
| "map_insert lt k v ((k', v') # m) =
     (if lt k k' then (k, v) # (k', v') # m
      else if lt k' k then (k', v') # map_insert lt k v m else (k', v') # m)"

fun map_assign :: "('k \<Rightarrow> 'k \<Rightarrow> bool) \<Rightarrow> 'k \<Rightarrow> 'v \<Rightarrow> ('k \<times> 'v) list \<Rightarrow> ('k \<times> 'v) list" where
  "map_assign lt k v [] = [(k, v)]"
| "map_assign lt k v ((k', v') # m) =
     (if lt k k' then (k, v) # (k', v') # m
      else if lt k' k then (k', v') # map_assign lt k v m else (k', v) # m)"

fun map_find :: "('k \<Rightarrow> 'k \<Rightarrow> bool) \<Rightarrow> 'k \<Rightarrow> ('k \<times> 'v) list \<Rightarrow> 'v option" where
  "map_find lt k [] = None"
| "map_find lt k ((k', v') # m) = (if equivalent lt k k' then Some v' else map_find lt k m)"

definition map_erase :: "('k \<Rightarrow> 'k \<Rightarrow> bool) \<Rightarrow> 'k \<Rightarrow> ('k \<times> 'v) list \<Rightarrow> ('k \<times> 'v) list" where
  "map_erase lt k m = filter (\<lambda>p. \<not> equivalent lt k (fst p)) m"

fun map_upper_bound :: "('k \<Rightarrow> 'k \<Rightarrow> bool) \<Rightarrow> 'k \<Rightarrow> ('k \<times> 'v) list \<Rightarrow> 'v option" where
  "map_upper_bound lt k [] = None"
| "map_upper_bound lt k ((k', v') # m) = (if lt k k' then Some v' else map_upper_bound lt k m)"

text \<open>A multimap inserts at the end of the range of equivalent keys.\<close>

fun multimap_insert :: "('k \<Rightarrow> 'k \<Rightarrow> bool) \<Rightarrow> 'k \<Rightarrow> 'v \<Rightarrow> ('k \<times> 'v) list \<Rightarrow> ('k \<times> 'v) list" where
  "multimap_insert lt k v [] = [(k, v)]"
| "multimap_insert lt k v ((k', v') # m) =
     (if lt k k' then (k, v) # (k', v') # m else (k', v') # multimap_insert lt k v m)"

definition equal_range :: "('k \<Rightarrow> 'k \<Rightarrow> bool) \<Rightarrow> 'k \<Rightarrow> ('k \<times> 'v) list \<Rightarrow> 'v list" where
  "equal_range lt k m = map snd (filter (\<lambda>p. equivalent lt k (fst p)) m)"

abbreviation set_ordered :: "('a \<Rightarrow> 'a \<Rightarrow> bool) \<Rightarrow> 'a list \<Rightarrow> bool" where
  "set_ordered lt xs \<equiv> sorted_wrt lt xs"

abbreviation map_ordered :: "('k \<Rightarrow> 'k \<Rightarrow> bool) \<Rightarrow> ('k \<times> 'v) list \<Rightarrow> bool" where
  "map_ordered lt m \<equiv> sorted_wrt lt (map fst m)"

lemma map_find_None_iff: "map_find lt k m = None \<longleftrightarrow> (\<forall>p \<in> set m. \<not> equivalent lt k (fst p))"
  by (induction m) (auto split: if_splits)

section \<open>The contract of a comparison\<close>

locale strict_weak_order =
  fixes lt :: "'a \<Rightarrow> 'a \<Rightarrow> bool"
  assumes irrefl: "\<not> lt x x"
    and trans: "lt x y \<Longrightarrow> lt y z \<Longrightarrow> lt x z"
    and neg_trans: "\<not> lt x y \<Longrightarrow> \<not> lt y z \<Longrightarrow> \<not> lt x z"
begin

lemma asym: "lt x y \<Longrightarrow> \<not> lt y x"
  using irrefl trans by blast

lemma equivalent_refl [simp]: "equivalent lt x x"
  by (simp add: equivalent_def irrefl)

lemma equivalent_sym: "equivalent lt x y \<Longrightarrow> equivalent lt y x"
  by (simp add: equivalent_def)

lemma equivalent_trans: "equivalent lt x y \<Longrightarrow> equivalent lt y z \<Longrightarrow> equivalent lt x z"
  using neg_trans by (auto simp: equivalent_def)

lemma lt_equivalent_left: "equivalent lt x y \<Longrightarrow> lt x z \<longleftrightarrow> lt y z"
  using neg_trans by (auto simp: equivalent_def)

lemma lt_equivalent_right: "equivalent lt x y \<Longrightarrow> lt z x \<longleftrightarrow> lt z y"
  using neg_trans by (auto simp: equivalent_def)

lemma set_insert_subset: "set (set_insert lt x xs) \<subseteq> insert x (set xs)"
  by (induction lt x xs rule: set_insert.induct) auto

lemma set_insert_keeps: "set xs \<subseteq> set (set_insert lt x xs)"
  by (induction lt x xs rule: set_insert.induct) auto

lemma set_insert_ordered: "set_ordered lt xs \<Longrightarrow> set_ordered lt (set_insert lt x xs)"
proof (induction xs)
  case (Cons y ys)
  show ?case
  proof (cases "lt x y")
    case True
    with Cons.prems show ?thesis by (auto intro: trans)
  next
    case False
    with Cons show ?thesis using set_insert_subset [of x ys] by auto
  qed
qed simp

lemma set_insert_has: "\<exists>y \<in> set (set_insert lt x xs). equivalent lt x y"
  by (induction xs) (auto simp: equivalent_def irrefl)

lemma set_insert_new:
  assumes "\<forall>y \<in> set xs. \<not> equivalent lt x y"
  shows "set (set_insert lt x xs) = insert x (set xs)" and
    "length (set_insert lt x xs) = Suc (length xs)"
  using assms by (induction xs) (auto simp: equivalent_def)

lemma set_insert_old:
  assumes "set_ordered lt xs" and "y \<in> set xs" and "equivalent lt x y"
  shows "set_insert lt x xs = xs"
  using assms
proof (induction xs)
  case (Cons z zs)
  show ?case
  proof (cases "y = z")
    case True
    with Cons.prems show ?thesis by (simp add: equivalent_def)
  next
    case False
    with Cons.prems have "lt z y" and "y \<in> set zs" by auto
    then have "lt z x" using Cons.prems(3) lt_equivalent_right by blast
    then show ?thesis using Cons asym \<open>y \<in> set zs\<close> by auto
  qed
qed simp

lemma set_ordered_equivalent_eq:
  assumes "set_ordered lt xs" and "x \<in> set xs" and "y \<in> set xs" and "equivalent lt x y"
  shows "x = y"
  using assms by (induction xs) (auto simp: equivalent_def)

lemma set_index_less: "\<exists>y \<in> set xs. equivalent lt x y \<Longrightarrow> set_index lt x xs < length xs"
  by (induction xs) auto

lemma set_index_nth: "\<exists>y \<in> set xs. equivalent lt x y \<Longrightarrow> equivalent lt x (xs ! set_index lt x xs)"
  by (induction xs) auto

lemma set_index_eq_iff:
  assumes "\<exists>z \<in> set xs. equivalent lt x z" and "\<exists>z \<in> set xs. equivalent lt y z"
  shows "set_index lt x xs = set_index lt y xs \<longleftrightarrow> equivalent lt x y"
proof
  assume "set_index lt x xs = set_index lt y xs"
  then show "equivalent lt x y"
    using set_index_nth [OF assms(1)] set_index_nth [OF assms(2)]
    by (metis equivalent_sym equivalent_trans)
next
  assume e: "equivalent lt x y"
  have "equivalent lt x z \<longleftrightarrow> equivalent lt y z" for z
    using e equivalent_sym equivalent_trans by blast
  then show "set_index lt x xs = set_index lt y xs"
    by (induction xs) auto
qed

lemma map_insert_fst: "map fst (map_insert lt k v m) = set_insert lt k (map fst m)"
  by (induction m rule: map_insert.induct [where ?a0.0 = lt and ?a1.0 = k and ?a2.0 = v]) auto

lemma map_assign_fst: "map fst (map_assign lt k v m) = set_insert lt k (map fst m)"
  by (induction m rule: map_assign.induct [where ?a0.0 = lt and ?a1.0 = k and ?a2.0 = v]) auto

lemma map_insert_ordered: "map_ordered lt m \<Longrightarrow> map_ordered lt (map_insert lt k v m)"
  by (simp add: map_insert_fst set_insert_ordered)

lemma map_assign_ordered: "map_ordered lt m \<Longrightarrow> map_ordered lt (map_assign lt k v m)"
  by (simp add: map_assign_fst set_insert_ordered)

lemma map_erase_ordered: "map_ordered lt m \<Longrightarrow> map_ordered lt (map_erase lt k m)"
  by (induction m) (auto simp: map_erase_def)

lemma map_find_assign:
  assumes "map_ordered lt m"
  shows "map_find lt k (map_assign lt k' v m)
     = (if equivalent lt k k' then Some v else map_find lt k m)"
  using assms
proof (induction m)
  case (Cons p m)
  obtain a b where p: "p = (a, b)" by (cases p)
  show ?case
  proof (cases "equivalent lt k' a")
    case True
    then have "equivalent lt k a \<longleftrightarrow> equivalent lt k k'"
      using equivalent_sym equivalent_trans by blast
    with True p show ?thesis by (auto simp: equivalent_def)
  next
    case False
    then consider "lt k' a" | "lt a k'" "\<not> lt k' a" by (auto simp: equivalent_def)
    then show ?thesis
    proof cases
      case 1
      then show ?thesis using p by auto
    next
      case 2
      have "\<not> (equivalent lt k k' \<and> equivalent lt k a)"
        using False equivalent_sym equivalent_trans by blast
      with 2 Cons p show ?thesis by auto
    qed
  qed
qed simp

lemma map_find_erase:
  "map_find lt k (map_erase lt k' m) = (if equivalent lt k k' then None else map_find lt k m)"
proof (induction m)
  case (Cons p m)
  obtain a b where p: "p = (a, b)" by (cases p)
  have "equivalent lt k k' \<Longrightarrow> equivalent lt k a \<longleftrightarrow> equivalent lt k' a"
    using equivalent_sym equivalent_trans by blast
  moreover have "equivalent lt k a \<Longrightarrow> equivalent lt k' a \<Longrightarrow> equivalent lt k k'"
    using equivalent_sym equivalent_trans by blast
  ultimately show ?case using Cons p by (auto simp: map_erase_def)
qed (simp add: map_erase_def)

lemma map_find_insert:
  assumes "map_ordered lt m"
  shows "map_find lt k (map_insert lt k' v m)
     = (if equivalent lt k k' \<and> map_find lt k m = None then Some v else map_find lt k m)"
  using assms
proof (induction m)
  case (Cons p m)
  obtain a b where p: "p = (a, b)" by (cases p)
  consider "lt k' a" | "lt a k'" "\<not> lt k' a" | "equivalent lt k' a" by (auto simp: equivalent_def)
  then show ?case
  proof cases
    case 1
    then have "\<not> (equivalent lt k k' \<and> equivalent lt k a)"
      using equivalent_sym equivalent_trans by (metis equivalent_def)
    moreover have "equivalent lt k k' \<Longrightarrow> map_find lt k m = None"
    proof -
      assume "equivalent lt k k'"
      with 1 have "lt k a" using lt_equivalent_left by blast
      then have "\<forall>q \<in> set m. lt k (fst q)" using Cons.prems p trans by auto
      then show "map_find lt k m = None" by (induction m) (auto simp: equivalent_def)
    qed
    ultimately show ?thesis using 1 p by auto
  next
    case 2
    then have "\<not> (equivalent lt k k' \<and> equivalent lt k a)"
      using equivalent_sym equivalent_trans by (metis equivalent_def)
    with 2 Cons p show ?thesis by auto
  next
    case 3
    then have "equivalent lt k k' \<longleftrightarrow> equivalent lt k a"
      using equivalent_sym equivalent_trans by blast
    with 3 p show ?thesis by (auto simp: equivalent_def)
  qed
qed simp

lemma map_insert_append:
  "\<forall>p \<in> set m. lt (fst p) k \<Longrightarrow> map_insert lt k v m = m @ [(k, v)]"
proof (induction m)
  case (Cons p m)
  then show ?case using asym by (cases p) auto
qed simp

text \<open>Inserting the elements of an ordered map one after the other, with keys changed to
  equivalent ones, gives these elements.\<close>

lemma fold_map_insert_ordered:
  assumes "map_ordered lt (m @ n)" and "\<And>k. equivalent lt (f k) k"
  shows "fold (\<lambda>p. map_insert lt (f (fst p)) (snd p)) n (map (\<lambda>p. (f (fst p), snd p)) m)
    = map (\<lambda>p. (f (fst p), snd p)) (m @ n)"
  using assms(1)
proof (induction n arbitrary: m)
  case (Cons p n)
  have "lt (f (fst q)) (f (fst p))" if "q \<in> set m" for q
  proof -
    have "lt (fst q) (fst p)" using Cons.prems that by (simp add: sorted_wrt_append)
    then show ?thesis using assms(2) lt_equivalent_left lt_equivalent_right by metis
  qed
  then have "map_insert lt (f (fst p)) (snd p) (map (\<lambda>p. (f (fst p), snd p)) m)
      = map (\<lambda>p. (f (fst p), snd p)) (m @ [p])"
    by (subst map_insert_append) auto
  then show ?case using Cons.IH [of "m @ [p]"] Cons.prems by simp
qed simp

lemma fold_set_insert_ordered: "set_ordered lt xs \<Longrightarrow> set_ordered lt (fold (set_insert lt) ys xs)"
  by (induction ys arbitrary: xs) (auto intro: set_insert_ordered)

lemma fold_set_insert_keeps: "set xs \<subseteq> set (fold (set_insert lt) ys xs)"
proof (induction ys arbitrary: xs)
  case (Cons y ys)
  then show ?case using set_insert_keeps [of xs y] by fastforce
qed simp

lemma fold_set_insert_has: "y \<in> set ys \<Longrightarrow> \<exists>z \<in> set (fold (set_insert lt) ys xs). equivalent lt y z"
proof (induction ys arbitrary: xs)
  case (Cons x ys)
  show ?case
  proof (cases "y = x")
    case True
    obtain z where "z \<in> set (set_insert lt x xs)" and "equivalent lt x z" using set_insert_has by blast
    then show ?thesis using True fold_set_insert_keeps [of "set_insert lt x xs" ys] by auto
  next
    case False
    then show ?thesis using Cons by simp
  qed
qed simp

lemma multimap_insert_mset:
  "set (multimap_insert lt k v m) = insert (k, v) (set m)"
  by (induction m rule: multimap_insert.induct [where ?a0.0 = lt and ?a1.0 = k and ?a2.0 = v]) auto

text \<open>Values under one key keep the order in which they were inserted.\<close>

lemma equal_range_insert:
  assumes "sorted_wrt (\<lambda>x y. \<not> lt y x) (map fst m)"
  shows "equal_range lt k (multimap_insert lt k' v m)
    = equal_range lt k m @ (if equivalent lt k k' then [v] else [])"
  using assms
proof (induction m)
  case (Cons p m)
  obtain a b where p: "p = (a, b)" by (cases p)
  show ?case
  proof (cases "lt k' a")
    case True
    have "equal_range lt k (p # m) = []" if "equivalent lt k k'"
    proof -
      have "lt k a" using True that lt_equivalent_left by blast
      then have "\<forall>q \<in> set (p # m). lt k (fst q)"
        using Cons.prems p neg_trans by auto
      then show ?thesis by (auto simp: equal_range_def equivalent_def filter_empty_conv)
    qed
    then show ?thesis using True p by (auto simp: equal_range_def)
  next
    case False
    then show ?thesis using Cons p by (auto simp: equal_range_def)
  qed
qed (simp add: equal_range_def)

lemma multimap_insert_ordered:
  assumes "sorted_wrt (\<lambda>x y. \<not> lt y x) (map fst m)"
  shows "sorted_wrt (\<lambda>x y. \<not> lt y x) (map fst (multimap_insert lt k v m))"
  using assms
proof (induction m)
  case (Cons p m)
  obtain a b where p: "p = (a, b)" by (cases p)
  show ?case
  proof (cases "lt k a")
    case True
    then have "\<not> lt x k" if "\<not> lt x a" for x using that asym neg_trans by blast
    then show ?thesis using True Cons.prems p by (simp add: asym)
  next
    case False
    then show ?thesis using Cons p by (simp add: multimap_insert_mset)
  qed
qed simp

end

text \<open>A comparison that compares the images of a function into a linear order.\<close>

locale keyed_order =
  fixes lt :: "'a \<Rightarrow> 'a \<Rightarrow> bool" and key :: "'a \<Rightarrow> 'k :: linorder"
  assumes lt_key: "lt x y \<longleftrightarrow> key x < key y"
begin

lemma equivalent_key: "equivalent lt x y \<longleftrightarrow> key x = key y"
  by (auto simp: equivalent_def lt_key)

end

sublocale keyed_order \<subseteq> strict_weak_order lt
  by unfold_locales (auto simp: lt_key)

interpretation lin: keyed_order "(<) :: 'a::linorder \<Rightarrow> 'a \<Rightarrow> bool" "\<lambda>x. x"
  by unfold_locales simp

lemma set_map_assign_subset: "set (map_assign lt k v m) \<subseteq> insert (k, v) (set m) \<union> {(k', v) |k' v'. (k', v') \<in> set m \<and> equivalent lt k k'}"
  by (induction lt k v m rule: map_assign.induct) (auto simp: equivalent_def)

lemma set_map_insert_subset: "set (map_insert lt k v m) \<subseteq> insert (k, v) (set m)"
  by (induction lt k v m rule: map_insert.induct) auto

lemma map_find_member: "map_find (<) (k :: 'k :: linorder) m = Some v \<Longrightarrow> (k, v) \<in> set m"
  by (induction m) (auto simp: lin.equivalent_key split: if_splits)

lemma map_assign_again: "map_assign (<) (k :: 'k :: linorder) v (map_assign (<) k v' m) = map_assign (<) k v m"
  by (induction m) auto

lemma map_insert_new: "map_find (<) (k :: 'k :: linorder) m = None \<Longrightarrow> map_insert (<) k v m = map_assign (<) k v m"
  by (induction m) (auto simp: equivalent_def split: if_splits)

section \<open>The contract of a keyed store\<close>

locale dictionary =
  fixes empty :: "'m"
    and update :: "'k \<Rightarrow> 'v \<Rightarrow> 'm \<Rightarrow> 'm"
    and delete :: "'k \<Rightarrow> 'm \<Rightarrow> 'm"
    and lookup :: "'k \<Rightarrow> 'm \<Rightarrow> 'v option"
    and invar :: "'m \<Rightarrow> bool"
  assumes invar_empty: "invar empty"
    and invar_update: "invar m \<Longrightarrow> invar (update k v m)"
    and invar_delete: "invar m \<Longrightarrow> invar (delete k m)"
    and lookup_empty: "lookup k empty = None"
    and lookup_update: "invar m \<Longrightarrow> lookup k (update k' v m) = (if k = k' then Some v else lookup k m)"
    and lookup_delete: "invar m \<Longrightarrow> lookup k (delete k' m) = (if k = k' then None else lookup k m)"
begin

text \<open>What a sequence of writes leaves under a key: the last write to it.\<close>

lemma lookup_fold_update:
  assumes "invar m"
  shows "lookup k (fold (\<lambda>(k, v). update k v) kvs m)
    = (case map_of (rev kvs) k of None \<Rightarrow> lookup k m | Some v \<Rightarrow> Some v)"
  using assms
proof (induction kvs arbitrary: m)
  case (Cons p kvs)
  then show ?case
    by (cases p) (auto simp: invar_update lookup_update map_add_def map_of_append
        split: option.splits)
qed simp

lemma lookup_delete_update: "invar m \<Longrightarrow> lookup k (delete k (update k v m)) = None"
  by (simp add: invar_update lookup_delete)

end

interpretation std_map: dictionary "[] :: ('k::linorder \<times> 'v) list" "map_assign (<)" "map_erase (<)"
    "map_find (<)" "map_ordered (<)"
  by unfold_locales
    (simp_all add: lin.map_assign_ordered lin.map_erase_ordered lin.map_find_assign
      lin.map_find_erase lin.equivalent_key)

end
