(* ===== verification/Http_Message.thy ===== *)
theory Http_Message
  imports Cxx_Container Json_Pointer
begin

text \<open>
  HTTP messages: header fields and the request URI (\<^verbatim>\<open>includes/nghttp2/asio_http2.h\<close>), the request
  of a stream (\<^verbatim>\<open>asio_server_request\<close>), and the view of a request that the matching works on
  (\<^verbatim>\<open>H2Server_Request_Message\<close>) with its lazily parsed JSON payload and its memo of rule results.
\<close>

section \<open>Requests\<close>

record header_value =
  hv_value :: string
  hv_sensitive :: bool

type_synonym header_map = "(string \<times> header_value) list"

record uri_ref =
  uri_scheme :: string
  uri_host :: string
  uri_path :: string
  uri_raw_path :: string
  uri_raw_query :: string
  uri_fragment :: string

record asio_server_request =
  req_header :: header_map
  req_method :: string
  req_uri :: uri_ref
  req_header_buffer_size :: nat
  req_payload :: string

definition empty_uri :: uri_ref where
  "empty_uri = \<lparr>uri_scheme = [], uri_host = [], uri_path = [], uri_raw_path = [],
     uri_raw_query = [], uri_fragment = []\<rparr>"

definition asio_server_request_init :: asio_server_request where
  "asio_server_request_init = \<lparr>req_header = [], req_method = [], req_uri = empty_uri,
     req_header_buffer_size = 0, req_payload = []\<rparr>"

abbreviation header_emplace :: "string \<Rightarrow> header_value \<Rightarrow> header_map \<Rightarrow> header_map" where
  "header_emplace \<equiv> multimap_insert (<)"

definition update_header_buffer_size :: "nat \<Rightarrow> asio_server_request \<Rightarrow> asio_server_request" where
  "update_header_buffer_size len r = r\<lparr>req_header_buffer_size := req_header_buffer_size r + len\<rparr>"

section \<open>The message seen by the matching\<close>

text \<open>\<^verbatim>\<open>json_payload_string\<close> is a null pointer (\<^term>\<open>None\<close>) once the payload is parsed.\<close>

record H2Server_Request_Message =
  msg_headers :: "(string \<times> string) list"
  json_payload :: json
  json_payload_string :: "string option"
  raw_payload :: string
  match_result :: "nat \<rightharpoonup> bool"

definition H2Server_Request_Message_init :: "asio_server_request \<Rightarrow> H2Server_Request_Message" where
  "H2Server_Request_Message_init req =
     (let header_val = uri_raw_path (req_uri req)
            @ (if uri_raw_query (req_uri req) \<noteq> [] then ''?'' @ uri_raw_query (req_uri req) else []);
          h0 = multimap_insert (<) '':path'' header_val [];
          h1 = multimap_insert (<) '':method'' (req_method req) h0;
          h2 = multimap_insert (<) '':scheme'' (uri_scheme (req_uri req)) h1;
          h3 = multimap_insert (<) '':authority'' (uri_host (req_uri req)) h2;
          hs = fold (\<lambda>hdr. multimap_insert (<) (fst hdr) (hv_value (snd hdr))) (req_header req) h3
      in \<lparr>msg_headers = hs, json_payload = JNull, json_payload_string = Some (req_payload req),
          raw_payload = req_payload req, match_result = Map.empty\<rparr>)"

definition decode_json_if_not_yet :: "lib \<Rightarrow> H2Server_Request_Message \<Rightarrow> H2Server_Request_Message" where
  "decode_json_if_not_yet L msg =
     (case json_payload_string msg of
        None \<Rightarrow> msg
      | Some s \<Rightarrow> msg\<lparr>json_payload := rj_parse L (c_str s), json_payload_string := None\<rparr>)"

section \<open>Lemmas\<close>

text \<open>The document a message stands for, whether it has been parsed yet or not, and the invariant
  that ties the two.\<close>

definition message_doc :: "lib \<Rightarrow> H2Server_Request_Message \<Rightarrow> json" where
  "message_doc L msg = rj_parse L (c_str (raw_payload msg))"

definition message_wf :: "lib \<Rightarrow> H2Server_Request_Message \<Rightarrow> bool" where
  "message_wf L msg \<longleftrightarrow>
     (case json_payload_string msg of
        None \<Rightarrow> json_payload msg = message_doc L msg
      | Some s \<Rightarrow> s = raw_payload msg)"

lemma message_init_wf: "message_wf L (H2Server_Request_Message_init req)"
  by (simp add: message_wf_def H2Server_Request_Message_init_def Let_def)

lemma decode_wf: "message_wf L msg \<Longrightarrow> message_wf L (decode_json_if_not_yet L msg)"
  by (auto simp: message_wf_def decode_json_if_not_yet_def message_doc_def split: option.splits)

lemma decode_doc [simp]:
  "message_wf L msg \<Longrightarrow> json_payload (decode_json_if_not_yet L msg) = message_doc L msg"
  by (auto simp: message_wf_def decode_json_if_not_yet_def message_doc_def split: option.splits)

lemma decode_frame [simp]:
  "msg_headers (decode_json_if_not_yet L msg) = msg_headers msg"
  "raw_payload (decode_json_if_not_yet L msg) = raw_payload msg"
  "match_result (decode_json_if_not_yet L msg) = match_result msg"
  by (auto simp: decode_json_if_not_yet_def split: option.splits)

lemma decode_message_doc [simp]: "message_doc L (decode_json_if_not_yet L msg) = message_doc L msg"
  by (simp add: message_doc_def)

lemma decode_idem: "decode_json_if_not_yet L (decode_json_if_not_yet L msg) = decode_json_if_not_yet L msg"
  by (auto simp: decode_json_if_not_yet_def split: option.splits)

abbreviation multimap_ordered :: "('k::linorder \<times> 'v) list \<Rightarrow> bool" where
  "multimap_ordered m \<equiv> sorted_wrt (\<lambda>x y. \<not> y < x) (map fst m)"

lemma fold_multimap_ordered:
  "multimap_ordered m \<Longrightarrow> multimap_ordered (fold (\<lambda>h. multimap_insert (<) (f h) (g h)) hs m)"
  by (induction hs arbitrary: m) (auto intro: lin.multimap_insert_ordered)

lemma equal_range_fold:
  assumes "multimap_ordered m"
  shows "equal_range (<) k (fold (\<lambda>h. multimap_insert (<) (f h) (g h)) hs m)
    = equal_range (<) k m @ map g (filter (\<lambda>h. f h = k) hs)"
  using assms
proof (induction hs arbitrary: m)
  case (Cons h hs)
  then show ?case
    by (auto simp: lin.equal_range_insert lin.multimap_insert_ordered lin.equivalent_key)
qed simp

lemma equal_range_Nil [simp]: "equal_range lt k [] = []"
  by (simp add: equal_range_def)

lemma multimap_ordered_insert_Nil [simp]: "multimap_ordered (multimap_insert (<) k v [])"
  by simp

text \<open>The four pseudo headers are in front of what the request carries under the same name; every
  header field of the request is present, in the order of the request.\<close>

lemma message_init_header:
  "equal_range (<) name (msg_headers (H2Server_Request_Message_init req))
   = (if name = '':path'' then [uri_raw_path (req_uri req)
        @ (if uri_raw_query (req_uri req) \<noteq> [] then ''?'' @ uri_raw_query (req_uri req) else [])]
      else if name = '':method'' then [req_method req]
      else if name = '':scheme'' then [uri_scheme (req_uri req)]
      else if name = '':authority'' then [uri_host (req_uri req)] else [])
     @ map (\<lambda>h. hv_value (snd h)) (filter (\<lambda>h. fst h = name) (req_header req))"
proof -
  note ins = lin.equal_range_insert lin.multimap_insert_ordered lin.equivalent_key
  show ?thesis
    unfolding H2Server_Request_Message_init_def Let_def
    by (simp add: equal_range_fold ins del: multimap_insert.simps)
qed

end
