(* ===== verification/Match_Rule.thy ===== *)
theory Match_Rule
  imports Http_Message
begin

text \<open>
  Match rules and requests (\<^verbatim>\<open>H2Server_Request.h\<close>): the test a rule performs on a text, on a JSON
  document, on a request message (with the memo of earlier results) and on response headers; the
  order of rules and of requests that the containers use; the rules of a request and their
  conjunction.
\<close>

section \<open>Case-insensitive order of header names\<close>

definition to_lower :: "char \<Rightarrow> char" where
  "to_lower c = (if 65 \<le> (of_char c :: nat) \<and> (of_char c :: nat) \<le> 90
     then char_of ((of_char c :: nat) + 32) else c)"

definition nocase_compare :: "char \<Rightarrow> char \<Rightarrow> bool" where
  "nocase_compare c1 c2 \<longleftrightarrow> to_lower c1 < to_lower c2"

fun lexicographical_compare :: "('a \<Rightarrow> 'a \<Rightarrow> bool) \<Rightarrow> 'a list \<Rightarrow> 'a list \<Rightarrow> bool" where
  "lexicographical_compare lt xs [] = False"
| "lexicographical_compare lt [] (y # ys) = True"
| "lexicographical_compare lt (x # xs) (y # ys) =
     (if lt x y then True else if lt y x then False else lexicographical_compare lt xs ys)"

definition ci_less :: "string \<Rightarrow> string \<Rightarrow> bool" where
  "ci_less s1 s2 = lexicographical_compare nocase_compare s1 s2"

section \<open>Rules\<close>

datatype Match_Type = EQUALS_TO | START_WITH | END_WITH | CONTAINS | REGEX_MATCH

text \<open>\<^verbatim>\<open>reg_exp\<close> is \<^term>\<open>None\<close> for a default constructed \<^verbatim>\<open>std::regex\<close>, which matches nothing.\<close>

record Match_Rule =
  match_type :: Match_Type
  header_name :: string
  json_pointer :: string
  object :: string
  unique_id :: nat
  reg_exp :: "string option"

text \<open>\<^verbatim>\<open>operator[]\<close> of the map of names: an unknown name gives the first enumerator.\<close>

definition string_to_match_type :: "string \<Rightarrow> Match_Type" where
  "string_to_match_type s =
     (if s = ''EqualsTo'' then EQUALS_TO else if s = ''StartsWith'' then START_WITH
      else if s = ''EndsWith'' then END_WITH else if s = ''Contains'' then CONTAINS
      else if s = ''RegexMatch'' then REGEX_MATCH else EQUALS_TO)"

definition compile_regex :: "lib \<Rightarrow> Match_Type \<Rightarrow> string \<Rightarrow> string option" where
  "compile_regex L t obj = (if t = REGEX_MATCH \<and> re_valid L obj then Some obj else None)"

definition Match_Rule_of_header :: "lib \<Rightarrow> nat \<Rightarrow> Schema_Header_Match \<Rightarrow> Match_Rule" where
  "Match_Rule_of_header L unset_id m =
     \<lparr>match_type = string_to_match_type (hm_matchType m), header_name = hm_header m,
      json_pointer = [], object = hm_input m, unique_id = unset_id,
      reg_exp = compile_regex L (string_to_match_type (hm_matchType m)) (hm_input m)\<rparr>"

definition Match_Rule_of_payload :: "lib \<Rightarrow> nat \<Rightarrow> Schema_Payload_Match \<Rightarrow> Match_Rule" where
  "Match_Rule_of_payload L unset_id m =
     \<lparr>match_type = string_to_match_type (pm_matchType m), header_name = [],
      json_pointer = pm_jsonPointer m, object = pm_input m, unique_id = unset_id,
      reg_exp = compile_regex L (string_to_match_type (pm_matchType m)) (pm_input m)\<rparr>"

definition match_verb :: "lib \<Rightarrow> Match_Rule \<Rightarrow> string \<Rightarrow> Match_Type \<Rightarrow> string \<Rightarrow> bool" where
  "match_verb L rule subject verb obj =
     (case verb of
        EQUALS_TO \<Rightarrow> subject = obj
      | START_WITH \<Rightarrow> str_find subject obj 0 = Some 0
      | END_WITH \<Rightarrow> length obj \<le> length subject
                    \<and> substr subject (length subject - length obj) (Some (length obj)) = obj
      | CONTAINS \<Rightarrow> str_find subject obj 0 \<noteq> None
      | REGEX_MATCH \<Rightarrow> (case reg_exp rule of None \<Rightarrow> False | Some r \<Rightarrow> re_match L r subject))"

definition match_subject :: "lib \<Rightarrow> Match_Rule \<Rightarrow> string \<Rightarrow> bool" where
  "match_subject L rule subject = match_verb L rule subject (match_type rule) (object rule)"

definition match_json_doc :: "lib \<Rightarrow> Match_Rule \<Rightarrow> json \<Rightarrow> bool result" where
  "match_json_doc L rule d =
     rbind (getValueFromJsonPtr L d (json_pointer rule))
       (\<lambda>v. Inr (match_verb L rule v (match_type rule) (object rule)))"

fun match_any :: "lib \<Rightarrow> Match_Rule \<Rightarrow> string list \<Rightarrow> bool" where
  "match_any L rule [] = False"
| "match_any L rule (v # vs) = (if match_subject L rule v then True else match_any L rule vs)"

text \<open>The test on a request message, remembered under the rule's id.\<close>

definition match_request ::
    "lib \<Rightarrow> Match_Rule \<Rightarrow> H2Server_Request_Message \<Rightarrow> (bool \<times> H2Server_Request_Message) result" where
  "match_request L rule msg =
     (case match_result msg (unique_id rule) of
        Some b \<Rightarrow> Inr (b, msg)
      | None \<Rightarrow>
          let remember = (\<lambda>matched m. (matched, m\<lparr>match_result := (match_result m)(unique_id rule \<mapsto> matched)\<rparr>))
          in if header_name rule \<noteq> []
             then Inr (remember (match_any L rule (equal_range (<) (header_name rule) (msg_headers msg))) msg)
             else if json_pointer rule \<noteq> []
             then (let m = decode_json_if_not_yet L msg
                   in rbind (match_json_doc L rule (json_payload m)) (\<lambda>b. Inr (remember b m)))
             else Inr (remember (match_subject L rule (raw_payload msg)) msg))"

text \<open>The tests on response headers, one header frame or several.\<close>

definition match_header :: "lib \<Rightarrow> Match_Rule \<Rightarrow> (string \<times> string) list \<Rightarrow> bool" where
  "match_header L rule response_headers =
     (case map_find ci_less (header_name rule) response_headers of
        Some v \<Rightarrow> match_verb L rule v (match_type rule) (object rule)
      | None \<Rightarrow> False)"

fun match_header_frames :: "lib \<Rightarrow> Match_Rule \<Rightarrow> (string \<times> string) list list \<Rightarrow> bool" where
  "match_header_frames L rule [] = False"
| "match_header_frames L rule (frame # frames) =
     (case map_find ci_less (header_name rule) frame of
        Some v \<Rightarrow> match_verb L rule v (match_type rule) (object rule)
      | None \<Rightarrow> match_header_frames L rule frames)"

definition match_response :: "lib \<Rightarrow> Match_Rule \<Rightarrow> (string \<times> string) list \<Rightarrow> json \<Rightarrow> bool result" where
  "match_response L rule response_headers d =
     (if header_name rule \<noteq> [] then Inr (match_header L rule response_headers)
      else match_json_doc L rule d)"

definition match_response_frames ::
    "lib \<Rightarrow> Match_Rule \<Rightarrow> (string \<times> string) list list \<Rightarrow> json \<Rightarrow> bool result" where
  "match_response_frames L rule response_headers d =
     (if header_name rule \<noteq> [] then Inr (match_header_frames L rule response_headers)
      else match_json_doc L rule d)"

section \<open>The order of rules\<close>

fun match_type_code :: "Match_Type \<Rightarrow> nat" where
  "match_type_code EQUALS_TO = 0"
| "match_type_code START_WITH = 1"
| "match_type_code END_WITH = 2"
| "match_type_code CONTAINS = 3"
| "match_type_code REGEX_MATCH = 4"

definition rule_text :: "Match_Rule \<Rightarrow> string" where
  "rule_text r = nat_dec (match_type_code (match_type r)) @ header_name r @ json_pointer r @ object r"

definition rule_less :: "Match_Rule \<Rightarrow> Match_Rule \<Rightarrow> bool" where
  "rule_less l rhs =
     (if header_name l \<noteq> [] \<and> header_name rhs = [] then False
      else if header_name l = [] \<and> header_name rhs \<noteq> [] then True
      else if match_type l = EQUALS_TO \<and> match_type rhs \<noteq> EQUALS_TO then False
      else if match_type rhs = EQUALS_TO \<and> match_type l \<noteq> EQUALS_TO then True
      else rule_text l < rule_text rhs)"

section \<open>Requests\<close>

record H2Server_Request =
  match_rules :: "Match_Rule list"
  rq_name :: string
  request_index :: nat

definition H2Server_Request_init :: "lib \<Rightarrow> nat \<Rightarrow> Schema_Request_Match \<Rightarrow> nat \<Rightarrow> H2Server_Request" where
  "H2Server_Request_init L unset_id rm index =
     (let rules1 = fold (\<lambda>m. set_insert rule_less (Match_Rule_of_header L unset_id m)) (header_match rm) [];
          rules2 = fold (\<lambda>m. set_insert rule_less (Match_Rule_of_payload L unset_id m)) (payload_match rm) rules1
      in \<lparr>match_rules = rules2, rq_name = rm_name rm, request_index = index\<rparr>)"

fun match_all :: "lib \<Rightarrow> Match_Rule list \<Rightarrow> H2Server_Request_Message
    \<Rightarrow> (bool \<times> H2Server_Request_Message) result" where
  "match_all L [] msg = Inr (True, msg)"
| "match_all L (r # rs) msg =
     rbind (match_request L r msg) (\<lambda>(b, m). if \<not> b then Inr (False, m) else match_all L rs m)"

text \<open>The rules are visited in reverse order.\<close>

definition request_match :: "lib \<Rightarrow> H2Server_Request \<Rightarrow> H2Server_Request_Message
    \<Rightarrow> (bool \<times> H2Server_Request_Message) result" where
  "request_match L q msg = match_all L (rev (match_rules q)) msg"

fun rules_less :: "Match_Rule list \<Rightarrow> Match_Rule list \<Rightarrow> bool" where
  "rules_less (m # ms) (n # ns) =
     (if rule_less m n then True else if rule_less n m then False else rules_less ms ns)"
| "rules_less _ _ = False"

definition request_less :: "H2Server_Request \<Rightarrow> H2Server_Request \<Rightarrow> bool" where
  "request_less l rhs =
     (if length (match_rules l) < length (match_rules rhs) then True
      else if length (match_rules rhs) < length (match_rules l) then False
      else rules_less (rev (match_rules l)) (rev (match_rules rhs)))"

section \<open>The comparisons meet their contract\<close>

lemma lexicographical_compare_map:
  "lexicographical_compare nocase_compare s1 s2 \<longleftrightarrow> map to_lower s1 < map to_lower s2"
proof (induction s1 s2 rule: list_induct2')
  case (4 x xs y ys)
  then show ?case using less_linear [of "to_lower x" "to_lower y"] by (auto simp: nocase_compare_def)
qed auto

interpretation ci: keyed_order ci_less "map to_lower"
  by unfold_locales (simp add: ci_less_def lexicographical_compare_map)

definition rule_key :: "Match_Rule \<Rightarrow> bool \<times> bool \<times> string" where
  "rule_key r = (header_name r \<noteq> [], match_type r = EQUALS_TO, rule_text r)"

lemma rule_less_key: "rule_less l r \<longleftrightarrow> rule_key l < rule_key r"
  by (auto simp: rule_less_def rule_key_def less_prod_def)

interpretation ro: keyed_order rule_less rule_key
  by unfold_locales (rule rule_less_key)

definition request_key :: "H2Server_Request \<Rightarrow> nat \<times> (bool \<times> bool \<times> string) list" where
  "request_key q = (length (match_rules q), map rule_key (rev (match_rules q)))"

lemma rules_less_key:
  "length ms = length ns \<Longrightarrow> rules_less ms ns \<longleftrightarrow> map rule_key ms < map rule_key ns"
proof (induction ms ns rule: list_induct2)
  case (Cons x xs y ys)
  then show ?case using less_linear [of "rule_key x" "rule_key y"]
    by (auto simp: rule_less_key)
qed simp

lemma request_less_key: "request_less l r \<longleftrightarrow> request_key l < request_key r"
  using rules_less_key [of "rev (match_rules l)" "rev (match_rules r)"]
  by (auto simp: request_less_def request_key_def less_prod_def)

interpretation rq: keyed_order request_less request_key
  by unfold_locales (rule request_less_key)

section \<open>What a rule and a request mean\<close>

text \<open>The meaning of a verb, in terms of lists.\<close>

fun verb_holds :: "lib \<Rightarrow> string option \<Rightarrow> Match_Type \<Rightarrow> string \<Rightarrow> string \<Rightarrow> bool" where
  "verb_holds L re EQUALS_TO obj subject \<longleftrightarrow> subject = obj"
| "verb_holds L re START_WITH obj subject \<longleftrightarrow> prefix obj subject"
| "verb_holds L re END_WITH obj subject \<longleftrightarrow> suffix obj subject"
| "verb_holds L re CONTAINS obj subject \<longleftrightarrow> sublist obj subject"
| "verb_holds L re REGEX_MATCH obj subject \<longleftrightarrow> (\<exists>r. re = Some r \<and> re_match L r subject)"

lemma suffix_substr:
  "suffix obj s \<longleftrightarrow> length obj \<le> length s \<and> drop (length s - length obj) s = obj"
  by (auto simp: suffix_def) (metis append_take_drop_id)

lemma match_verb_holds: "match_verb L r s v obj = verb_holds L (reg_exp r) v obj s"
  by (cases v) (auto simp: match_verb_def substr_def suffix_substr str_find_zero_iff
      str_find_sublist [symmetric] split: option.splits)

lemma match_any_iff: "match_any L r vs \<longleftrightarrow> (\<exists>v \<in> set vs. match_subject L r v)"
  by (induction vs) auto

text \<open>The result a rule has on a message, with no memo.\<close>

definition rule_value :: "lib \<Rightarrow> H2Server_Request_Message \<Rightarrow> Match_Rule \<Rightarrow> bool result" where
  "rule_value L msg r =
     (if header_name r \<noteq> [] then
        Inr (\<exists>v \<in> set (equal_range (<) (header_name r) (msg_headers msg)). match_subject L r v)
      else if json_pointer r \<noteq> [] then match_json_doc L r (message_doc L msg)
      else Inr (match_subject L r (raw_payload msg)))"

definition request_holds :: "lib \<Rightarrow> H2Server_Request_Message \<Rightarrow> H2Server_Request \<Rightarrow> bool" where
  "request_holds L msg q \<longleftrightarrow> (\<forall>r \<in> set (match_rules q). rule_value L msg r = Inr True)"

text \<open>Two messages with the same headers and payload.\<close>

definition same_request :: "H2Server_Request_Message \<Rightarrow> H2Server_Request_Message \<Rightarrow> bool" where
  "same_request m m' \<longleftrightarrow> msg_headers m = msg_headers m' \<and> raw_payload m = raw_payload m'"

lemma same_request_refl [simp]: "same_request m m"
  by (simp add: same_request_def)

lemma same_request_trans: "same_request m n \<Longrightarrow> same_request n k \<Longrightarrow> same_request m k"
  by (simp add: same_request_def)

lemma rule_value_same: "same_request m m' \<Longrightarrow> rule_value L m' r = rule_value L m r"
  by (simp add: same_request_def rule_value_def message_doc_def)

lemma request_holds_same: "same_request m m' \<Longrightarrow> request_holds L m' q = request_holds L m q"
  by (simp add: request_holds_def rule_value_same)

text \<open>What a rule tests, apart from its id; the memo is sound for a set of rules when what is
  stored under the id of one of them is its value. Ids are faithful when rules that share an id
  test the same thing.\<close>

definition rule_test :: "Match_Rule \<Rightarrow> Match_Type \<times> string \<times> string \<times> string \<times> string option" where
  "rule_test r = (match_type r, header_name r, json_pointer r, object r, reg_exp r)"

definition memo_sound :: "lib \<Rightarrow> Match_Rule set \<Rightarrow> H2Server_Request_Message \<Rightarrow> bool" where
  "memo_sound L R msg \<longleftrightarrow>
     (\<forall>r \<in> R. \<forall>b. match_result msg (unique_id r) = Some b \<longrightarrow> rule_value L msg r = Inr b)"

definition ids_faithful :: "Match_Rule set \<Rightarrow> bool" where
  "ids_faithful R \<longleftrightarrow> (\<forall>r \<in> R. \<forall>s \<in> R. unique_id r = unique_id s \<longrightarrow> rule_test r = rule_test s)"

lemma rule_value_test: "rule_test r = rule_test s \<Longrightarrow> rule_value L msg r = rule_value L msg s"
  by (simp add: rule_test_def rule_value_def match_subject_def match_json_doc_def match_verb_holds)

definition message_ok :: "lib \<Rightarrow> Match_Rule set \<Rightarrow> H2Server_Request_Message \<Rightarrow> bool" where
  "message_ok L R msg \<longleftrightarrow> message_wf L msg \<and> memo_sound L R msg"

lemma message_init_ok: "message_ok L R (H2Server_Request_Message_init req)"
  by (simp add: message_ok_def message_init_wf)
     (simp add: memo_sound_def H2Server_Request_Message_init_def Let_def)

lemma memo_sound_update:
  assumes "memo_sound L R m" and "ids_faithful R" and "r \<in> R" and "rule_value L m r = Inr b"
    and "same_request m m'" and "match_result m' = (match_result m)(unique_id r \<mapsto> b)"
  shows "memo_sound L R m'"
  unfolding memo_sound_def
proof (intro ballI allI impI)
  fix s c
  assume s: "s \<in> R" and c: "match_result m' (unique_id s) = Some c"
  show "rule_value L m' s = Inr c"
  proof (cases "unique_id s = unique_id r")
    case True
    with assms(2,3) s have "rule_test s = rule_test r" unfolding ids_faithful_def by blast
    then have "rule_value L m' s = rule_value L m r"
      using rule_value_same [OF assms(5)] rule_value_test by metis
    moreover have "c = b" using c True assms(6) by simp
    ultimately show ?thesis using assms(4) by simp
  next
    case False
    then have "match_result m (unique_id s) = Some c" using c assms(6) by simp
    then have "rule_value L m s = Inr c" using assms(1) s unfolding memo_sound_def by blast
    then show ?thesis using rule_value_same [OF assms(5)] by simp
  qed
qed

definition rule_base :: "lib \<Rightarrow> Match_Rule \<Rightarrow> H2Server_Request_Message \<Rightarrow> H2Server_Request_Message" where
  "rule_base L r msg = (if header_name r = [] \<and> json_pointer r \<noteq> []
     then decode_json_if_not_yet L msg else msg)"

lemma match_request_fresh:
  assumes "match_result msg (unique_id r) = None" and "message_wf L msg"
  shows "match_request L r msg = rbind (rule_value L msg r)
    (\<lambda>b. Inr (b, (rule_base L r msg)\<lparr>match_result := (match_result msg)(unique_id r \<mapsto> b)\<rparr>))"
proof (cases "header_name r = []")
  case False
  then show ?thesis using assms
    by (simp add: match_request_def rule_value_def rule_base_def match_any_iff)
next
  case h: True
  show ?thesis
  proof (cases "json_pointer r = []")
    case True
    then show ?thesis using assms h by (simp add: match_request_def rule_value_def rule_base_def)
  next
    case False
    then show ?thesis using assms h
      by (simp add: match_request_def rule_value_def rule_base_def Let_def)
  qed
qed

text \<open>Testing a rule through the memo gives the rule's value, and leaves a message in which that
  is still so.\<close>

lemma match_request_ok:
  assumes ok: "message_ok L R msg" and ids: "ids_faithful R" and r: "r \<in> R"
    and res: "match_request L r msg = Inr (b, msg')"
  shows "rule_value L msg r = Inr b" and "message_ok L R msg'" and "same_request msg msg'"
proof -
  have wf: "message_wf L msg" and snd: "memo_sound L R msg" using ok by (simp_all add: message_ok_def)
  have "rule_value L msg r = Inr b \<and> message_ok L R msg' \<and> same_request msg msg'"
  proof (cases "match_result msg (unique_id r)")
    case (Some c)
    then show ?thesis using res snd r ok by (auto simp: match_request_def memo_sound_def)
  next
    case None
    let ?base = "rule_base L r msg"
    have wfb: "message_wf L ?base" and same: "same_request msg ?base"
      using wf by (auto simp: rule_base_def decode_wf same_request_def)
    have v: "rule_value L msg r = Inr b"
      and m': "msg' = ?base\<lparr>match_result := (match_result msg)(unique_id r \<mapsto> b)\<rparr>"
      using res by (auto simp: match_request_fresh [OF None wf])
    have "message_wf L msg'" using wfb by (simp add: m' message_wf_def message_doc_def split: option.splits)
    moreover have s': "same_request msg msg'" using same by (simp add: m' same_request_def)
    moreover have "memo_sound L R msg'"
      by (rule memo_sound_update [OF snd ids r v s']) (simp add: m')
    ultimately show ?thesis using v by (simp add: message_ok_def)
  qed
  then show "rule_value L msg r = Inr b" and "message_ok L R msg'" and "same_request msg msg'"
    by simp_all
qed

lemma match_all_ok:
  assumes "message_ok L R msg" and "ids_faithful R" and "set rs \<subseteq> R"
    and "match_all L rs msg = Inr (b, msg')"
  shows "(b \<longleftrightarrow> (\<forall>r \<in> set rs. rule_value L msg r = Inr True)) \<and> message_ok L R msg' \<and> same_request msg msg'"
  using assms
proof (induction rs arbitrary: msg)
  case (Cons r rs)
  then obtain c m where c: "match_request L r msg = Inr (c, m)"
    and rest: "(if \<not> c then Inr (False, m) else match_all L rs m) = Inr (b, msg')" by auto
  have rR: "r \<in> R" using Cons.prems(3) by simp
  note step = match_request_ok [OF Cons.prems(1,2) rR c]
  show ?case
  proof (cases c)
    case False
    then show ?thesis using rest step by auto
  next
    case True
    then have "(b \<longleftrightarrow> (\<forall>r \<in> set rs. rule_value L m r = Inr True)) \<and> message_ok L R msg'
        \<and> same_request m msg'"
      using Cons.IH [OF step(2) Cons.prems(2)] Cons.prems(3) rest by simp
    then show ?thesis using step True same_request_trans rule_value_same [OF step(3)] by auto
  qed
qed simp

lemma request_match_ok:
  assumes "message_ok L R msg" and "ids_faithful R" and "set (match_rules q) \<subseteq> R"
    and "request_match L q msg = Inr (b, msg')"
  shows "b \<longleftrightarrow> request_holds L msg q" and "message_ok L R msg'" and "same_request msg msg'"
  using match_all_ok [OF assms(1,2), of "rev (match_rules q)"] assms(3,4)
  by (auto simp: request_match_def request_holds_def)

end
