(* ===== verification/Calendar.thy ===== *)
theory Calendar
  imports Maock_Prelude "HOL-Library.Signed_Division"
begin

text \<open>
  Calendar arithmetic. The first part is \<^verbatim>\<open>timegm.c\<close>: the two conversions from a broken-down UTC time
  to seconds since the epoch, on C integers (a signed overflow of an \<^verbatim>\<open>int\<close> expression is a fault).
  The second part is what the sources use of the C library: \<^verbatim>\<open>gmtime\<close>, and the IMF-fixdate
  layout that \<^verbatim>\<open>std::put_time\<close> prints for response arguments.
\<close>

section \<open>timegm.c\<close>

record tm =
  tm_sec :: int
  tm_min :: int
  tm_hour :: int
  tm_mday :: int
  tm_mon :: int
  tm_year :: int
  tm_wday :: int
  tm_yday :: int

definition count_leap_year :: "int \<Rightarrow> int" where
  "count_leap_year y0 = (let y = y0 - 1 in y sdiv 4 - y sdiv 100 + y sdiv 400)"

definition time_t_result :: "nat \<Rightarrow> int \<Rightarrow> int" where
  "time_t_result sizeof_time_t t =
     (if sizeof_time_t = 4 \<and> (t < - (2 ^ 31) \<or> 2 ^ 31 - 1 < t) then - 1 else t)"

definition nghttp2_timegm :: "nat \<Rightarrow> tm \<Rightarrow> int result" where
  "nghttp2_timegm sizeof_time_t tm =
     (if 11 < tm_mon tm then Inr (- 1)
      else rbind (c_int (tm_year tm + 1900)) (\<lambda>y.
           let num_leap_year = count_leap_year y - count_leap_year 1970
           in rbind (c_int (tm_year tm - 70)) (\<lambda>y70.
              rbind (c_int (y70 * 365)) (\<lambda>d0.
              rbind (c_int (d0 + num_leap_year)) (\<lambda>d1.
              rbind (c_int (d1 + tm_yday tm)) (\<lambda>days.
              rbind (c_int (tm_min tm * 60)) (\<lambda>m60.
                let t = (days * 24 + tm_hour tm) * 3600 + m60 + tm_sec tm
                in Inr (time_t_result sizeof_time_t t))))))))"

definition is_leap_year :: "int \<Rightarrow> bool" where
  "is_leap_year y \<longleftrightarrow> y smod 4 = 0 \<and> (y smod 100 \<noteq> 0 \<or> y smod 400 = 0)"

definition daysum :: "int list" where
  "daysum = [0, 31, 59, 90, 120, 151, 181, 212, 243, 273, 304, 334]"

text \<open>A negative month reads outside \<^verbatim>\<open>daysum\<close>.\<close>

definition nghttp2_timegm_without_yday :: "nat \<Rightarrow> tm \<Rightarrow> int result" where
  "nghttp2_timegm_without_yday sizeof_time_t tm =
     (if 11 < tm_mon tm then Inr (- 1)
      else rbind (c_int (tm_year tm + 1900)) (\<lambda>y.
           let num_leap_year = count_leap_year y - count_leap_year 1970
           in if tm_mon tm < 0 then Inl Out_Of_Bounds
              else rbind (c_int (tm_year tm - 70)) (\<lambda>y70.
              rbind (c_int (y70 * 365)) (\<lambda>d0.
              rbind (c_int (d0 + num_leap_year)) (\<lambda>d1.
              rbind (c_int (d1 + daysum ! nat (tm_mon tm))) (\<lambda>d2.
              rbind (c_int (d2 + tm_mday tm)) (\<lambda>d3.
              rbind (c_int (d3 - 1)) (\<lambda>d4.
              rbind (c_int (if 2 \<le> tm_mon tm \<and> is_leap_year y then d4 + 1 else d4)) (\<lambda>days.
              rbind (c_int (tm_min tm * 60)) (\<lambda>m60.
                let t = (days * 24 + tm_hour tm) * 3600 + m60 + tm_sec tm
                in Inr (time_t_result sizeof_time_t t)))))))))))"

section \<open>gmtime\<close>

definition leap :: "nat \<Rightarrow> bool" where
  "leap y \<longleftrightarrow> 4 dvd y \<and> (\<not> 100 dvd y \<or> 400 dvd y)"

definition year_length :: "nat \<Rightarrow> nat" where
  "year_length y = (if leap y then 366 else 365)"

lemma year_length_pos [simp]: "0 < year_length y"
  by (simp add: year_length_def)

function split_year :: "nat \<Rightarrow> nat \<Rightarrow> nat \<times> nat" where
  "split_year d y = (if d < year_length y then (y, d) else split_year (d - year_length y) (Suc y))"
  by pat_completeness auto
termination
proof (relation "measure fst", goal_cases)
  case (2 d y)
  then have "0 < year_length y" "year_length y \<le> d" by simp_all
  then have "d - year_length y < d" by arith
  then show ?case by simp
qed simp

declare split_year.simps [simp del]

fun split_month :: "nat \<Rightarrow> nat list \<Rightarrow> nat \<Rightarrow> nat \<times> nat" where
  "split_month d [] m = (m, d)"
| "split_month d (l # ls) m = (if d < l then (m, d) else split_month (d - l) ls (Suc m))"

definition month_lengths :: "nat \<Rightarrow> nat list" where
  "month_lengths y = [31, if leap y then 29 else 28, 31, 30, 31, 30, 31, 31, 30, 31, 30, 31]"

definition gmtime :: "nat \<Rightarrow> tm" where
  "gmtime t =
     (let days = t div 86400; secs = t mod 86400;
          (y, yd) = split_year days 1970;
          (m, md) = split_month yd (month_lengths y) 0
      in \<lparr>tm_sec = int (secs mod 60), tm_min = int (secs div 60 mod 60), tm_hour = int (secs div 3600),
          tm_mday = int md + 1, tm_mon = int m, tm_year = int y - 1900,
          tm_wday = int ((days + 4) mod 7), tm_yday = int yd\<rparr>)"

definition pad2 :: "nat \<Rightarrow> string" where
  "pad2 n = (if n < 10 then ''0'' @ nat_dec n else nat_dec n)"

definition day_names :: "string list" where
  "day_names = [''Sun'', ''Mon'', ''Tue'', ''Wed'', ''Thu'', ''Fri'', ''Sat'']"

definition month_names :: "string list" where
  "month_names = [''Jan'', ''Feb'', ''Mar'', ''Apr'', ''May'', ''Jun'',
     ''Jul'', ''Aug'', ''Sep'', ''Oct'', ''Nov'', ''Dec'']"

text \<open>\<^verbatim>\<open>std::put_time(&tm, "%a, %d %b %Y %H:%M:%S %Z")\<close> for a time made by \<^verbatim>\<open>gmtime\<close>.\<close>

definition imf_date :: "nat \<Rightarrow> string" where
  "imf_date t =
     (let tm = gmtime t
      in day_names ! nat (tm_wday tm) @ '', '' @ pad2 (nat (tm_mday tm)) @ '' ''
           @ month_names ! nat (tm_mon tm) @ '' '' @ nat_dec (nat (tm_year tm + 1900)) @ '' ''
           @ pad2 (nat (tm_hour tm)) @ '':'' @ pad2 (nat (tm_min tm)) @ '':''
           @ pad2 (nat (tm_sec tm)) @ '' GMT'')"

section \<open>Lemmas\<close>

definition leaps_before :: "int \<Rightarrow> int" where
  "leaps_before y = (y - 1) div 4 - (y - 1) div 100 + (y - 1) div 400"

lemma count_leap_year_pos: "1 \<le> y \<Longrightarrow> count_leap_year y = leaps_before y"
  by (simp add: count_leap_year_def leaps_before_def Let_def signed_divide_int_def sgn_if)

lemma is_leap_year_leap: "is_leap_year (int y) \<longleftrightarrow> leap y"
proof -
  have "int y smod int k = int (y mod k)" for k
    by (cases "y = 0") (simp_all add: signed_modulo_int_def zmod_int)
  from this [of 4] this [of 100] this [of 400] show ?thesis
    by (simp add: is_leap_year_def leap_def dvd_eq_mod_eq_0)
qed

lemma div_step:
  fixes k m :: int
  assumes k: "0 < k"
  shows "m div k = (m - 1) div k + (if k dvd m then 1 else 0)"
proof -
  have m: "m = k * (m div k) + m mod k" by simp
  have r: "0 \<le> m mod k" "m mod k < k" using k by simp_all
  show ?thesis
  proof (cases "k dvd m")
    case True
    then have "m - 1 = k * (m div k - 1) + (k - 1)" by (simp add: algebra_simps)
    then have "(m - 1) div k = m div k - 1" by (rule int_div_pos_eq) (use k in simp_all)
    with True show ?thesis by simp
  next
    case False
    then have "0 \<noteq> m mod k" by (simp add: dvd_eq_mod_eq_0)
    then have "m - 1 = k * (m div k) + (m mod k - 1)" "0 \<le> m mod k - 1" "m mod k - 1 < k"
      using m r by linarith+
    then have "(m - 1) div k = m div k" by (rule int_div_pos_eq)
    with False show ?thesis by simp
  qed
qed

lemma leap_arith:
  fixes x :: int
  assumes "b \<Longrightarrow> a" and "c \<Longrightarrow> b" and "x = x' + (if a then 1 else 0)"
    and "y = y' + (if b then 1 else 0)" and "z = z' + (if c then 1 else 0)"
  shows "x - y + z = x' - y' + z' + (if a \<and> (\<not> b \<or> c) then 1 else 0)"
  unfolding assms(3-5) using assms(1,2) by (cases a; cases b; cases c) simp_all

lemma leaps_before_Suc: "leaps_before (int (Suc y)) = leaps_before (int y) + (if leap y then 1 else 0)"
proof -
  have d: "(4 dvd int y) = (4 dvd y)" "(100 dvd int y) = (100 dvd y)" "(400 dvd int y) = (400 dvd y)"
    by (simp_all add: int_dvd_int_iff [symmetric])
  have e4: "int y div 4 = (int y - 1) div 4 + (if 4 dvd y then 1 else 0)"
    using div_step [of 4 "int y"] by (simp only: d)
  have e100: "int y div 100 = (int y - 1) div 100 + (if 100 dvd y then 1 else 0)"
    using div_step [of 100 "int y"] by (simp only: d)
  have e400: "int y div 400 = (int y - 1) div 400 + (if 400 dvd y then 1 else 0)"
    using div_step [of 400 "int y"] by (simp only: d)
  have A: "leaps_before (int (Suc y)) = int y div 4 - int y div 100 + int y div 400"
    by (simp add: leaps_before_def)
  have h: "100 dvd y \<Longrightarrow> 4 dvd y" "400 dvd y \<Longrightarrow> 100 dvd y"
    using dvd_trans [of 4 100 y] dvd_trans [of 100 400 y] by simp_all
  have "int y div 4 - int y div 100 + int y div 400
      = (int y - 1) div 4 - (int y - 1) div 100 + (int y - 1) div 400 + (if leap y then 1 else 0)"
    unfolding leap_def by (rule leap_arith [OF h e4 e100 e400])
  then show ?thesis unfolding A by (simp only: leaps_before_def)
qed

text \<open>The number of days from the epoch to the first day of a year.\<close>

definition year_start :: "nat \<Rightarrow> int" where
  "year_start y = (int y - 1970) * 365 + (leaps_before (int y) - leaps_before 1970)"

lemma year_start_1970 [simp]: "year_start 1970 = 0"
  by (simp add: year_start_def)

lemma year_start_Suc: "year_start (Suc y) = year_start y + int (year_length y)"
  using leaps_before_Suc [of y] by (simp add: year_start_def year_length_def algebra_simps)

lemma split_year_spec:
  assumes "split_year d y = (y', yd)"
  shows "year_start y' + int yd = year_start y + int d \<and> yd < year_length y' \<and> y \<le> y'
    \<and> y' \<le> y + d div 365"
  using assms
proof (induction d y rule: split_year.induct)
  case (1 d y)
  show ?case
  proof (cases "d < year_length y")
    case True
    with 1(2) show ?thesis by (simp add: split_year.simps [of d y])
  next
    case False
    with 1(2) have s: "split_year (d - year_length y) (Suc y) = (y', yd)"
      by (simp add: split_year.simps [of d y])
    note IH = 1(1) [OF False s]
    have d: "365 \<le> d" using False by (simp add: year_length_def split: if_splits)
    have "(d - year_length y) div 365 \<le> (d - 365) div 365"
      by (rule div_le_mono, rule diff_le_mono2) (simp add: year_length_def)
    moreover have "d div 365 = Suc ((d - 365) div 365)" using d by (simp add: le_div_geq)
    ultimately have "y' \<le> y + d div 365" using IH by linarith
    then show ?thesis using IH False year_start_Suc [of y] by simp
  qed
qed

lemma split_month_spec:
  assumes "split_month d ls m = (m', md)" and "d < sum_list ls"
  shows "d = sum_list (take (m' - m) ls) + md \<and> m \<le> m' \<and> m' < m + length ls \<and> md < ls ! (m' - m)"
  using assms
proof (induction ls arbitrary: d m)
  case (Cons l ls)
  show ?case
  proof (cases "d < l")
    case True
    then show ?thesis using Cons.prems by simp
  next
    case False
    then have "split_month (d - l) ls (Suc m) = (m', md)" and "d - l < sum_list ls"
      using Cons.prems by auto
    from Cons.IH [OF this] have IH: "d - l = sum_list (take (m' - Suc m) ls) + md" "Suc m \<le> m'"
      "m' < Suc m + length ls" "md < ls ! (m' - Suc m)" by auto
    then have "m' - m = Suc (m' - Suc m)" by simp
    with IH False show ?thesis by simp
  qed
qed simp

lemma month_lengths_sum: "sum_list (month_lengths y) = year_length y"
  by (simp add: month_lengths_def year_length_def)

lemma month_lengths_length [simp]: "length (month_lengths y) = 12"
  by (simp add: month_lengths_def)

lemma nat_less_12:
  assumes "m < 12"
  shows "(m :: nat) \<in> {0, 1, 2, 3, 4, 5, 6, 7, 8, 9, 10, 11}"
  using assms by (simp add: less_Suc_eq numeral_eq_Suc)

lemma month_lengths_bound: "m < 12 \<Longrightarrow> month_lengths y ! m \<le> 31"
  by (drule nat_less_12) (auto simp: month_lengths_def)

lemma daysum_months:
  assumes "m < 12"
  shows "int (sum_list (take m (month_lengths y)))
    = daysum ! m + (if 2 \<le> m \<and> leap y then 1 else 0)"
  using nat_less_12 [OF assms]
  by (auto simp: month_lengths_def daysum_def numeral_eq_Suc)

text \<open>What \<^verbatim>\<open>gmtime\<close> gives, in terms of the start of the year and the lengths of the months.\<close>

lemma gmtime_fields:
  obtains y m where "tm_year (gmtime t) = int y - 1900" and "tm_mon (gmtime t) = int m" and "m < 12"
    and "1970 \<le> y" and "y \<le> 1970 + t div 86400 div 365"
    and "year_start y + tm_yday (gmtime t) = int (t div 86400)"
    and "tm_yday (gmtime t) = int (sum_list (take m (month_lengths y))) + tm_mday (gmtime t) - 1"
    and "0 \<le> tm_yday (gmtime t)" and "tm_yday (gmtime t) < 366"
    and "1 \<le> tm_mday (gmtime t)" and "tm_mday (gmtime t) \<le> 31"
    and "tm_hour (gmtime t) * 3600 + tm_min (gmtime t) * 60 + tm_sec (gmtime t) = int (t mod 86400)"
    and "0 \<le> tm_min (gmtime t)" and "tm_min (gmtime t) < 60"
proof -
  obtain y yd where y: "split_year (t div 86400) 1970 = (y, yd)" by fastforce
  obtain m md where m: "split_month yd (month_lengths y) 0 = (m, md)" by fastforce
  note Y = split_year_spec [OF y]
  have M: "yd = sum_list (take m (month_lengths y)) + md" "m < 12" "md < month_lengths y ! m"
    using split_month_spec [OF m] Y by (simp_all add: month_lengths_sum)
  have md: "md < 31"
    using M(3) month_lengths_bound [OF M(2), of y] by linarith
  have yl: "yd < 366" using Y by (simp add: year_length_def split: if_splits)
  let ?s = "t mod 86400"
  have s: "?s div 3600 * 3600 + ?s div 60 mod 60 * 60 + ?s mod 60 = ?s"
  proof -
    have "?s div 3600 = ?s div 60 div 60" by (simp add: div_mult2_eq [symmetric])
    then have "?s div 3600 * 3600 + ?s div 60 mod 60 * 60 = (?s div 60 div 60 * 60 + ?s div 60 mod 60) * 60"
      by (simp only: add_mult_distrib mult.assoc)
    then show ?thesis by (simp only: div_mult_mod_eq)
  qed
  have g: "gmtime t = \<lparr>tm_sec = int (?s mod 60), tm_min = int (?s div 60 mod 60), tm_hour = int (?s div 3600),
          tm_mday = int md + 1, tm_mon = int m, tm_year = int y - 1900,
          tm_wday = int ((t div 86400 + 4) mod 7), tm_yday = int yd\<rparr>"
    by (simp add: gmtime_def y m Let_def)
  have hms: "tm_hour (gmtime t) * 3600 + tm_min (gmtime t) * 60 + tm_sec (gmtime t) = int ?s"
    unfolding g using arg_cong [OF s, of int] by simp
  have yd': "tm_yday (gmtime t) = int (sum_list (take m (month_lengths y))) + tm_mday (gmtime t) - 1"
    unfolding g using arg_cong [OF M(1), of int] by simp
  have ys: "year_start y + tm_yday (gmtime t) = int (t div 86400)"
    unfolding g using Y by simp
  show thesis
    by (rule that [of y m]) (use hms yd' ys M(2) Y yl md in \<open>simp_all add: g\<close>)
qed


lemma hms_assoc: "(d * 24 + h) * 3600 + m * 60 + s = d * 86400 + (h * 3600 + m * 60 + s)" for d :: int
  by (simp add: algebra_simps)

lemma time_t_result_8 [simp]: "time_t_result 8 t = t"
  by (simp add: time_t_result_def)

text \<open>Both conversions of \<^verbatim>\<open>timegm.c\<close> invert \<^verbatim>\<open>gmtime\<close>, up to the last day number an \<^verbatim>\<open>int\<close> can hold (more than five million
  years), and no \<^verbatim>\<open>int\<close> expression overflows on the way.\<close>

lemma timegm_gmtime:
  assumes "t < 86400 * (2 ^ 31 - 1)"
  shows "nghttp2_timegm 8 (gmtime t) = Inr (int t)
    \<and> nghttp2_timegm_without_yday 8 (gmtime t) = Inr (int t)"
proof -
  obtain y m where F: "tm_year (gmtime t) = int y - 1900" "tm_mon (gmtime t) = int m" "m < 12"
    "1970 \<le> y" "y \<le> 1970 + t div 86400 div 365"
    "year_start y + tm_yday (gmtime t) = int (t div 86400)"
    "tm_yday (gmtime t) = int (sum_list (take m (month_lengths y))) + tm_mday (gmtime t) - 1"
    "0 \<le> tm_yday (gmtime t)" "tm_yday (gmtime t) < 366" "1 \<le> tm_mday (gmtime t)"
    "tm_mday (gmtime t) \<le> 31"
    "tm_hour (gmtime t) * 3600 + tm_min (gmtime t) * 60 + tm_sec (gmtime t) = int (t mod 86400)"
    "0 \<le> tm_min (gmtime t)" "tm_min (gmtime t) < 60"
    by (rule gmtime_fields [of t])
  have days: "t div 86400 < 2 ^ 31 - 1" using assms by (simp add: less_mult_imp_div_less mult.commute)
  have y70: "(int y - 1970) * 365 \<le> int (t div 86400)"
  proof -
    have "(y - 1970) * 365 \<le> t div 86400 div 365 * 365"
      using F(5) by (intro mult_right_mono) simp_all
    also have "\<dots> \<le> t div 86400" by simp
    finally have "int ((y - 1970) * 365) \<le> int (t div 86400)" by (simp only: of_nat_le_iff)
    then show ?thesis using F(4) by (simp add: of_nat_diff)
  qed
  have ys: "year_start y = (int y - 1970) * 365 + (leaps_before (int y) - leaps_before 1970)"
    by (simp add: year_start_def)
  have cl: "count_leap_year (int y) = leaps_before (int y)" "count_leap_year 1970 = leaps_before 1970"
    using F(4) by (simp_all add: count_leap_year_pos)
  have T: "((year_start y + tm_yday (gmtime t)) * 24 + tm_hour (gmtime t)) * 3600
      + tm_min (gmtime t) * 60 + tm_sec (gmtime t) = int t"
  proof -
    have "int t = int (t div 86400 * 86400 + t mod 86400)" by (simp only: div_mult_mod_eq)
    then have "int t = int (t div 86400) * 86400 + int (t mod 86400)" by (simp only: of_nat_add of_nat_mult of_nat_numeral)
    then show ?thesis unfolding F(6) F(12) [symmetric] by (simp only: hms_assoc)
  qed
  have mon: "int (sum_list (take m (month_lengths y)))
      = daysum ! m + (if 2 \<le> m \<and> leap y then 1 else 0)" by (rule daysum_months [OF F(3)])
  have d1: "int y * 365 - 719050 + (leaps_before (int y) - leaps_before 1970) = year_start y"
    by (simp add: ys)
  have dm: "0 \<le> daysum ! m" using nat_less_12 [OF F(3)] by (auto simp: daysum_def)
  have "nghttp2_timegm 8 (gmtime t) = Inr (int t)"
    using F(1-9,13,14) days y70 T
    by (simp add: nghttp2_timegm_def cl d1 Let_def)
  moreover have "nghttp2_timegm_without_yday 8 (gmtime t) = Inr (int t)"
    using F(1-11,13,14) days y70 T mon dm
    by (cases "2 \<le> m \<and> leap y")
       (simp_all add: nghttp2_timegm_without_yday_def cl d1 Let_def is_leap_year_leap)
  ultimately show ?thesis by simp
qed

end
