(* ===== verification/Response.thy ===== *)
theory Response
  imports Http_Message Calendar "HOL-Library.Stream"
begin

text \<open>
  Responses (second half of \<^verbatim>\<open>H2Server_Response.h\<close>): the arguments that fill the placeholders of a
  template, the headers and the payload produced from them, the customisation by a Lua function and
  the throttling of responses.

  Random numbers are a stream of raw draws; \<^verbatim>\<open>std::uniform_int_distribution(lo, hi)\<close> maps a draw into
  its range. The Lua interpreter is not part of the repository: it is the record \<open>lua_lib\<close>, which
  says what a call of \<^verbatim>\<open>customize_response\<close> returns after the earlier calls made in the same state.
\<close>

section \<open>Random values\<close>

type_synonym rng = "nat stream"

definition uniform_int :: "nat \<Rightarrow> nat \<Rightarrow> rng \<Rightarrow> nat \<times> rng" where
  "uniform_int lo hi g = (lo + shd g mod (hi - lo + 1), stl g)"

definition hex_digit :: "nat \<Rightarrow> char" where
  "hex_digit n = ''0123456789abcdef'' ! n"

fun random_hex :: "nat \<Rightarrow> rng \<Rightarrow> string \<times> rng" where
  "random_hex 0 g = ([], g)"
| "random_hex (Suc n) g =
     (let (d, g1) = uniform_int 0 15 g; (ds, g2) = random_hex n g1 in (hex_digit d # ds, g2))"

definition generate_uuid_v4 :: "rng \<Rightarrow> string \<times> rng" where
  "generate_uuid_v4 g0 =
     (let (a, g1) = random_hex 8 g0;
          (b, g2) = random_hex 4 g1;
          (c, g3) = random_hex 3 g2;
          (v, g4) = uniform_int 8 11 g3;
          (d, g5) = random_hex 3 g4;
          (e, g6) = random_hex 12 g5
      in (a @ ''-'' @ b @ ''-4'' @ c @ ''-'' @ [hex_digit v] @ d @ ''-'' @ e, g6))"

section \<open>Arguments\<close>

datatype VALUE_TYPE = VAL_INVALID | VAL_RANDOM_HEX | VAL_TIMESTAMP | VAL_UUID | VAL_RAW_PAYLOAD

record Argument =
  arg_json_pointer :: string
  arg_substring_start :: i64
  arg_substring_length :: i64
  arg_header_name :: string
  arg_reg_exp :: "string option"
  arg_regex :: string
  arg_regex_present :: bool
  arg_val_type :: VALUE_TYPE

definition Argument_init :: "lib \<Rightarrow> Schema_Argument \<Rightarrow> Argument" where
  "Argument_init L a =
     (let t = type_of_value a
      in \<lparr>arg_json_pointer = (if t = ''JsonPointer'' then value_identifier a else []),
          arg_substring_start = sa_substring_start a,
          arg_substring_length = sa_substring_length a,
          arg_header_name = (if t = ''Header'' then value_identifier a else []),
          arg_reg_exp = (if sa_regex a \<noteq> [] \<and> re_valid L (sa_regex a) then Some (sa_regex a) else None),
          arg_regex = sa_regex a,
          arg_regex_present = (sa_regex a \<noteq> []),
          arg_val_type = (if t = ''Pseudo-UUID'' then VAL_UUID
                          else if t = ''RandomHex'' then VAL_RANDOM_HEX
                          else if t = ''TimeStamp'' then VAL_TIMESTAMP
                          else if t = ''RawPayload'' then VAL_RAW_PAYLOAD else VAL_INVALID)\<rparr>)"

type_synonym gen_state = "H2Server_Request_Message \<times> rng"

text \<open>Where the text of an argument comes from.\<close>

definition argument_source ::
    "lib \<Rightarrow> nat \<Rightarrow> Argument \<Rightarrow> gen_state \<Rightarrow> (string \<times> gen_state) result" where
  "argument_source L now a st =
     (case st of (msg, g) \<Rightarrow>
        if arg_json_pointer a \<noteq> [] then
          (let m = decode_json_if_not_yet L msg
           in rbind (getValueFromJsonPtr L (json_payload m) (arg_json_pointer a))
                (\<lambda>s. Inr (s, (m, g))))
        else if arg_header_name a \<noteq> []
                \<and> equal_range (<) (arg_header_name a) (msg_headers msg) \<noteq> []
        then Inr (hd (equal_range (<) (arg_header_name a) (msg_headers msg)), st)
        else case arg_val_type a of
               VAL_TIMESTAMP \<Rightarrow> Inr (imf_date now, st)
             | VAL_RANDOM_HEX \<Rightarrow> (let (d, g1) = uniform_int 0 15 g in Inr ([hex_digit d], (msg, g1)))
             | VAL_UUID \<Rightarrow> (let (u, g1) = generate_uuid_v4 g in Inr (u, (msg, g1)))
             | VAL_RAW_PAYLOAD \<Rightarrow> Inr (raw_payload msg, st)
             | VAL_INVALID \<Rightarrow> Inr ([], st))"

text \<open>\<^verbatim>\<open>substring_start < str.size()\<close> compares as unsigned numbers, \<^verbatim>\<open>substring_start > 0\<close> as signed
  ones.\<close>

definition argument_cut :: "lib \<Rightarrow> Argument \<Rightarrow> string \<Rightarrow> string" where
  "argument_cut L a str0 =
     (let str = (if arg_regex_present a
                 then case Option.bind (arg_reg_exp a) (\<lambda>r. re_search L r str0) of
                        Some m \<Rightarrow> m | None \<Rightarrow> []
                 else str0)
      in if (0 < sint (arg_substring_start a) \<or> arg_substring_length a \<noteq> - 1)
            \<and> unat (arg_substring_start a) < length str
         then substr str (unat (arg_substring_start a)) (Some (unat (arg_substring_length a)))
         else str)"

definition getValue :: "lib \<Rightarrow> nat \<Rightarrow> Argument \<Rightarrow> gen_state \<Rightarrow> (string \<times> gen_state) result" where
  "getValue L now a st =
     rbind (argument_source L now a st) (\<lambda>(str, st'). Inr (argument_cut L a str, st'))"

section \<open>Lua\<close>

datatype lua_value =
    LNil
  | LBool bool
  | LNumber string
  | LString string
  | LTable "(lua_value \<times> lua_value) list"
  | LOther

record lua_call =
  lc_req_headers :: "(string \<times> string) list"
  lc_req_body :: string
  lc_resp_headers :: "(string \<times> string) list"
  lc_resp_body :: string

text \<open>A Lua state: the script it was loaded with and the calls made so far. \<open>lua_callable\<close> says
  whether the global \<^verbatim>\<open>customize_response\<close> is a function; \<open>lua_customize\<close> what \<^verbatim>\<open>lua_pcall\<close> with two
  results leaves on the stack (an error leaves one value, the error object).\<close>

type_synonym lua_state = "string \<times> lua_call list"

record lua_lib =
  lua_callable :: "lua_state \<Rightarrow> bool"
  lua_customize :: "lua_state \<Rightarrow> lua_call \<Rightarrow> lua_value + lua_value \<times> lua_value"

text \<open>\<^verbatim>\<open>lua_tolstring\<close>; a value with no text is a null pointer of length 0.\<close>

fun lua_text :: "lua_value \<Rightarrow> string" where
  "lua_text (LString s) = s"
| "lua_text (LNumber t) = t"
| "lua_text _ = []"

text \<open>The \<^verbatim>\<open>lua_next\<close> loop. Converting a number key in place breaks the traversal.\<close>

fun lua_table_into :: "(lua_value \<times> lua_value) list \<Rightarrow> (string \<times> string) list
    \<Rightarrow> (string \<times> string) list result" where
  "lua_table_into [] table = Inr table"
| "lua_table_into ((LNumber t, v) # es) table = Inl Assertion"
| "lua_table_into ((k, v) # es) table = lua_table_into es (map_assign (<) (lua_text k) (lua_text v) table)"

record lua_outcome =
  lo_ret :: bool
  lo_headers :: "(string \<times> string) list"
  lo_trailers :: "(string \<times> string) list"
  lo_body :: string

fun lua_take_result :: "lua_value \<Rightarrow> lua_outcome \<Rightarrow> lua_outcome result" where
  "lua_take_result (LString s) st = Inr (st\<lparr>lo_body := s\<rparr>)"
| "lua_take_result (LTable es) st =
     (if lo_trailers st \<noteq> []
      then rbind (lua_table_into es (lo_headers st)) (\<lambda>t. Inr (st\<lparr>lo_headers := t\<rparr>))
      else rbind (lua_table_into es (lo_trailers st)) (\<lambda>t. Inr (st\<lparr>lo_trailers := t\<rparr>)))"
| "lua_take_result _ st = Inr (st\<lparr>lo_ret := False\<rparr>)"

fun lua_take_results :: "lua_value list \<Rightarrow> lua_outcome \<Rightarrow> lua_outcome result" where
  "lua_take_results [] st = Inr st"
| "lua_take_results (v # vs) st = rbind (lua_take_result v st) (lua_take_results vs)"

text \<open>Request header fields of one name are joined with semicolons.\<close>

fun join_header_values :: "string \<Rightarrow> string list \<Rightarrow> string" where
  "join_header_values acc [] = acc"
| "join_header_values acc (v # vs) = join_header_values ((if acc \<noteq> [] then acc @ '';'' else acc) @ v) vs"

definition lua_request_table :: "(string \<times> string) list \<Rightarrow> (string \<times> string) list" where
  "lua_request_table req_headers =
     map (\<lambda>n. (n, join_header_values [] (equal_range (<) n req_headers)))
       (fold (set_insert (<)) (map fst req_headers) [])"

definition lua_status :: string where
  "lua_status = '':status''"

section \<open>Responses\<close>

record H2Server_Response_Header =
  tokenizedHeader :: "string list"
  header_arguments :: "Argument list"

record H2Server_Response =
  rs_status_code :: u32
  additonalHeaders :: "H2Server_Response_Header list"
  tokenizedPayload :: "string list"
  payload_arguments :: "Argument list"
  luaState :: "lua_state option"
  luaScript :: string
  lua_offload :: bool
  throttle_ratio :: binary64
  rs_name :: string
  rs_weight :: u32
  response_index :: nat

definition H2Server_Response_Header_init ::
    "lib \<Rightarrow> Schema_Response_Header \<Rightarrow> H2Server_Response_Header result" where
  "H2Server_Response_Header_init L h =
     (case str_find (sh_header h) '':'' 1 of
        None \<Rightarrow> Inl Abort
      | Some t \<Rightarrow>
          if hd (sh_header h) = CHR '':'' \<and> t = 1 then Inl Abort
          else let header_value = substr (sh_header h) (t + 1) None
               in if header_value = [] then Inl Exit_1
                  else let toks = tokenize_string (sh_header h) (sh_placeholder h);
                           args = map (Argument_init L) (sh_arguments h)
                       in if int (length toks) - int (length args) \<noteq> 1 then Inl Exit_1
                          else Inr \<lparr>tokenizedHeader = toks, header_arguments = args\<rparr>)"

fun map_result :: "('a \<Rightarrow> 'b result) \<Rightarrow> 'a list \<Rightarrow> 'b list result" where
  "map_result f [] = Inr []"
| "map_result f (x # xs) = rbind (f x) (\<lambda>y. rbind (map_result f xs) (\<lambda>ys. Inr (y # ys)))"

definition H2Server_Response_init ::
    "lib \<Rightarrow> lua_lib \<Rightarrow> file_system \<Rightarrow> Schema_Response_To_Return \<Rightarrow> nat \<Rightarrow> H2Server_Response result" where
  "H2Server_Response_init L U fs resp index =
     (let toks = tokenize_string (msg_payload (sr_payload resp)) (pl_placeholder (sr_payload resp));
          args = map (Argument_init L) (pl_arguments (sr_payload resp))
      in if int (length toks) - int (length args) \<noteq> 1 then Inl Exit_1
         else rbind (map_result (H2Server_Response_Header_init L) (sr_additonalHeaders resp)) (\<lambda>hdrs.
           let script = file_or_text fs (sr_luaScript resp);
               state = (c_str (sr_luaScript resp), [])
           in if script \<noteq> [] \<and> \<not> lua_callable U state then Inl Exit_1
              else Inr \<lparr>rs_status_code = sr_status_code resp, additonalHeaders = hdrs,
                        tokenizedPayload = toks, payload_arguments = args,
                        luaState = (if script \<noteq> [] then Some state else None), luaScript = script,
                        lua_offload = sr_lua_offload resp, throttle_ratio = sr_throttle_ratio resp,
                        rs_name = sr_name resp, rs_weight = sr_weight resp, response_index = index\<rparr>))"

text \<open>Tokens and argument values in turn; the values in the order of evaluation.\<close>

fun fill_template :: "lib \<Rightarrow> nat \<Rightarrow> string list \<Rightarrow> Argument list \<Rightarrow> gen_state \<Rightarrow> (string \<times> gen_state) result" where
  "fill_template L now [] args st = Inr ([], st)"
| "fill_template L now (t # ts) [] st =
     rbind (fill_template L now ts [] st) (\<lambda>(s, st'). Inr (t @ s, st'))"
| "fill_template L now (t # ts) (a # args) st =
     rbind (getValue L now a st) (\<lambda>(v, st1).
       rbind (fill_template L now ts args st1) (\<lambda>(s, st2). Inr (t @ v @ s, st2)))"

definition produce_payload ::
    "lib \<Rightarrow> nat \<Rightarrow> H2Server_Response \<Rightarrow> gen_state \<Rightarrow> (string \<times> gen_state) result" where
  "produce_payload L now r st = fill_template L now (tokenizedPayload r) (payload_arguments r) st"

text \<open>When there is no colon, \<^verbatim>\<open>t + 1\<close> wraps to 0 and name and value are both the whole text.\<close>

definition split_header :: "string \<Rightarrow> string \<times> string" where
  "split_header s = (case str_find s '':'' 1 of
       None \<Rightarrow> (s, s) | Some t \<Rightarrow> (substr s 0 (Some t), substr s (t + 1) None))"

definition produce_header ::
    "lib \<Rightarrow> nat \<Rightarrow> H2Server_Response_Header \<Rightarrow> gen_state \<Rightarrow> ((string \<times> string) \<times> gen_state) result" where
  "produce_header L now h st =
     rbind (fill_template L now (tokenizedHeader h) (header_arguments h) st)
       (\<lambda>(s, st'). Inr (split_header s, st'))"

fun produce_headers_loop ::
    "lib \<Rightarrow> nat \<Rightarrow> H2Server_Response_Header list \<Rightarrow> (string \<times> string) list \<Rightarrow> gen_state
      \<Rightarrow> ((string \<times> string) list \<times> gen_state) result" where
  "produce_headers_loop L now [] headers st = Inr (headers, st)"
| "produce_headers_loop L now (h # hs) headers st =
     rbind (produce_header L now h st) (\<lambda>((n, v), st').
       produce_headers_loop L now hs (map_insert (<) n v headers) st')"

definition produce_headers ::
    "lib \<Rightarrow> nat \<Rightarrow> H2Server_Response \<Rightarrow> gen_state \<Rightarrow> ((string \<times> string) list \<times> gen_state) result" where
  "produce_headers L now r st = produce_headers_loop L now (additonalHeaders r) [] st"

text \<open>The four arguments pushed for the call.\<close>

definition lua_call_of ::
    "H2Server_Response \<Rightarrow> (string \<times> string) list \<Rightarrow> string \<Rightarrow> (string \<times> string) list \<Rightarrow> string \<Rightarrow> lua_call" where
  "lua_call_of r req_headers req_body resp_headers response_body =
     \<lparr>lc_req_headers = lua_request_table req_headers, lc_req_body = req_body,
      lc_resp_headers = map_assign (<) lua_status (nat_dec (unat (rs_status_code r))) resp_headers,
      lc_resp_body = response_body\<rparr>"

text \<open>The outcome of the customisation and the response whose Lua state has seen the call.\<close>

definition update_response_with_lua ::
    "lua_lib \<Rightarrow> H2Server_Response \<Rightarrow> (string \<times> string) list \<Rightarrow> string
      \<Rightarrow> (string \<times> string) list \<Rightarrow> (string \<times> string) list \<Rightarrow> string
      \<Rightarrow> (lua_outcome \<times> H2Server_Response) result" where
  "update_response_with_lua U r req_headers req_body resp_headers trailers response_body =
     (let unchanged = \<lparr>lo_ret = True, lo_headers = resp_headers, lo_trailers = trailers,
                       lo_body = response_body\<rparr>
      in case luaState r of
           None \<Rightarrow> Inr (unchanged, r)
         | Some st \<Rightarrow>
             if \<not> lua_callable U st then Inr (unchanged\<lparr>lo_ret := False\<rparr>, r)
             else let call = lua_call_of r req_headers req_body resp_headers response_body;
                      stack = (case lua_customize U st call of Inl e \<Rightarrow> [e] | Inr (v1, v2) \<Rightarrow> [v2, v1]);
                      r' = r\<lparr>luaState := Some (fst st, snd st @ [call])\<rparr>
                  in rbind (lua_take_results stack
                        \<lparr>lo_ret = True, lo_headers = [], lo_trailers = [], lo_body = response_body\<rparr>)
                      (\<lambda>o1. Inr (if lo_headers o1 = []
                               then o1\<lparr>lo_headers := lo_trailers o1, lo_trailers := lo_headers o1\<rparr>
                               else o1, r')))"

section \<open>Throttling\<close>

fun bit_length :: "nat \<Rightarrow> nat" where
  "bit_length n = (if n = 0 then 0 else Suc (bit_length (n div 2)))"

declare bit_length.simps [simp del]

text \<open>\<^verbatim>\<open>static_cast<uint64_t>(throttle_ratio * 10000)\<close> for a positive ratio: the product is rounded
  to 53 bits (to nearest, ties to even), then truncated.\<close>

definition round_53 :: "nat \<Rightarrow> nat \<times> nat" where
  "round_53 p =
     (let k = bit_length p - 53; d = 2 ^ k; q = p div d; r = p mod d
      in (if d < 2 * r \<or> (d = 2 * r \<and> odd q) then q + 1 else q, k))"

definition scaled_ratio :: "binary64 \<Rightarrow> nat" where
  "scaled_ratio x =
     (let (q, k) = round_53 (dbl_mant x * 10000); e = dbl_exp x + int k
      in if 0 \<le> e then q * 2 ^ nat e else q div 2 ^ nat (- e))"

definition dbl_positive :: "binary64 \<Rightarrow> bool" where
  "dbl_positive x \<longleftrightarrow> \<not> dbl_neg x \<and> dbl_mant x \<noteq> 0"

text \<open>The static variable \<^verbatim>\<open>scaled_throttle_ratio\<close> belongs to the thread: \<^term>\<open>None\<close> before the first
  call that reaches it. \<open>draw\<close> is the number drawn from 0 to 999999.\<close>

definition is_response_throttled ::
    "H2Server_Response \<Rightarrow> nat option \<Rightarrow> nat \<Rightarrow> bool \<times> nat option" where
  "is_response_throttled r scaled_throttle_ratio draw =
     (if dbl_positive (throttle_ratio r) then
        let scaled = (case scaled_throttle_ratio of
                        Some s \<Rightarrow> s | None \<Rightarrow> scaled_ratio (throttle_ratio r))
        in (draw < scaled, Some scaled)
      else (False, scaled_throttle_ratio))"

section \<open>Lemmas\<close>

lemma uniform_int_range: "lo \<le> hi \<Longrightarrow> lo \<le> fst (uniform_int lo hi g) \<and> fst (uniform_int lo hi g) \<le> hi"
proof -
  assume "lo \<le> hi"
  moreover have "shd g mod (hi - lo + 1) < hi - lo + 1" by simp
  ultimately show ?thesis unfolding uniform_int_def fst_conv by arith
qed

definition is_hex :: "char \<Rightarrow> bool" where
  "is_hex c \<longleftrightarrow> c \<in> set ''0123456789abcdef''"

lemma hex_digit_is_hex: "n < 16 \<Longrightarrow> is_hex (hex_digit n)"
  unfolding is_hex_def hex_digit_def by (rule nth_mem) simp

lemma random_hex_spec: "length (fst (random_hex n g)) = n \<and> list_all is_hex (fst (random_hex n g))"
proof (induction n arbitrary: g)
  case (Suc n)
  have "fst (uniform_int 0 15 g) < 16" using uniform_int_range [of 0 15 g] by simp
  then show ?case using Suc hex_digit_is_hex by (auto simp: split_beta Let_def)
qed simp

fun eval_args :: "lib \<Rightarrow> nat \<Rightarrow> Argument list \<Rightarrow> gen_state \<Rightarrow> (string list \<times> gen_state) result" where
  "eval_args L now [] st = Inr ([], st)"
| "eval_args L now (a # as) st =
     rbind (getValue L now a st) (\<lambda>(v, st1).
       rbind (eval_args L now as st1) (\<lambda>(vs, st2). Inr (v # vs, st2)))"

fun interleave :: "string list \<Rightarrow> string list \<Rightarrow> string" where
  "interleave [] vs = []"
| "interleave (t # ts) [] = t @ interleave ts []"
| "interleave (t # ts) (v # vs) = t @ v @ interleave ts vs"

lemma fill_template_no_args: "fill_template L now ts [] st = Inr (interleave ts [], st)"
  by (induction ts) auto

lemma fill_template_eval:
  "length args < length ts \<Longrightarrow> fill_template L now ts args st
     = rbind (eval_args L now args st) (\<lambda>(vs, st'). Inr (interleave ts vs, st'))"
proof (induction args arbitrary: ts st)
  case Nil
  then show ?case by (simp add: fill_template_no_args)
next
  case (Cons a args)
  then obtain t ts' where ts: "ts = t # ts'" by (cases ts) auto
  show ?case
  proof (cases "getValue L now a st")
    case (Inl e)
    then show ?thesis by (simp add: ts)
  next
    case (Inr p)
    obtain v st1 where p: "p = (v, st1)" by (cases p)
    show ?thesis
    proof (cases "eval_args L now args st1")
      case (Inl e)
      then show ?thesis using Cons p \<open>getValue L now a st = Inr p\<close> by (simp add: ts)
    next
      case (Inr q)
      then show ?thesis using Cons p \<open>getValue L now a st = Inr p\<close> by (cases q) (simp add: ts)
    qed
  qed
qed

lemma interleave_replicate:
  "length ts = Suc n \<Longrightarrow> interleave ts (replicate n d) = join_with d ts"
proof (induction n arbitrary: ts)
  case 0
  then show ?case by (cases ts) auto
next
  case (Suc n)
  then obtain t ts' where ts: "ts = t # ts'" and "length ts' = Suc n" by (cases ts) auto
  then have "interleave ts' (replicate n d) = join_with d ts'" and "ts' \<noteq> []" using Suc.IH by auto
  then show ?case by (simp add: ts join_with_Cons)
qed

lemma map_result_length: "map_result f xs = Inr ys \<Longrightarrow> length ys = length xs"
  by (induction xs arbitrary: ys) auto

lemma H2Server_Response_init_fields:
  assumes "H2Server_Response_init L U fs resp index = Inr r"
  shows "tokenizedPayload r = tokenize_string (msg_payload (sr_payload resp)) (pl_placeholder (sr_payload resp))"
    and "payload_arguments r = map (Argument_init L) (pl_arguments (sr_payload resp))"
    and "length (tokenizedPayload r) = Suc (length (payload_arguments r))"
    and "rs_weight r = sr_weight resp" and "rs_status_code r = sr_status_code resp"
    and "response_index r = index" and "rs_name r = sr_name resp"
    and "length (additonalHeaders r) = length (sr_additonalHeaders resp)"
  using assms by (auto simp: H2Server_Response_init_def Let_def map_result_length split: if_splits)

definition string_entries :: "(string \<times> string) list \<Rightarrow> (lua_value \<times> lua_value) list" where
  "string_entries kvs = map (\<lambda>(k, v). (LString k, LString v)) kvs"

lemma lua_table_into_strings:
  "lua_table_into (string_entries kvs) table = Inr (fold (\<lambda>(k, v). map_assign (<) k v) kvs table)"
  by (induction kvs arbitrary: table) (auto simp: string_entries_def)

lemma fold_map_assign_nonempty:
  "kvs \<noteq> [] \<or> m \<noteq> [] \<Longrightarrow> fold (\<lambda>(k, v). map_assign (<) k v) kvs (m :: (string \<times> string) list) \<noteq> []"
proof (induction kvs arbitrary: m)
  case (Cons p kvs)
  have "map_assign (<) k v m \<noteq> []" for k v
    by (cases "((<) :: string \<Rightarrow> string \<Rightarrow> bool, k, v, m)" rule: map_assign.cases) auto
  then show ?case using Cons.IH by (cases p) simp
qed simp

text \<open>A concrete interpreter, for closed examples: the function adds a header and keeps the body.\<close>

definition plain_lua :: lua_lib where
  "plain_lua = \<lparr>lua_callable = (\<lambda>_. True),
     lua_customize = (\<lambda>_ c. Inr (LTable [(LString ''test'', LString ''v'')], LString (lc_resp_body c)))\<rparr>"

definition sample_argument :: Schema_Argument where
  "sample_argument = \<lparr>type_of_value = ''RawPayload'', value_identifier = [], sa_substring_start = 0,
     sa_substring_length = - 1, sa_regex = []\<rparr>"

definition sample_schema_response :: Schema_Response_To_Return where
  "sample_schema_response = \<lparr>sr_status_code = 200, sr_throttle_ratio = Finite False 0 0,
     sr_payload = \<lparr>msg_payload = ''<$>'', pl_placeholder = ''$'', pl_arguments = [sample_argument]\<rparr>,
     sr_additonalHeaders = [], sr_luaScript = ''f'', sr_lua_offload = False, sr_weight = 1,
     sr_name = ''r''\<rparr>"

definition sample_response :: H2Server_Response where
  "sample_response = \<lparr>rs_status_code = 200, additonalHeaders = [], tokenizedPayload = [''<'', ''>''],
     payload_arguments = [Argument_init plain_lib sample_argument],
     luaState = Some (''f'', []), luaScript = ''f'', lua_offload = False,
     throttle_ratio = Finite False 0 0, rs_name = ''r'', rs_weight = 1, response_index = 0\<rparr>"

lemma sample_tokens: "tokenize_string ''<$>'' ''$'' = [''<'', ''>'']"
  by code_simp

lemma sample_response_init:
  "H2Server_Response_init plain_lib plain_lua (\<lambda>_. None) sample_schema_response 0 = Inr sample_response"
  by (simp add: H2Server_Response_init_def sample_schema_response_def sample_tokens sample_response_def
      plain_lua_def file_or_text_def c_str_def Let_def)

section \<open>Properties\<close>

text \<open>C5. A response that was accepted at start-up substitutes its arguments for the placeholders
  of its payload, one for one and in order: the payload it produces is its tokens interleaved with
  the values of its arguments, and with the placeholder itself in the place of every value that
  is exactly the configured payload. The only way to fail is that an argument fails.\<close>

theorem produce_payload_substitutes:
  assumes "H2Server_Response_init L U fs resp index = Inr r"
  shows "produce_payload L now r st = rbind (eval_args L now (payload_arguments r) st)
           (\<lambda>(vs, st'). Inr (interleave (tokenizedPayload r) vs, st'))
    \<and> interleave (tokenizedPayload r)
         (replicate (length (payload_arguments r)) (pl_placeholder (sr_payload resp)))
       = msg_payload (sr_payload resp)"
proof -
  note F = H2Server_Response_init_fields [OF assms]
  have "join_with (pl_placeholder (sr_payload resp)) (tokenizedPayload r) = msg_payload (sr_payload resp)"
    using join_tokenize_loop [of "pl_placeholder (sr_payload resp)" 0 "msg_payload (sr_payload resp)"]
    by (simp add: F(1) tokenize_string_def)
  then show ?thesis
    using F(3) by (simp add: produce_payload_def fill_template_eval interleave_replicate)
qed

theorem produce_payload_substitutes_witness:
  "produce_payload plain_lib 0 sample_response
     (H2Server_Request_Message_init (asio_server_request_init\<lparr>req_payload := ''hi''\<rparr>), sconst 0)
   = Inr (''<hi>'', (H2Server_Request_Message_init (asio_server_request_init\<lparr>req_payload := ''hi''\<rparr>), sconst 0))"
  using produce_payload_substitutes [OF sample_response_init, of 0
      "(H2Server_Request_Message_init (asio_server_request_init\<lparr>req_payload := ''hi''\<rparr>), sconst 0)"]
  by (simp add: sample_response_def Argument_init_def sample_argument_def getValue_def argument_source_def
      argument_cut_def H2Server_Request_Message_init_def Let_def)

text \<open>The arguments of a response cut a sub string only when a start is configured. With no
  \<^verbatim>\<open>sub-string-start\<close> in the file the constructor's second assignment leaves the start at -1, which
  as an unsigned number is beyond every text, so a configured \<^verbatim>\<open>sub-string-length\<close> alone has no
  effect, whatever its value and whatever the unset length is.\<close>

lemma substring_length_without_start_ignored:
  assumes "Schema_Argument_load (Schema_Argument_init unset) ty vid None None len = Some a"
    and "length s < 2 ^ 64 - 1"
  shows "argument_cut L (Argument_init L a) s = s"
proof -
  have "sa_substring_start a = - 1" and "sa_regex a = []"
    using assms(1) by (auto simp: Schema_Argument_load_def Schema_Argument_init_def split: option.splits)
  moreover have "unat (- 1 :: i64) = 2 ^ 64 - 1" by (simp add: unsigned_minus_1_eq_mask mask_eq_exp_minus_1)
  ultimately show ?thesis using assms(2)
    by (simp add: argument_cut_def Argument_init_def Let_def)
qed

lemma substring_length_without_start_ignored_witness:
  "\<exists>a. Schema_Argument_load (Schema_Argument_init 0) (Some ''RawPayload'') None None None (Some 3) = Some a
     \<and> argument_cut plain_lib (Argument_init plain_lib a) ''abcdef'' = ''abcdef''"
proof -
  obtain a where a: "Schema_Argument_load (Schema_Argument_init 0) (Some ''RawPayload'') None None None (Some 3) = Some a"
    by (simp add: Schema_Argument_load_def)
  have "length ''abcdef'' < 2 ^ 64 - 1" by simp
  from substring_length_without_start_ignored [OF a this, of plain_lib] a show ?thesis by blast
qed

text \<open>C9. The customisation hook: when \<^verbatim>\<open>customize_response\<close> returns a table of text headers and a text
  body, the response carries exactly these headers (the last value per name), no trailers and that
  body; the headers the configuration produced are gone. When the function raises an error with a
  text message, the message becomes the body and no header is left.\<close>

theorem update_response_with_lua_contract:
  assumes "luaState r = Some st" and "lua_callable U st"
    and "call = lua_call_of r rqh rqb rsh rsb"
  shows "(lua_customize U st call = Inr (LTable (string_entries kvs), LString body) \<longrightarrow>
            update_response_with_lua U r rqh rqb rsh tr rsb
              = Inr (\<lparr>lo_ret = True, lo_headers = fold (\<lambda>(k, v). map_assign (<) k v) kvs [],
                      lo_trailers = [], lo_body = body\<rparr>,
                     r\<lparr>luaState := Some (fst st, snd st @ [call])\<rparr>))
    \<and> (lua_customize U st call = Inl (LString err) \<longrightarrow>
            update_response_with_lua U r rqh rqb rsh tr rsb
              = Inr (\<lparr>lo_ret = True, lo_headers = [], lo_trailers = [], lo_body = err\<rparr>,
                     r\<lparr>luaState := Some (fst st, snd st @ [call])\<rparr>))"
  using assms by (auto simp: update_response_with_lua_def lua_table_into_strings Let_def)

theorem update_response_with_lua_contract_witness:
  "update_response_with_lua plain_lua sample_response [] ''in'' [(''old'', ''x'')] [] ''out''
   = Inr (\<lparr>lo_ret = True, lo_headers = [(''test'', ''v'')], lo_trailers = [], lo_body = ''out''\<rparr>,
       sample_response\<lparr>luaState :=
         Some (''f'', [lua_call_of sample_response [] ''in'' [(''old'', ''x'')] ''out''])\<rparr>)"
proof -
  let ?c = "lua_call_of sample_response [] ''in'' [(''old'', ''x'')] ''out''"
  have st: "luaState sample_response = Some (''f'', [])" by (simp add: sample_response_def)
  have ok: "lua_callable plain_lua (''f'', [])" by (simp add: plain_lua_def)
  have res: "lua_customize plain_lua (''f'', []) ?c = Inr (LTable (string_entries [(''test'', ''v'')]), LString ''out'')"
    by (simp add: plain_lua_def string_entries_def lua_call_of_def)
  show ?thesis
    using update_response_with_lua_contract [OF st ok refl, of "[]" "''in''" "[(''old'', ''x'')]" "''out''"
        "[(''test'', ''v'')]" "''out''" "[]"] res by simp
qed

text \<open>The throttle decision of a thread uses the ratio of the first throttled response the thread
  ever evaluated: once that value is stored, two responses with positive ratios are dropped on the
  same draws, whatever their own ratios are. Before that, a response is dropped on exactly
  \<^verbatim>\<open>ratio * 10000\<close> of the million equally likely draws (or all, above one hundred percent).\<close>

lemma throttle_ratio_is_per_thread:
  assumes "dbl_positive (throttle_ratio r)" and "dbl_positive (throttle_ratio r')"
  shows "is_response_throttled r (Some s) draw = is_response_throttled r' (Some s) draw
    \<and> card {d. d < 1000000 \<and> fst (is_response_throttled r None d)} = min 1000000 (scaled_ratio (throttle_ratio r))"
proof -
  have "{d. d < 1000000 \<and> fst (is_response_throttled r None d)}
      = {..< min 1000000 (scaled_ratio (throttle_ratio r))}"
    using assms(1) by (auto simp: is_response_throttled_def Let_def)
  then show ?thesis using assms by (simp add: is_response_throttled_def)
qed

lemma throttle_ratio_is_per_thread_witness:
  "is_response_throttled (sample_response\<lparr>throttle_ratio := Finite False 1 0\<rparr>) (Some 500000) 499999
   = is_response_throttled (sample_response\<lparr>throttle_ratio := Finite False 50 0\<rparr>) (Some 500000) 499999
   \<and> card {d. d < 1000000 \<and> fst (is_response_throttled
        (sample_response\<lparr>throttle_ratio := Finite False 1 0\<rparr>) None d)} = 10000"
proof -
  have b: "bit_length 10000 = 14" by (simp add: bit_length.simps)
  have "scaled_ratio (Finite False 1 0) = 10000" by (simp add: scaled_ratio_def round_53_def b Let_def)
  then show ?thesis
    using throttle_ratio_is_per_thread [of "sample_response\<lparr>throttle_ratio := Finite False 1 0\<rparr>"
        "sample_response\<lparr>throttle_ratio := Finite False 50 0\<rparr>" 500000 499999]
    by (simp add: dbl_positive_def)
qed

text \<open>Every generated identifier has the layout of a version 4 UUID: 36 characters, dashes at
  positions 8, 13, 18 and 23, the version digit 4, a variant digit from 8 to b, and hexadecimal
  digits elsewhere.\<close>

lemma generate_uuid_v4_format:
  "length (fst (generate_uuid_v4 g)) = 36
   \<and> (\<exists>a b c v d e. fst (generate_uuid_v4 g) = a @ ''-'' @ b @ ''-4'' @ c @ ''-'' @ [v] @ d @ ''-'' @ e
      \<and> map length [a, b, c, d, e] = [8, 4, 3, 3, 12] \<and> list_all is_hex (a @ b @ c @ d @ e)
      \<and> v \<in> set ''89ab'')"
proof -
  obtain a g1 where a: "random_hex 8 g = (a, g1)" by fastforce
  obtain b g2 where b: "random_hex 4 g1 = (b, g2)" by fastforce
  obtain c g3 where c: "random_hex 3 g2 = (c, g3)" by fastforce
  obtain v g4 where v: "uniform_int 8 11 g3 = (v, g4)" by fastforce
  obtain d g5 where d: "random_hex 3 g4 = (d, g5)" by fastforce
  obtain e g6 where e: "random_hex 12 g5 = (e, g6)" by fastforce
  have u: "fst (generate_uuid_v4 g) = a @ ''-'' @ b @ ''-4'' @ c @ ''-'' @ [hex_digit v] @ d @ ''-'' @ e"
    by (simp add: generate_uuid_v4_def a b c v d e)
  have l: "map length [a, b, c, d, e] = [8, 4, 3, 3, 12]" "list_all is_hex (a @ b @ c @ d @ e)"
    using random_hex_spec [of 8 g] random_hex_spec [of 4 g1] random_hex_spec [of 3 g2]
      random_hex_spec [of 3 g4] random_hex_spec [of 12 g5] by (simp_all add: a b c d e)
  have "v \<in> {8, 9, 10, 11}" using uniform_int_range [of 8 11 g3] by (auto simp: v)
  then have "hex_digit v \<in> set ''89ab''" by (auto simp: hex_digit_def)
  with u l have "fst (generate_uuid_v4 g) = a @ ''-'' @ b @ ''-4'' @ c @ ''-'' @ [hex_digit v] @ d @ ''-'' @ e
      \<and> map length [a, b, c, d, e] = [8, 4, 3, 3, 12] \<and> list_all is_hex (a @ b @ c @ d @ e)
      \<and> hex_digit v \<in> set ''89ab''" by blast
  then have "\<exists>a b c v d e. fst (generate_uuid_v4 g) = a @ ''-'' @ b @ ''-4'' @ c @ ''-'' @ [v] @ d @ ''-'' @ e
      \<and> map length [a, b, c, d, e] = [8, 4, 3, 3, 12] \<and> list_all is_hex (a @ b @ c @ d @ e)
      \<and> v \<in> set ''89ab''" by (intro exI)
  moreover have "length (fst (generate_uuid_v4 g)) = 36" using l by (simp add: u)
  ultimately show ?thesis by (rule conjI [rotated])
qed

end
