(* ===== verification/Server.thy ===== *)
theory Server
  imports Match_Rule Response
begin

text \<open>
  The mock server's decision (\<^verbatim>\<open>H2Server.h\<close>): groups of weighted responses, the services ordered by
  their requests, the numbering of the rules that the memo of a message relies on, the choice of the
  best fitting service and of one of its responses.
\<close>

section \<open>Response groups\<close>

text \<open>A request processor is a callback installed by an embedding program; here, its number.\<close>

record H2Server_Response_Group =
  responses :: "H2Server_Response list"
  distribution_map :: "(u64 \<times> nat) list"
  total_weight :: u64
  request_processor :: "nat option"

fun distribution_loop :: "H2Server_Response list \<Rightarrow> nat \<Rightarrow> u64 \<Rightarrow> (u64 \<times> nat) list \<Rightarrow> (u64 \<times> nat) list" where
  "distribution_loop [] index totalWeight m = m"
| "distribution_loop (r # rs) index totalWeight m =
     (if rs_weight r \<noteq> 0
      then distribution_loop rs (Suc index) (totalWeight + ucast (rs_weight r))
             (map_assign (<) (totalWeight + ucast (rs_weight r)) index m)
      else distribution_loop rs (Suc index) totalWeight m)"

definition init_distribution_map_and_total_weight :: "H2Server_Response_Group \<Rightarrow> H2Server_Response_Group" where
  "init_distribution_map_and_total_weight g =
     (let m = distribution_loop (responses g) 0 0 (distribution_map g)
      in g\<lparr>distribution_map := m, total_weight := (if m \<noteq> [] then fst (last m) else 1)\<rparr>)"

fun init_responses :: "lib \<Rightarrow> lua_lib \<Rightarrow> file_system \<Rightarrow> Schema_Response_To_Return list \<Rightarrow> nat
    \<Rightarrow> H2Server_Response list result" where
  "init_responses L U fs [] i = Inr []"
| "init_responses L U fs (s # ss) i =
     rbind (H2Server_Response_init L U fs s i) (\<lambda>r.
       rbind (init_responses L U fs ss (Suc i)) (\<lambda>rs. Inr (r # rs)))"

definition H2Server_Response_Group_init ::
    "lib \<Rightarrow> lua_lib \<Rightarrow> file_system \<Rightarrow> Schema_Response_To_Return list \<Rightarrow> H2Server_Response_Group result" where
  "H2Server_Response_Group_init L U fs schema =
     rbind (init_responses L U fs schema 0) (\<lambda>rs.
       Inr (init_distribution_map_and_total_weight
              \<lparr>responses = rs, distribution_map = [], total_weight = 0, request_processor = None\<rparr>))"

text \<open>\<^verbatim>\<open>distr\<close> yields an \<^verbatim>\<open>int\<close> from 0 up to this bound (the conversion of \<^verbatim>\<open>total_weight - 1\<close>).\<close>

definition distr_upper :: "H2Server_Response_Group \<Rightarrow> int" where
  "distr_upper g = sint (ucast (total_weight g - 1) :: 32 word)"

definition select_response :: "H2Server_Response_Group \<Rightarrow> u64 \<Rightarrow> nat" where
  "select_response g randomNumber =
     (let response_index = (if distribution_map g \<noteq> [] then snd (hd (distribution_map g)) else 0)
      in if 1 < length (distribution_map g)
         then (case map_upper_bound (<) randomNumber (distribution_map g) of
                 Some i \<Rightarrow> i | None \<Rightarrow> response_index)
         else response_index)"

definition set_request_processor :: "nat \<Rightarrow> H2Server_Response_Group \<Rightarrow> H2Server_Response_Group" where
  "set_request_processor p g = g\<lparr>request_processor := Some p\<rparr>"

definition clear_request_processor :: "H2Server_Response_Group \<Rightarrow> H2Server_Response_Group" where
  "clear_request_processor g = g\<lparr>request_processor := None\<rparr>"

section \<open>The server\<close>

type_synonym services = "(H2Server_Request \<times> H2Server_Response_Group) list"

definition H2Server_Service_init ::
    "lib \<Rightarrow> lua_lib \<Rightarrow> file_system \<Rightarrow> nat \<Rightarrow> Schema_Service \<Rightarrow> nat
      \<Rightarrow> (H2Server_Request \<times> H2Server_Response_Group) result" where
  "H2Server_Service_init L U fs unset_id s index =
     rbind (H2Server_Response_Group_init L U fs (sv_responses s)) (\<lambda>g.
       Inr (H2Server_Request_init L unset_id (sv_request s) index, g))"

definition all_rules :: "services \<Rightarrow> Match_Rule list" where
  "all_rules svs = fold (\<lambda>sv. fold (set_insert rule_less) (match_rules (fst sv))) svs []"

definition number_rules :: "Match_Rule list \<Rightarrow> H2Server_Request \<Rightarrow> H2Server_Request" where
  "number_rules all q =
     q\<lparr>match_rules := map (\<lambda>r. r\<lparr>unique_id := set_index rule_less r all\<rparr>) (match_rules q)\<rparr>"

definition build_match_rule_unique_id :: "services \<Rightarrow> services" where
  "build_match_rule_unique_id svs =
     (let all_match_rules = all_rules svs
      in fold (\<lambda>sv. map_insert request_less (number_rules all_match_rules (fst sv)) (snd sv)) svs [])"

fun insert_services :: "lib \<Rightarrow> lua_lib \<Rightarrow> file_system \<Rightarrow> nat \<Rightarrow> Schema_Service list \<Rightarrow> nat
    \<Rightarrow> services \<Rightarrow> services result" where
  "insert_services L U fs unset_id [] index svs = Inr svs"
| "insert_services L U fs unset_id (s # ss) index svs =
     rbind (H2Server_Service_init L U fs unset_id s index) (\<lambda>(q, g).
       insert_services L U fs unset_id ss (Suc index) (map_insert request_less q g svs))"

definition H2Server_init ::
    "lib \<Rightarrow> lua_lib \<Rightarrow> file_system \<Rightarrow> nat \<Rightarrow> H2Server_Config_Schema \<Rightarrow> services result" where
  "H2Server_init L U fs unset_id config =
     rbind (insert_services L U fs unset_id (service config) 0 [])
       (\<lambda>svs. Inr (build_match_rule_unique_id svs))"

fun first_match :: "lib \<Rightarrow> services \<Rightarrow> H2Server_Request_Message
    \<Rightarrow> ((H2Server_Request \<times> H2Server_Response_Group) option \<times> H2Server_Request_Message) result" where
  "first_match L [] msg = Inr (None, msg)"
| "first_match L (sv # svs) msg =
     rbind (request_match L (fst sv) msg) (\<lambda>(b, m).
       if b then Inr (Some sv, m) else first_match L svs m)"

text \<open>The matched service (\<^term>\<open>None\<close> for \<^verbatim>\<open>rend()\<close>), the matched request index (-1 when there is none)
  and the message afterwards.\<close>

definition get_matched_request :: "lib \<Rightarrow> services \<Rightarrow> H2Server_Request_Message
    \<Rightarrow> ((H2Server_Request \<times> H2Server_Response_Group) option \<times> int \<times> H2Server_Request_Message) result" where
  "get_matched_request L svs msg =
     rbind (first_match L (rev svs) msg) (\<lambda>(sv, m).
       Inr (sv, (case sv of Some s \<Rightarrow> int (request_index (fst s)) | None \<Rightarrow> - 1), m))"

definition get_response_to_return ::
    "H2Server_Response_Group \<Rightarrow> u64 \<Rightarrow> (H2Server_Response \<times> nat) result" where
  "get_response_to_return g randomNumber =
     (let index = select_response g randomNumber
      in if index < length (responses g) then Inr (responses g ! index, index) else Inl Out_Of_Bounds)"

definition get_response_for_message :: "lib \<Rightarrow> services \<Rightarrow> H2Server_Request_Message \<Rightarrow> u64
    \<Rightarrow> ((H2Server_Response \<times> nat \<times> nat) option \<times> H2Server_Request_Message) result" where
  "get_response_for_message L svs msg randomNumber =
     rbind (first_match L (rev svs) msg) (\<lambda>(sv, m).
       case sv of
         None \<Rightarrow> Inr (None, m)
       | Some s \<Rightarrow> rbind (get_response_to_return (snd s) randomNumber)
           (\<lambda>(r, i). Inr (Some (r, request_index (fst s), i), m)))"

section \<open>The weighted choice\<close>

fun entries :: "H2Server_Response list \<Rightarrow> nat \<Rightarrow> u64 \<Rightarrow> (u64 \<times> nat) list" where
  "entries [] index tot = []"
| "entries (r # rs) index tot =
     (if rs_weight r \<noteq> 0 then (tot + ucast (rs_weight r), index) # entries rs (Suc index) (tot + ucast (rs_weight r))
      else entries rs (Suc index) tot)"

definition weight_sum :: "H2Server_Response list \<Rightarrow> nat" where
  "weight_sum rs = (\<Sum>r \<leftarrow> rs. unat (rs_weight r))"

lemma weight_sum_simps [simp]:
  "weight_sum [] = 0" "weight_sum (r # rs) = unat (rs_weight r) + weight_sum rs"
  by (simp_all add: weight_sum_def)

lemma unat_ucast_u32 [simp]: "unat (ucast (x :: u32) :: u64) = unat x"
proof -
  have "unat x < 2 ^ LENGTH(32)" by (rule unsigned_less)
  then show ?thesis by (simp add: unsigned_ucast_eq take_bit_nat_eq_self)
qed

lemma unat_add_weight:
  "unat (tot :: u64) + unat (w :: u32) < 2 ^ 64 \<Longrightarrow> unat (tot + ucast w) = unat tot + unat w"
  by (simp add: unat_word_ariths)

lemma map_assign_append:
  "\<forall>p \<in> set m. fst p < (k :: 'k :: linorder) \<Longrightarrow> map_assign (<) k v m = m @ [(k, v)]"
proof (induction m)
  case (Cons p m)
  then show ?case by (cases p) (auto simp: not_less_iff_gr_or_eq)
qed simp

lemma distribution_loop_entries:
  assumes "\<forall>p \<in> set m. fst p \<le> tot" and "unat tot + weight_sum rs < 2 ^ 64"
  shows "distribution_loop rs i tot m = m @ entries rs i tot"
  using assms
proof (induction rs arbitrary: i tot m)
  case (Cons r rs)
  show ?case
  proof (cases "rs_weight r = 0")
    case True
    then show ?thesis using Cons by simp
  next
    case False
    let ?t = "tot + ucast (rs_weight r)"
    have u: "unat ?t = unat tot + unat (rs_weight r)" using Cons.prems(2) by (intro unat_add_weight) simp
    have "0 < unat (rs_weight r)" using False by (simp add: unat_gt_0)
    then have lt: "tot < ?t" using u by (simp add: word_less_nat_alt)
    have "map_assign (<) ?t i m = m @ [(?t, i)]"
      by (rule map_assign_append) (use Cons.prems(1) lt in auto)
    moreover have "\<forall>p \<in> set (m @ [(?t, i)]). fst p \<le> ?t" using Cons.prems(1) lt by auto
    moreover have "unat ?t + weight_sum rs < 2 ^ 64" using u Cons.prems(2) by simp
    ultimately show ?thesis using Cons.IH False by simp
  qed
qed simp

text \<open>The draws, from \<open>n\<close> on, that select the response at position \<open>i\<close>.\<close>

definition chosen :: "(u64 \<times> nat) list \<Rightarrow> nat \<Rightarrow> nat \<Rightarrow> nat \<Rightarrow> nat set" where
  "chosen m n w i = {r. n \<le> r \<and> r < n + w \<and> map_upper_bound (<) (word_of_nat r :: u64) m = Some i}"

lemma chosen_finite [simp]: "finite (chosen m n w i)"
  by (rule finite_subset [of _ "{..< n + w}"]) (auto simp: chosen_def)

lemma word_of_nat_less_64:
  "r < 2 ^ 64 \<Longrightarrow> (word_of_nat r :: u64) < k \<longleftrightarrow> r < unat k"
  by (simp add: word_less_nat_alt unsigned_of_nat take_bit_nat_eq_self)

lemma card_chosen:
  assumes "unat tot + weight_sum rs < 2 ^ 64"
  shows "card (chosen (entries rs k tot) (unat tot) (weight_sum rs) i)
    = (if k \<le> i \<and> i < k + length rs then unat (rs_weight (rs ! (i - k))) else 0)"
  using assms
proof (induction rs arbitrary: k tot)
  case Nil
  then show ?case by (simp add: chosen_def)
next
  case (Cons r rs)
  have nth: "(r # rs) ! (i - k) = (if i = k then r else rs ! (i - Suc k))" if "k \<le> i" for i
    using that by (simp add: nth_Cons')
  show ?case
  proof (cases "rs_weight r = 0")
    case True
    then show ?thesis using Cons nth by auto
  next
    case False
    let ?w = "unat (rs_weight r)" and ?t = "tot + ucast (rs_weight r)"
    have u: "unat ?t = unat tot + ?w" using Cons.prems by (intro unat_add_weight) simp
    have lt: "(word_of_nat x < ?t) \<longleftrightarrow> x < unat tot + ?w"
      if "x < unat tot + (?w + weight_sum rs)" for x
      using that Cons.prems by (simp add: word_of_nat_less_64 u)
    have split: "chosen (entries (r # rs) k tot) (unat tot) (weight_sum (r # rs)) i
        = (if i = k then {unat tot ..< unat tot + ?w} else {})
          \<union> chosen (entries rs (Suc k) ?t) (unat ?t) (weight_sum rs) i"
      using False by (auto simp: chosen_def u lt split: if_splits)
    have disj: "(if i = k then {unat tot ..< unat tot + ?w} else {})
        \<inter> chosen (entries rs (Suc k) ?t) (unat ?t) (weight_sum rs) i = {}"
      by (auto simp: chosen_def u)
    have IH: "card (chosen (entries rs (Suc k) ?t) (unat ?t) (weight_sum rs) i)
        = (if Suc k \<le> i \<and> i < Suc k + length rs then unat (rs_weight (rs ! (i - Suc k))) else 0)"
      by (rule Cons.IH) (use Cons.prems u in simp)
    show ?thesis
      unfolding split using card_Un_disjoint [OF _ _ disj] IH nth [of i] by auto
  qed
qed

lemma entries_nonzero:
  "(kk, i) \<in> set (entries rs k tot) \<Longrightarrow> k \<le> i \<and> i < k + length rs \<and> rs_weight (rs ! (i - k)) \<noteq> 0"
proof (induction rs arbitrary: k tot)
  case (Cons r rs)
  then consider "i = k" "rs_weight r \<noteq> 0" | tot' where "(kk, i) \<in> set (entries rs (Suc k) tot')"
    by (auto split: if_splits)
  then show ?case
  proof cases
    case 1
    then show ?thesis by simp
  next
    case 2
    from Cons.IH [OF 2] show ?thesis by (auto simp: nth_Cons')
  qed
qed simp

lemma entries_empty_iff: "entries rs k tot = [] \<longleftrightarrow> weight_sum rs = 0"
  by (induction rs arbitrary: k tot) (auto simp: unat_eq_0)

lemma last_entries:
  "entries rs k tot \<noteq> [] \<Longrightarrow> unat tot + weight_sum rs < 2 ^ 64
    \<Longrightarrow> unat (fst (last (entries rs k tot))) = unat tot + weight_sum rs"
proof (induction rs arbitrary: k tot)
  case (Cons r rs)
  show ?case
  proof (cases "rs_weight r = 0")
    case True
    then show ?thesis using Cons by simp
  next
    case False
    let ?t = "tot + ucast (rs_weight r)"
    have u: "unat ?t = unat tot + unat (rs_weight r)" using Cons.prems(2) by (intro unat_add_weight) simp
    show ?thesis
    proof (cases "entries rs (Suc k) ?t = []")
      case True
      then show ?thesis using False u by (simp add: entries_empty_iff)
    next
      case e: False
      then show ?thesis using False u Cons.IH [OF e] Cons.prems(2) by simp
    qed
  qed
qed simp

lemma upper_bound_in_set: "map_upper_bound lt k m = Some i \<Longrightarrow> \<exists>kk. (kk, i) \<in> set m"
proof (induction m)
  case (Cons p m)
  then show ?case by (cases p) (auto split: if_splits)
qed simp

text \<open>A group is well formed when its distribution map is the one of its responses.\<close>

definition group_wf :: "H2Server_Response_Group \<Rightarrow> bool" where
  "group_wf g \<longleftrightarrow> weight_sum (responses g) < 2 ^ 64 \<and> distribution_map g = entries (responses g) 0 0
     \<and> unat (total_weight g) = (if weight_sum (responses g) = 0 then 1 else weight_sum (responses g))"

lemma init_distribution_wf:
  assumes "distribution_map g = []" and "weight_sum (responses g) < 2 ^ 64"
  shows "group_wf (init_distribution_map_and_total_weight g)"
proof -
  have "distribution_loop (responses g) 0 0 [] = entries (responses g) 0 0"
    using distribution_loop_entries [of "[]" 0 "responses g" 0] assms(2) by simp
  then show ?thesis using assms last_entries [of "responses g" 0 0]
    by (auto simp: group_wf_def init_distribution_map_and_total_weight_def Let_def entries_empty_iff)
qed

lemma init_responses_length: "init_responses L U fs ss i = Inr rs \<Longrightarrow> length rs = length ss"
  by (induction ss arbitrary: i rs) auto

lemma init_responses_weights:
  "init_responses L U fs ss i = Inr rs \<Longrightarrow> map rs_weight rs = map sr_weight ss"
  by (induction ss arbitrary: i rs) (auto dest: H2Server_Response_init_fields)

lemma weight_sum_bound: "weight_sum rs \<le> length rs * (2 ^ 32 - 1)"
proof (induction rs)
  case (Cons r rs)
  have "unat (rs_weight r) < 2 ^ LENGTH(32)" by (rule unsigned_less)
  then show ?case using Cons by simp
qed simp

lemma group_init_wf:
  assumes "H2Server_Response_Group_init L U fs ss = Inr g" and "length ss \<le> 2 ^ 32"
  shows "group_wf g" and "map rs_weight (responses g) = map sr_weight ss"
proof -
  from assms(1) obtain rs where rs: "init_responses L U fs ss 0 = Inr rs"
    and g: "g = init_distribution_map_and_total_weight
        \<lparr>responses = rs, distribution_map = [], total_weight = 0, request_processor = None\<rparr>"
    by (auto simp: H2Server_Response_Group_init_def)
  have "length rs * (2 ^ 32 - 1) \<le> 2 ^ 32 * (2 ^ 32 - 1)"
    using init_responses_length [OF rs] assms(2) by (intro mult_right_mono) simp_all
  then have "weight_sum rs < 2 ^ 64" using weight_sum_bound [of rs] by simp
  then show "group_wf g" using g by (simp add: init_distribution_wf)
  show "map rs_weight (responses g) = map sr_weight ss"
    using g init_responses_weights [OF rs]
    by (simp add: init_distribution_map_and_total_weight_def Let_def)
qed

lemma select_response_upper_bound:
  assumes wf: "group_wf g" and r: "r < weight_sum (responses g)"
  shows "map_upper_bound (<) (word_of_nat r) (distribution_map g)
    = Some (select_response g (word_of_nat r))"
proof -
  let ?m = "distribution_map g"
  have m: "?m = entries (responses g) 0 0" and b: "weight_sum (responses g) < 2 ^ 64"
    using wf by (simp_all add: group_wf_def)
  have ne: "?m \<noteq> []" using r m by (simp add: entries_empty_iff)
  have lastm: "unat (fst (last ?m)) = weight_sum (responses g)"
    using last_entries [of "responses g" 0 0] ne m b by simp
  have lt: "(word_of_nat r :: u64) < fst (last ?m)" using r b lastm by (simp add: word_of_nat_less_64)
  have ex: "\<exists>i. map_upper_bound (<) (word_of_nat r :: u64) xs = Some i"
    if "p \<in> set xs" "word_of_nat r < fst p" for xs p
    using that by (induction xs rule: map_upper_bound.induct
        [where ?a0.0 = "(<) :: u64 \<Rightarrow> u64 \<Rightarrow> bool" and ?a1.0 = "word_of_nat r"]) auto
  obtain i where i: "map_upper_bound (<) (word_of_nat r :: u64) ?m = Some i"
    using ex [of "last ?m" ?m] ne lt by auto
  show ?thesis
  proof (cases "1 < length ?m")
    case True
    then show ?thesis using i by (simp add: select_response_def)
  next
    case False
    then obtain p where p: "?m = [p]" using ne by (cases ?m) auto
    then show ?thesis using lt by (cases p) (simp add: select_response_def)
  qed
qed

section \<open>Numbering and matching\<close>

lemma number_rules_key [simp]: "request_key (number_rules a q) = request_key q"
  by (simp add: request_key_def number_rules_def rev_map comp_def rule_key_def rule_text_def)

lemma number_rules_equivalent: "equivalent request_less (number_rules a q) q"
  by (simp add: rq.equivalent_key)

lemma build_match_rule_unique_id_eq:
  assumes "map_ordered request_less svs"
  shows "build_match_rule_unique_id svs = map (\<lambda>sv. (number_rules (all_rules svs) (fst sv), snd sv)) svs"
  using rq.fold_map_insert_ordered [of "[]" svs "number_rules (all_rules svs)"] assms number_rules_equivalent
  by (simp add: build_match_rule_unique_id_def Let_def)

lemma fold_fold_keeps:
  "set xs \<subseteq> set (fold (\<lambda>sv. fold (set_insert rule_less) (match_rules (fst sv))) svs xs)"
proof (induction svs arbitrary: xs)
  case (Cons sv svs)
  then show ?case using ro.fold_set_insert_keeps [of xs "match_rules (fst sv)"] by fastforce
qed simp

lemma fold_fold_has:
  assumes "sv \<in> set svs" and "r \<in> set (match_rules (fst sv))"
  shows "\<exists>z \<in> set (fold (\<lambda>sv. fold (set_insert rule_less) (match_rules (fst sv))) svs xs).
    equivalent rule_less r z"
  using assms(1)
proof (induction svs arbitrary: xs)
  case (Cons s svs)
  show ?case
  proof (cases "sv = s")
    case True
    then show ?thesis
      using ro.fold_set_insert_has [OF assms(2), of xs]
        fold_fold_keeps [of "fold (set_insert rule_less) (match_rules (fst s)) xs" svs] by auto
  next
    case False
    then show ?thesis using Cons by simp
  qed
qed simp

lemma all_rules_has:
  "sv \<in> set svs \<Longrightarrow> r \<in> set (match_rules (fst sv)) \<Longrightarrow> \<exists>z \<in> set (all_rules svs). equivalent rule_less r z"
  unfolding all_rules_def by (rule fold_fold_has)

definition server_rules :: "services \<Rightarrow> Match_Rule set" where
  "server_rules svs = (\<Union>sv \<in> set svs. set (match_rules (fst sv)))"

text \<open>No two rules with different tests compare as equivalent.\<close>

definition collision_free :: "services \<Rightarrow> bool" where
  "collision_free svs \<longleftrightarrow>
     (\<forall>r \<in> server_rules svs. \<forall>s \<in> server_rules svs. rule_key r = rule_key s \<longrightarrow> rule_test r = rule_test s)"

definition rule_ids_ok :: "services \<Rightarrow> bool" where
  "rule_ids_ok svs \<longleftrightarrow> (\<forall>r \<in> server_rules svs. \<forall>s \<in> server_rules svs.
     unique_id r = unique_id s \<longleftrightarrow> rule_key r = rule_key s)"

lemma build_ids_ok:
  assumes "map_ordered request_less svs"
  shows "rule_ids_ok (build_match_rule_unique_id svs)"
proof -
  let ?all = "all_rules svs"
  have src: "\<exists>r'. unique_id r = set_index rule_less r' ?all \<and> rule_key r = rule_key r'
      \<and> (\<exists>z \<in> set ?all. equivalent rule_less r' z)"
    if "r \<in> server_rules (build_match_rule_unique_id svs)" for r
  proof -
    from that obtain sv r' where sv: "sv \<in> set svs" "r' \<in> set (match_rules (fst sv))"
      and r: "r = r'\<lparr>unique_id := set_index rule_less r' ?all\<rparr>"
      by (auto simp: server_rules_def build_match_rule_unique_id_eq [OF assms] number_rules_def)
    show ?thesis
      by (rule exI [of _ r']) (use r all_rules_has [OF sv] in \<open>simp add: rule_key_def rule_text_def\<close>)
  qed
  show ?thesis
    unfolding rule_ids_ok_def
  proof (intro ballI)
    fix r s
    assume "r \<in> server_rules (build_match_rule_unique_id svs)"
      and "s \<in> server_rules (build_match_rule_unique_id svs)"
    then obtain r' s' where r': "unique_id r = set_index rule_less r' ?all" "rule_key r = rule_key r'"
        "\<exists>z \<in> set ?all. equivalent rule_less r' z"
      and s': "unique_id s = set_index rule_less s' ?all" "rule_key s = rule_key s'"
        "\<exists>z \<in> set ?all. equivalent rule_less s' z"
      using src by meson
    show "unique_id r = unique_id s \<longleftrightarrow> rule_key r = rule_key s"
      using ro.set_index_eq_iff [OF r'(3) s'(3)] by (simp add: r' s' ro.equivalent_key)
  qed
qed

lemma ids_faithful_if: "rule_ids_ok svs \<Longrightarrow> collision_free svs \<Longrightarrow> ids_faithful (server_rules svs)"
  unfolding rule_ids_ok_def collision_free_def ids_faithful_def by blast

lemma insert_services_ordered:
  "map_ordered request_less svs \<Longrightarrow> insert_services L U fs u ss i svs = Inr svs'
    \<Longrightarrow> map_ordered request_less svs'"
proof (induction ss arbitrary: i svs)
  case (Cons s ss)
  then obtain q g where "insert_services L U fs u ss (Suc i) (map_insert request_less q g svs) = Inr svs'"
    by auto
  then show ?case using Cons.IH rq.map_insert_ordered [OF Cons.prems(1)] by blast
qed simp

text \<open>The invariant a constructed server has.\<close>

definition server_wf :: "services \<Rightarrow> bool" where
  "server_wf svs \<longleftrightarrow> map_ordered request_less svs \<and> rule_ids_ok svs"

lemma build_ordered:
  assumes "map_ordered request_less svs"
  shows "map_ordered request_less (build_match_rule_unique_id svs)"
proof -
  have "sorted_wrt (\<lambda>x y. request_less (number_rules a x) (number_rules a y)) (map fst svs)" for a
    by (rule sorted_wrt_mono_rel [OF _ assms]) (simp add: request_less_key)
  then show ?thesis
    by (simp add: build_match_rule_unique_id_eq [OF assms] sorted_wrt_map comp_def)
qed

lemma H2Server_init_wf: "H2Server_init L U fs u config = Inr svs \<Longrightarrow> server_wf svs"
  using insert_services_ordered [of "[]"] build_ids_ok build_ordered
  by (auto simp: H2Server_init_def server_wf_def)

text \<open>The first service of a list, if any, whose rules all hold.\<close>

definition first_holding ::
    "lib \<Rightarrow> H2Server_Request_Message \<Rightarrow> services \<Rightarrow> (H2Server_Request \<times> H2Server_Response_Group) option \<Rightarrow> bool" where
  "first_holding L msg svs res \<longleftrightarrow>
     (case res of
        None \<Rightarrow> \<forall>sv \<in> set svs. \<not> request_holds L msg (fst sv)
      | Some sv \<Rightarrow> (\<exists>pre post. svs = pre @ sv # post \<and> request_holds L msg (fst sv)
          \<and> (\<forall>sv' \<in> set pre. \<not> request_holds L msg (fst sv'))))"

lemma first_holding_here: "request_holds L msg (fst s) \<Longrightarrow> first_holding L msg (s # svs) (Some s)"
  unfolding first_holding_def option.case by fastforce

lemma first_holding_later:
  assumes "\<not> request_holds L msg (fst s)" and "first_holding L msg svs res"
  shows "first_holding L msg (s # svs) res"
proof (cases res)
  case None
  then show ?thesis using assms by (simp add: first_holding_def)
next
  case (Some sv)
  then obtain pre post where "svs = pre @ sv # post" "request_holds L msg (fst sv)"
    "\<forall>sv' \<in> set pre. \<not> request_holds L msg (fst sv')"
    using assms(2) by (auto simp: first_holding_def)
  then have "s # svs = (s # pre) @ sv # post" "request_holds L msg (fst sv)"
    "\<forall>sv' \<in> set (s # pre). \<not> request_holds L msg (fst sv')" using assms(1) by auto
  then show ?thesis unfolding first_holding_def Some option.case by blast
qed

lemma first_holding_same: "same_request m m' \<Longrightarrow> first_holding L m' svs res = first_holding L m svs res"
  by (simp add: first_holding_def request_holds_same split: option.splits)

lemma first_match_ok:
  assumes "message_ok L R msg" and "ids_faithful R"
    and "\<forall>sv \<in> set svs. set (match_rules (fst sv)) \<subseteq> R"
    and "first_match L svs msg = Inr (res, msg')"
  shows "first_holding L msg svs res"
  using assms
proof (induction svs arbitrary: msg)
  case Nil
  then show ?case by (simp add: first_holding_def)
next
  case (Cons s svs)
  then obtain b m where b: "request_match L (fst s) msg = Inr (b, m)"
    and rest: "(if b then Inr (Some s, m) else first_match L svs m) = Inr (res, msg')" by auto
  have sub: "set (match_rules (fst s)) \<subseteq> R" using Cons.prems(3) by simp
  note M = request_match_ok [OF Cons.prems(1,2) sub b]
  show ?case
  proof (cases b)
    case True
    then have "res = Some s" and "request_holds L msg (fst s)" using rest M(1) by simp_all
    then show ?thesis by (simp only: first_holding_here)
  next
    case False
    have "first_holding L m svs res"
      using Cons.IH [OF M(2) Cons.prems(2)] Cons.prems(3) rest False by simp
    then show ?thesis using M(1) False first_holding_same [OF M(3)] first_holding_later by blast
  qed
qed

lemma sorted_rev_post:
  assumes "sorted_wrt P (map f xs)" and "rev xs = pre @ x # post" and "y \<in> set xs"
  shows "y \<in> set pre \<or> y = x \<or> P (f y) (f x)"
proof -
  have xs: "xs = rev post @ x # rev pre" using arg_cong [OF assms(2), of rev] by simp
  then show ?thesis using assms(1,3) by (auto simp: sorted_wrt_append)
qed

lemma request_less_length: "\<not> request_less q q' \<Longrightarrow> length (match_rules q') \<le> length (match_rules q)"
  by (auto simp: request_less_def split: if_splits)

text \<open>Without a fault in a rule, the search returns.\<close>

lemma match_request_total:
  assumes "message_wf L msg" and "rule_value L msg r = Inr v"
  shows "\<exists>b m. match_request L r msg = Inr (b, m) \<and> message_wf L m \<and> same_request msg m"
proof (cases "match_result msg (unique_id r)")
  case (Some c)
  then show ?thesis using assms(1) by (simp add: match_request_def)
next
  case None
  let ?m = "(rule_base L r msg)\<lparr>match_result := (match_result msg)(unique_id r \<mapsto> v)\<rparr>"
  have "message_wf L ?m" using assms(1) decode_wf [OF assms(1)]
    by (auto simp: rule_base_def message_wf_def message_doc_def split: option.splits)
  moreover have "same_request msg ?m" by (simp add: rule_base_def same_request_def)
  ultimately show ?thesis using assms by (simp add: match_request_fresh [OF None])
qed

lemma match_all_total:
  "message_wf L msg \<Longrightarrow> \<forall>r \<in> set rs. \<exists>v. rule_value L msg r = Inr v
    \<Longrightarrow> \<exists>b m. match_all L rs msg = Inr (b, m) \<and> message_wf L m \<and> same_request msg m"
proof (induction rs arbitrary: msg)
  case (Cons r rs)
  obtain b m where m: "match_request L r msg = Inr (b, m)" "message_wf L m" "same_request msg m"
    using match_request_total [OF Cons.prems(1)] Cons.prems(2) by (metis list.set_intros(1))
  have "\<forall>r \<in> set rs. \<exists>v. rule_value L m r = Inr v"
    using Cons.prems(2) rule_value_same [OF m(3)] by simp
  from Cons.IH [OF m(2) this] obtain b' m' where "match_all L rs m = Inr (b', m')"
    "message_wf L m'" "same_request m m'" by blast
  then show ?case using m same_request_trans by (cases b) auto
next
  case Nil
  then show ?case by (intro exI [of _ True] exI [of _ msg]) simp
qed

lemma first_match_total:
  "message_wf L msg \<Longrightarrow> \<forall>r \<in> server_rules svs. \<exists>v. rule_value L msg r = Inr v
    \<Longrightarrow> \<exists>res m. first_match L svs msg = Inr (res, m)"
proof (induction svs arbitrary: msg)
  case (Cons s svs)
  have "\<forall>r \<in> set (rev (match_rules (fst s))). \<exists>v. rule_value L msg r = Inr v"
    using Cons.prems(2) by (auto simp: server_rules_def)
  from match_all_total [OF Cons.prems(1) this] obtain b m where
    m: "request_match L (fst s) msg = Inr (b, m)" "message_wf L m" "same_request msg m"
    unfolding request_match_def by blast
  have "\<forall>r \<in> server_rules svs. \<exists>v. rule_value L m r = Inr v"
    using Cons.prems(2) rule_value_same [OF m(3)] by (simp add: server_rules_def)
  then show ?case using m Cons.IH [OF m(2)] by (cases b) auto
qed simp

text \<open>A small server with two services, for closed examples: one rule on the method; the same rule
  and one on the payload.\<close>

definition sample_schema :: "H2Server_Config_Schema" where
  "sample_schema = (H2Server_Config_Schema_init 8081 1)\<lparr>service :=
     [\<lparr>sv_request = \<lparr>header_match = [\<lparr>hm_matchType = ''EqualsTo'', hm_header = '':method'', hm_input = ''PUT''\<rparr>],
         payload_match = [], rm_name = ''a''\<rparr>, sv_responses = [sample_schema_response]\<rparr>,
      \<lparr>sv_request = \<lparr>header_match = [\<lparr>hm_matchType = ''EqualsTo'', hm_header = '':method'', hm_input = ''PUT''\<rparr>],
         payload_match = [\<lparr>pm_matchType = ''StartsWith'', pm_jsonPointer = [], pm_input = ''h''\<rparr>],
         rm_name = ''b''\<rparr>, sv_responses = [sample_schema_response]\<rparr>]\<rparr>"

definition sample_method_rule :: Match_Rule where
  "sample_method_rule = \<lparr>match_type = EQUALS_TO, header_name = '':method'', json_pointer = [],
     object = ''PUT'', unique_id = 1, reg_exp = None\<rparr>"

definition sample_payload_rule :: Match_Rule where
  "sample_payload_rule = \<lparr>match_type = START_WITH, header_name = [], json_pointer = [],
     object = ''h'', unique_id = 0, reg_exp = None\<rparr>"

definition sample_group :: H2Server_Response_Group where
  "sample_group = \<lparr>responses = [sample_response], distribution_map = [(1, 0)], total_weight = 1,
     request_processor = None\<rparr>"

definition sample_services :: services where
  "sample_services =
     [(\<lparr>match_rules = [sample_method_rule], rq_name = ''a'', request_index = 0\<rparr>, sample_group),
      (\<lparr>match_rules = [sample_payload_rule, sample_method_rule], rq_name = ''b'', request_index = 1\<rparr>,
       sample_group)]"

definition sample_request :: asio_server_request where
  "sample_request = asio_server_request_init\<lparr>req_method := ''PUT'', req_payload := ''hi''\<rparr>"

lemma sample_group_init:
  "H2Server_Response_Group_init plain_lib plain_lua (\<lambda>_. None) [sample_schema_response] = Inr sample_group"
  by (simp add: H2Server_Response_Group_init_def sample_response_init sample_group_def
      init_distribution_map_and_total_weight_def sample_response_def Let_def)

lemma sample_rule_less:
  "rule_less (sample_method_rule\<lparr>unique_id := i\<rparr>) (sample_payload_rule\<lparr>unique_id := j\<rparr>) = False"
  "rule_less (sample_payload_rule\<lparr>unique_id := j\<rparr>) (sample_method_rule\<lparr>unique_id := i\<rparr>) = True"
  "rule_less (sample_method_rule\<lparr>unique_id := i\<rparr>) (sample_method_rule\<lparr>unique_id := j\<rparr>) = False"
  "rule_less (sample_payload_rule\<lparr>unique_id := i\<rparr>) (sample_payload_rule\<lparr>unique_id := j\<rparr>) = False"
  by (simp_all add: rule_less_def rule_text_def sample_method_rule_def sample_payload_rule_def)

lemma sample_rules_of_schema:
  "Match_Rule_of_header plain_lib 0 \<lparr>hm_matchType = ''EqualsTo'', hm_header = '':method'', hm_input = ''PUT''\<rparr>
     = sample_method_rule\<lparr>unique_id := 0\<rparr>"
  "Match_Rule_of_payload plain_lib 0 \<lparr>pm_matchType = ''StartsWith'', pm_jsonPointer = [], pm_input = ''h''\<rparr>
     = sample_payload_rule\<lparr>unique_id := 0\<rparr>"
  by (simp_all add: Match_Rule_of_header_def Match_Rule_of_payload_def sample_method_rule_def
      sample_payload_rule_def string_to_match_type_def compile_regex_def)

lemma sample_server_init:
  "H2Server_init plain_lib plain_lua (\<lambda>_. None) 0 sample_schema = Inr sample_services"
proof -
  have m: "sample_method_rule\<lparr>unique_id := Suc 0\<rparr> = sample_method_rule"
    and p: "sample_payload_rule\<lparr>unique_id := 0\<rparr> = sample_payload_rule"
    by (simp_all add: sample_method_rule_def sample_payload_rule_def)
  show ?thesis
    using sample_rule_less(1,2) [of 0 0] sample_rule_less(3,4) [of 0 0]
    by (simp add: H2Server_init_def sample_schema_def H2Server_Config_Schema_init_def
        H2Server_Service_init_def sample_group_init H2Server_Request_init_def sample_rules_of_schema
        request_less_def build_match_rule_unique_id_def all_rules_def number_rules_def
        equivalent_def sample_services_def Let_def m p)
qed

lemma sample_rule_keys:
  "rule_key sample_method_rule = (True, True, ''0:methodPUT'')"
  "rule_key sample_payload_rule = (False, False, ''1h'')"
proof -
  have "nat_dec 0 = ''0''" "nat_dec 1 = ''1''" by code_simp+
  then show "rule_key sample_method_rule = (True, True, ''0:methodPUT'')"
    "rule_key sample_payload_rule = (False, False, ''1h'')"
    by (simp_all add: rule_key_def rule_text_def sample_method_rule_def sample_payload_rule_def)
qed

lemma sample_collision_free: "collision_free sample_services"
  using sample_rule_keys by (auto simp: collision_free_def server_rules_def sample_services_def)

text \<open>The upper end of the draw.\<close>

lemma sint_ucast_small: "unat (w :: u64) < 2 ^ 31 \<Longrightarrow> sint (ucast w :: u32) = int (unat w)"
proof -
  assume a: "unat w < 2 ^ 31"
  have n: "uint w = int (unat w)" by simp
  have "uint w < 2 ^ 31" unfolding n using a by (metis of_nat_less_iff of_nat_numeral of_nat_power)
  then have u: "uint (ucast w :: u32) = uint w" by (simp add: unsigned_ucast_eq take_bit_int_eq_self)
  have "- (2 ^ 31) \<le> uint w" by (rule order_trans [of _ 0]) simp_all
  from signed_take_bit_int_eq_self [OF this \<open>uint w < 2 ^ 31\<close>] u have "sint (ucast w :: u32) = uint w" by (simp add: sint_uint)
  then show ?thesis by simp
qed

lemma distr_upper_value:
  assumes "unat (total_weight g) = T" and "0 < T" and "T \<le> 2 ^ 31"
  shows "distr_upper g = int T - 1"
proof -
  have "unat (total_weight g - 1) = T - 1"
    using assms(1,2) by (metis unat_minus_one unsigned_0 less_numeral_extra(3))
  then show ?thesis using sint_ucast_small [of "total_weight g - 1"] assms(2,3) by (simp add: distr_upper_def)
qed

text \<open>The rules of a request while it is built.\<close>

lemma stored_rules_ordered: "set_ordered rule_less (fold (\<lambda>m. set_insert rule_less (Match_Rule_of_header L u m)) ms [])"
proof -
  have "set_ordered rule_less rs \<Longrightarrow> set_ordered rule_less (fold (\<lambda>m. set_insert rule_less (Match_Rule_of_header L u m)) ms rs)" for rs
    by (induction ms arbitrary: rs) (simp_all add: ro.set_insert_ordered)
  then show ?thesis by simp
qed

lemma stored_rule:
  "\<exists>y \<in> set (fold (\<lambda>m. set_insert rule_less (Match_Rule_of_header L u m)) (a # ms) rs). equivalent rule_less (Match_Rule_of_header L u a) y"
proof -
  have "set rs \<subseteq> set (fold (\<lambda>m. set_insert rule_less (Match_Rule_of_header L u m)) ms rs)" for rs
  proof (induction ms arbitrary: rs)
    case (Cons m ms)
    show ?case using order_trans [OF ro.set_insert_keeps Cons] by simp
  qed simp
  then have "set (set_insert rule_less (Match_Rule_of_header L u a) rs)
      \<subseteq> set (fold (\<lambda>m. set_insert rule_less (Match_Rule_of_header L u m)) (a # ms) rs)" by simp
  then show ?thesis using ro.set_insert_has [of "Match_Rule_of_header L u a" rs] by blast
qed

section \<open>Properties\<close>

text \<open>C2. Best fit. When a request message matches, the server answers from a service all of whose
  rules hold of the message, and no service with more rules (nor any that the order of requests
  ranks higher) has all its rules hold; when it answers that nothing matches, no service's rules
  all hold. The memo of rule results shared by the services never changes this, provided no two
  rules of the configuration with different tests compare as equivalent.\<close>

theorem get_matched_request_best_fit:
  assumes "H2Server_init L U fs unset_id config = Inr svs" and "collision_free svs"
    and "get_matched_request L svs (H2Server_Request_Message_init req) = Inr (res, index, msg')"
  shows "case res of
      None \<Rightarrow> index = - 1
        \<and> (\<forall>sv \<in> set svs. \<not> request_holds L (H2Server_Request_Message_init req) (fst sv))
    | Some sv \<Rightarrow> sv \<in> set svs \<and> index = int (request_index (fst sv))
        \<and> request_holds L (H2Server_Request_Message_init req) (fst sv)
        \<and> (\<forall>sv' \<in> set svs. request_holds L (H2Server_Request_Message_init req) (fst sv') \<longrightarrow>
             \<not> request_less (fst sv) (fst sv')
             \<and> length (match_rules (fst sv')) \<le> length (match_rules (fst sv)))"
proof -
  let ?msg = "H2Server_Request_Message_init req"
  have wf: "server_wf svs" by (rule H2Server_init_wf [OF assms(1)])
  obtain m where fm: "first_match L (rev svs) ?msg = Inr (res, m)"
    and idx: "index = (case res of Some s \<Rightarrow> int (request_index (fst s)) | None \<Rightarrow> - 1)"
    using assms(3) by (auto simp: get_matched_request_def)
  have sub: "\<forall>sv \<in> set (rev svs). set (match_rules (fst sv)) \<subseteq> server_rules svs"
    by (auto simp: server_rules_def)
  have ids: "ids_faithful (server_rules svs)"
    using ids_faithful_if wf assms(2) by (simp add: server_wf_def)
  have fh: "first_holding L ?msg (rev svs) res"
    by (rule first_match_ok [OF message_init_ok ids sub fm])
  show ?thesis
  proof (cases res)
    case None
    then show ?thesis using fh idx by (simp add: first_holding_def)
  next
    case (Some sv)
    then obtain pre post where pp: "rev svs = pre @ sv # post" "request_holds L ?msg (fst sv)"
      "\<forall>sv' \<in> set pre. \<not> request_holds L ?msg (fst sv')"
      using fh by (auto simp: first_holding_def)
    have mem: "sv \<in> set svs" using arg_cong [OF pp(1), of set] by simp
    have "\<not> request_less (fst sv) (fst sv')"
      if "sv' \<in> set svs" "request_holds L ?msg (fst sv')" for sv'
      using sorted_rev_post [of request_less fst svs, OF _ pp(1) that(1)] wf pp(3) that(2) rq.asym rq.irrefl
      by (auto simp: server_wf_def)
    then show ?thesis using Some mem pp(2) idx request_less_length by auto
  qed
qed

theorem get_matched_request_best_fit_witness:
  "\<exists>msg'. get_matched_request plain_lib sample_services (H2Server_Request_Message_init sample_request)
      = Inr (Some (sample_services ! 1), 1, msg')
    \<and> request_holds plain_lib (H2Server_Request_Message_init sample_request) (fst (sample_services ! 0))"
proof -
  let ?msg = "H2Server_Request_Message_init sample_request"
  have eq: "equal_range (<) '':method'' (msg_headers ?msg) = [''PUT'']"
    by (simp add: message_init_header) (simp add: sample_request_def asio_server_request_init_def)
  have raw: "raw_payload ?msg = ''hi''" "match_result ?msg = Map.empty"
    by (simp_all add: H2Server_Request_Message_init_def sample_request_def Let_def)
  have f: "str_find ''hi'' ''h'' 0 = Some 0" by code_simp
  obtain m where m: "get_matched_request plain_lib sample_services ?msg = Inr (Some (sample_services ! 1), 1, m)"
    using eq raw f
    by (simp add: get_matched_request_def sample_services_def request_match_def match_request_def
        sample_method_rule_def sample_payload_rule_def match_subject_def match_verb_def Let_def)
  have h: "request_holds plain_lib ?msg (fst (sample_services ! 0))"
    using eq by (simp add: request_holds_def sample_services_def sample_method_rule_def rule_value_def
        match_subject_def match_verb_def)
  show ?thesis
    using get_matched_request_best_fit [OF sample_server_init sample_collision_free m] m h by blast
qed

text \<open>The search always answers: when no rule's own test fails (only a JSON pointer can), the
  server reaches a decision for the message, whatever the memo holds.\<close>

lemma get_matched_request_total:
  assumes "message_wf L msg" and "\<forall>r \<in> server_rules svs. \<exists>v. rule_value L msg r = Inr v"
  shows "\<exists>res index msg'. get_matched_request L svs msg = Inr (res, index, msg')"
proof -
  have "\<forall>r \<in> server_rules (rev svs). \<exists>v. rule_value L msg r = Inr v"
    using assms(2) by (simp add: server_rules_def)
  from first_match_total [OF assms(1) this] show ?thesis by (auto simp: get_matched_request_def)
qed

lemma get_matched_request_total_witness:
  "\<exists>res index msg'. get_matched_request plain_lib sample_services
     (H2Server_Request_Message_init asio_server_request_init) = Inr (res, index, msg')"
  by (rule get_matched_request_total [OF message_init_wf])
     (auto simp: server_rules_def sample_services_def rule_value_def sample_method_rule_def sample_payload_rule_def)

text \<open>C3. Weighted choice. In a response group built from a configuration whose weights add up to \<open>T\<close>, not 0 and at most
  \<open>2^31\<close>, the draw is configured to range over the numbers from 0 to \<open>T - 1\<close>, and each response is selected by exactly as many of
  these draws as its weight says. So under a uniform draw it is chosen with probability weight over total weight, and a response of
  weight 0 never is. (Above \<open>2^31\<close> the upper end of the draw is no positive \<^verbatim>\<open>int\<close>.)\<close>

theorem select_response_proportional:
  assumes "H2Server_Response_Group_init L U fs schema = Inr g" and "length schema \<le> 2 ^ 32"
    and "T = (\<Sum>s \<leftarrow> schema. unat (sr_weight s))" and "0 < T" and "T \<le> 2 ^ 31" and "i < length schema"
  shows "distr_upper g = int T - 1
    \<and> card {draw. 0 \<le> draw \<and> draw \<le> distr_upper g \<and> select_response g (word_of_int draw) = i} = unat (sr_weight (schema ! i))"
proof -
  note W = group_init_wf [OF assms(1,2)]
  have len: "length (responses g) = length schema" using W(2) by (metis length_map)
  have sum: "T = weight_sum (responses g)"
    using arg_cong [OF W(2), of "\<lambda>ws. sum_list (map unat ws)"] assms(3) by (simp add: weight_sum_def comp_def)
  have dm: "distribution_map g = entries (responses g) 0 0" and b: "weight_sum (responses g) < 2 ^ 64"
    using W(1) by (simp_all add: group_wf_def)
  have upper: "distr_upper g = int T - 1"
    using W(1) assms(4,5) sum by (intro distr_upper_value) (simp_all add: group_wf_def)
  have "{r. r < weight_sum (responses g) \<and> select_response g (word_of_nat r) = i}
      = chosen (entries (responses g) 0 0) (unat (0 :: u64)) (weight_sum (responses g)) i"
    using select_response_upper_bound [OF W(1)] by (auto simp: chosen_def dm)
  moreover have "rs_weight (responses g ! i) = sr_weight (schema ! i)"
    using arg_cong [OF W(2), of "\<lambda>ws. ws ! i"] assms(6) len by simp
  ultimately have "card {r. r < T \<and> select_response g (word_of_nat r) = i} = unat (sr_weight (schema ! i))"
    using card_chosen [of 0 "responses g" 0 i] b assms(6) len by (simp add: sum)
  moreover have "{draw. 0 \<le> draw \<and> draw \<le> int T - 1 \<and> select_response g (word_of_int draw) = i}
      = int ` {r. r < T \<and> select_response g (word_of_nat r) = i}"
  proof (intro set_eqI iffI)
    fix d assume "d \<in> {draw. 0 \<le> draw \<and> draw \<le> int T - 1 \<and> select_response g (word_of_int draw) = i}"
    then have "d = int (nat d)" "nat d < T" "select_response g (word_of_nat (nat d)) = i" by (simp_all add: nat_less_iff)
    then show "d \<in> int ` {r. r < T \<and> select_response g (word_of_nat r) = i}" by blast
  qed auto
  ultimately show ?thesis using upper by (simp add: card_image)
qed

theorem select_response_proportional_witness:
  "distr_upper sample_group = 0
   \<and> card {draw. 0 \<le> draw \<and> draw \<le> distr_upper sample_group \<and> select_response sample_group (word_of_int draw) = 0} = 1"
  using select_response_proportional [OF sample_group_init, of 1 0] by (auto simp: sample_schema_response_def)

text \<open>C10. Rules that collide. Among the header rules of a request, in any positions and with any other rules around them, let
  \<open>a\<close> come before \<open>b\<close>, both with a header name, with the same match type, and such that name followed by operand is the same text
  for both (say the header \<^verbatim>\<open>x-id\<close> with \<^verbatim>\<open>1abc\<close>, and \<^verbatim>\<open>x-id1\<close> with \<^verbatim>\<open>abc\<close>). They compare as equivalent, so the second one is never
  stored: the request is the one that would be built had \<open>b\<close> not been configured at all.\<close>

theorem colliding_rule_is_dropped:
  assumes "header_match rm = xs @ a # ys @ b # zs"
    and "hm_matchType a = hm_matchType b" and "hm_header a \<noteq> []" and "hm_header b \<noteq> []"
    and "hm_header a @ hm_input a = hm_header b @ hm_input b"
  shows "H2Server_Request_init L u rm index = H2Server_Request_init L u (rm\<lparr>header_match := xs @ a # ys @ zs\<rparr>) index"
proof -
  let ?ins = "\<lambda>m. set_insert rule_less (Match_Rule_of_header L u m)"
  let ?at_b = "fold ?ins (xs @ a # ys) []"
  have key: "rule_key (Match_Rule_of_header L u a) = rule_key (Match_Rule_of_header L u b)"
    using assms(2-5) by (simp add: rule_key_def rule_text_def Match_Rule_of_header_def)
  obtain y where "y \<in> set ?at_b" "equivalent rule_less (Match_Rule_of_header L u a) y"
    using stored_rule [of L u a ys "fold ?ins xs []"] by auto
  then have "?ins b ?at_b = ?at_b"
    using key stored_rules_ordered [of L u "xs @ a # ys"] by (intro ro.set_insert_old) (simp_all add: ro.equivalent_key)
  then show ?thesis using assms(1) by (simp add: H2Server_Request_init_def Let_def)
qed

theorem colliding_rule_is_dropped_witness:
  "match_rules (H2Server_Request_init plain_lib 0
      \<lparr>header_match = [\<lparr>hm_matchType = ''EqualsTo'', hm_header = ''x-id'', hm_input = ''1abc''\<rparr>,
                       \<lparr>hm_matchType = ''EqualsTo'', hm_header = ''x-id1'', hm_input = ''abc''\<rparr>],
       payload_match = [], rm_name = ''n''\<rparr> 0)
   = [Match_Rule_of_header plain_lib 0 \<lparr>hm_matchType = ''EqualsTo'', hm_header = ''x-id'', hm_input = ''1abc''\<rparr>]"
proof -
  let ?a = "\<lparr>hm_matchType = ''EqualsTo'', hm_header = ''x-id'', hm_input = ''1abc''\<rparr>"
  let ?b = "\<lparr>hm_matchType = ''EqualsTo'', hm_header = ''x-id1'', hm_input = ''abc''\<rparr>"
  show ?thesis
    using colliding_rule_is_dropped [of "\<lparr>header_match = [?a, ?b], payload_match = [], rm_name = ''n''\<rparr>" "[]" ?a "[]" ?b "[]" plain_lib 0 0]
    by (simp add: H2Server_Request_init_def Let_def)
qed

end
