(* ===== verification/Base64.thy ===== *)
theory Base64
  imports Maock_Prelude
begin

text \<open>
  Base64 (\<^verbatim>\<open>base64.h\<close>): the two encoders, one that returns a string and one that writes to an output
  iterator, the decoder of four characters at a time with its padding, and the string decoder.

  Data are bytes, encoded text is a string. The decoder indexes its table with
  \<^verbatim>\<open>static_cast<size_t>(*first)\<close>; \<^verbatim>\<open>char\<close> is signed, so a character of 128 or more reads outside the
  table. An output iterator is the list of what has been written.
\<close>

unbundle bit_operations_syntax

section \<open>Encoding\<close>

definition B64_CHARS :: string where
  "B64_CHARS = ''ABCDEFGHIJKLM'' @ ''NOPQRSTUVWXYZ'' @ ''abcdefghijklm'' @ ''nopqrstuvwxyz'' @ ''0123456789+/''"

definition b64_char :: "u32 \<Rightarrow> char" where
  "b64_char i = B64_CHARS ! unat i"

definition encode_three :: "u8 \<Rightarrow> u8 \<Rightarrow> u8 \<Rightarrow> string" where
  "encode_three a b c =
     (let n = push_bit 16 (ucast a :: u32);
          n = n + push_bit 8 (ucast b);
          n = n + ucast c
      in [b64_char (drop_bit 18 n), b64_char (drop_bit 12 n AND 0x3f),
          b64_char (drop_bit 6 n AND 0x3f), b64_char (n AND 0x3f)])"

definition encode_two :: "u8 \<Rightarrow> u8 \<Rightarrow> string" where
  "encode_two a b =
     (let n = push_bit 16 (ucast a :: u32);
          n = n + push_bit 8 (ucast b)
      in [b64_char (drop_bit 18 n), b64_char (drop_bit 12 n AND 0x3f),
          b64_char (drop_bit 6 n AND 0x3f), CHR ''=''])"

definition encode_one :: "u8 \<Rightarrow> string" where
  "encode_one a =
     (let n = push_bit 16 (ucast a :: u32)
      in [b64_char (drop_bit 18 n), b64_char (drop_bit 12 n AND 0x3f), CHR ''='', CHR ''=''])"

text \<open>The loop up to \<^verbatim>\<open>last - r\<close>, then the rest; the string grows as \<open>res\<close>.\<close>

fun encode_loop :: "bytes \<Rightarrow> string \<Rightarrow> string" where
  "encode_loop (a # b # c # first) p = encode_loop first (p @ encode_three a b c)"
| "encode_loop _ p = p"

definition encode :: "bytes \<Rightarrow> string" where
  "encode s =
     (let len = length s; r = len mod 3; j = len - r
      in if len = 0 then []
         else let res = encode_loop (take j s) []
              in if r = 2 then res @ encode_two (s ! j) (s ! (j + 1))
                 else if r = 1 then res @ encode_one (s ! j)
                 else res)"

definition encode_length :: "nat \<Rightarrow> nat" where
  "encode_length n = (n + 2) div 3 * 4"

definition encode_to :: "bytes \<Rightarrow> string \<Rightarrow> string" where
  "encode_to s d_first =
     (let len = length s; r = len mod 3; j = len - r
      in if len = 0 then d_first
         else let p = encode_loop (take j s) d_first
              in case r of
                   0 \<Rightarrow> p
                 | Suc 0 \<Rightarrow> p @ encode_one (s ! j)
                 | _ \<Rightarrow> p @ encode_two (s ! j) (s ! (j + 1)))"

section \<open>Decoding\<close>

definition INDEX_TABLE :: "int list" where
  "INDEX_TABLE = replicate 43 (- 1) @ [62] @ replicate 3 (- 1) @ [63]
     @ [52, 53, 54, 55, 56, 57, 58, 59, 60, 61] @ replicate 7 (- 1)
     @ [0, 1, 2, 3, 4, 5, 6, 7, 8, 9, 10, 11, 12, 13, 14, 15, 16, 17, 18, 19, 20, 21, 22, 23, 24, 25]
     @ replicate 6 (- 1)
     @ [26, 27, 28, 29, 30, 31, 32, 33, 34, 35, 36, 37, 38, 39, 40, 41, 42, 43, 44, 45, 46, 47, 48, 49,
        50, 51] @ replicate 133 (- 1)"

definition table_at :: "int list \<Rightarrow> char \<Rightarrow> int result" where
  "table_at tbl c = (if of_char c < (128 :: nat) then Inr (tbl ! of_char c) else Inl Out_Of_Bounds)"

fun next_decode_input :: "string \<Rightarrow> int list \<Rightarrow> string result" where
  "next_decode_input [] tbl = Inr []"
| "next_decode_input (c # first) tbl =
     rbind (table_at tbl c) (\<lambda>idx.
       if idx \<noteq> - 1 \<or> c = CHR ''='' then Inr (c # first) else next_decode_input first tbl)"

text \<open>How the inner loop of the decoder ends: with the 24 bits of a full group, with the last bytes
  of a padded one, or with the refusal of the input.\<close>

datatype quad = Quad_Full u32 | Quad_Last bytes | Quad_Refused

function decode_quad :: "string \<Rightarrow> nat \<Rightarrow> u32 \<Rightarrow> quad result" where
  "decode_quad first i n =
     (if 4 < i then Inr (Quad_Full n)
      else case first of
        [] \<Rightarrow> Inl Out_Of_Bounds
      | c # rest \<Rightarrow>
          rbind (table_at INDEX_TABLE c) (\<lambda>idx.
            if idx = - 1 then
              (if i \<le> 2 then Inr Quad_Refused
               else if i = 3 then
                 (if c = CHR ''='' then
                    (case rest of
                       [] \<Rightarrow> Inl Out_Of_Bounds
                     | c' # rest' \<Rightarrow>
                         if c' = CHR ''='' \<and> rest' = [] then Inr (Quad_Last [ucast (drop_bit 16 n)])
                         else Inr Quad_Refused)
                  else Inr Quad_Refused)
               else if c = CHR ''='' \<and> rest = []
                    then Inr (Quad_Last [ucast (drop_bit 16 n), ucast (drop_bit 8 n AND 0xff)])
                    else Inr Quad_Refused)
            else decode_quad rest (Suc i) (n + push_bit (24 - i * 6) (word_of_int idx))))"
  by auto
termination
  by (relation "measure (\<lambda>(first, i, n). 5 - i)") auto

declare decode_quad.simps [simp del]

text \<open>A refusal returns \<open>d_first\<close>: nothing decoded so far counts.\<close>

function decode_loop :: "string \<Rightarrow> bytes \<Rightarrow> bytes result" where
  "decode_loop first p =
     (if first = [] then Inr p
      else rbind (decode_quad first 1 0) (\<lambda>q. case q of
             Quad_Full n \<Rightarrow> decode_loop (drop 4 first)
               (p @ [ucast (drop_bit 16 n), ucast (drop_bit 8 n AND 0xff), ucast (n AND 0xff)])
           | Quad_Last bs \<Rightarrow> Inr (p @ bs)
           | Quad_Refused \<Rightarrow> Inr []))"
  by auto
termination
  by (relation "measure (\<lambda>(first, p). length first)") auto

declare decode_loop.simps [simp del]

definition decode_to :: "string \<Rightarrow> bytes result" where
  "decode_to s = (if length s mod 4 \<noteq> 0 then Inl Assertion else decode_loop s [])"

definition decode :: "string \<Rightarrow> bytes result" where
  "decode s = (if length s mod 4 \<noteq> 0 then Inr [] else decode_to s)"

section \<open>Lemmas\<close>

text \<open>The encoding by groups, as the standard defines it, and a decoder of a run of full groups.\<close>

fun encode_groups :: "bytes \<Rightarrow> string" where
  "encode_groups (a # b # c # s) = encode_three a b c @ encode_groups s"
| "encode_groups [a, b] = encode_two a b"
| "encode_groups [a] = encode_one a"
| "encode_groups [] = []"

lemma encode_loop_acc: "encode_loop s p = p @ encode_loop s []"
proof (induction s arbitrary: p rule: encode_groups.induct)
  case (1 a b c s)
  show ?case using "1.IH" [of "p @ encode_three a b c"] "1.IH" [of "encode_three a b c"] by simp
qed auto

lemma three_step:
  "length (a # b # c # s) - length s mod 3 = Suc (Suc (Suc (length s - length s mod 3)))"
proof -
  have "length s mod 3 \<le> length s" by simp
  then show ?thesis by (simp add: Suc_diff_le)
qed

lemma encode_step: "encode (a # b # c # s) = encode_three a b c @ encode s"
proof -
  have m: "length (a # b # c # s) mod 3 = length s mod 3" by simp
  define r j where "r = length s mod 3" and "j = length s - r"
  have "encode (a # b # c # s) =
      (let res = encode_loop (take (Suc (Suc (Suc j))) (a # b # c # s)) []
       in if r = 2 then res @ encode_two ((a # b # c # s) ! Suc (Suc (Suc j))) ((a # b # c # s) ! (Suc (Suc (Suc j)) + 1))
          else if r = 1 then res @ encode_one ((a # b # c # s) ! Suc (Suc (Suc j))) else res)"
    unfolding encode_def Let_def m three_step r_def j_def
    by (simp only: length_0_conv list.distinct if_False)
  moreover have "encode s = (let res = encode_loop (take j s) []
       in if r = 2 then res @ encode_two (s ! j) (s ! (j + 1))
          else if r = 1 then res @ encode_one (s ! j) else res)"
    by (cases "s = []") (simp_all add: encode_def Let_def r_def j_def)
  ultimately show ?thesis
    by (simp add: Let_def encode_loop_acc [of _ "encode_three a b c"])
qed

lemma encode_eq_groups: "encode s = encode_groups s"
proof (induction s rule: encode_groups.induct)
  case (1 a b c s)
  then show ?case by (simp add: encode_step)
qed (simp_all add: encode_def)

lemma length_encode_groups: "length (encode_groups s) = encode_length (length s)"
proof (induction s rule: encode_groups.induct)
  case (1 a b c s)
  have "(length (a # b # c # s) + 2) div 3 = Suc ((length s + 2) div 3)" by simp
  then show ?case using 1 unfolding encode_length_def by (simp add: encode_three_def Let_def)
qed (simp_all add: encode_two_def encode_one_def encode_length_def Let_def)

text \<open>The table inverts the alphabet.\<close>

lemma B64_CHARS_values: "map (table_at INDEX_TABLE) B64_CHARS = map (\<lambda>i. Inr (int i)) [0..<64]"
  by (simp add: B64_CHARS_def table_at_def INDEX_TABLE_def nth_append upt_rec)

lemma B64_CHARS_table:
  "i < 64 \<Longrightarrow> table_at INDEX_TABLE (B64_CHARS ! i) = Inr (int i)"
proof -
  assume i: "i < 64"
  then have "i < length B64_CHARS" by (simp add: B64_CHARS_def)
  then show ?thesis using arg_cong [OF B64_CHARS_values, of "\<lambda>xs. xs ! i"] i by (simp only: nth_map) simp
qed

lemma table_pad: "table_at INDEX_TABLE (CHR ''='') = Inr (- 1)"
  by code_simp

lemma table_b64_char: "i < 64 \<Longrightarrow> table_at INDEX_TABLE (b64_char i) = Inr (uint i)"
  using B64_CHARS_table [of "unat i"] by (simp add: b64_char_def word_less_nat_alt)

text \<open>Groups of bits as numbers.\<close>

lemma take_bit_as_nat: "take_bit k (w :: u32) = word_of_nat (unat w mod 2 ^ k)"
proof -
  have "unat (take_bit k w) = take_bit k (unat w)" by (simp only: unsigned_take_bit_eq)
  then have "unat (take_bit k w) = unat w mod 2 ^ k" by (simp only: take_bit_eq_mod [of k "unat w"])
  then have "word_of_nat (unat (take_bit k w)) = (word_of_nat (unat w mod 2 ^ k) :: u32)" by (simp only:)
  then show ?thesis by simp
qed

lemma sextet: "(w :: u32) AND 0x3f = word_of_nat (unat w mod 64)"
proof -
  have "w AND 0x3f = take_bit 6 w" by (simp add: take_bit_eq_mask mask_eq_exp_minus_1)
  then show ?thesis by (simp only: take_bit_as_nat) simp
qed

lemma octet: "(w :: u32) AND 0xff = word_of_nat (unat w mod 256)"
proof -
  have "w AND 0xff = take_bit 8 w" by (simp add: take_bit_eq_mask mask_eq_exp_minus_1)
  then show ?thesis by (simp only: take_bit_as_nat) simp
qed

lemma bits_from: "drop_bit k (w :: u32) = word_of_nat (unat w div 2 ^ k)"
proof -
  have "unat (drop_bit k w) = drop_bit k (unat w)" by (simp only: unat_drop_bit_eq)
  then have "unat (drop_bit k w) = unat w div 2 ^ k" by (simp only: drop_bit_eq_div [of k "unat w"])
  then have "word_of_nat (unat (drop_bit k w)) = (word_of_nat (unat w div 2 ^ k) :: u32)" by (simp only:)
  then show ?thesis by simp
qed

lemma group_value:
  "push_bit 16 (ucast (a :: u8) :: u32) + push_bit 8 (ucast (b :: u8)) + ucast (c :: u8)
     = word_of_nat (unat a * 65536 + unat b * 256 + unat c)"
  by (simp add: push_bit_eq_mult)

lemma regroup:
  "push_bit 18 (word_of_nat (q div 2 ^ 18) :: u32) + push_bit 12 (word_of_nat (q div 2 ^ 12 mod 64))
      + push_bit 6 (word_of_nat (q div 2 ^ 6 mod 64)) + word_of_nat (q mod 64) = word_of_nat q"
proof -
  define a b where "a = q div 64" and "b = a div 64"
  have d: "q div 2 ^ 6 = a" "q div 2 ^ 12 = b" "q div 2 ^ 18 = b div 64"
    by (simp_all add: a_def b_def flip: div_mult2_eq)
  have "64 * (b div 64) + b mod 64 = b" "64 * b + a mod 64 = a" "64 * a + q mod 64 = q"
    unfolding a_def b_def by (simp_all only: mult_div_mod_eq)
  then have "b div 64 * 262144 + b mod 64 * 4096 + a mod 64 * 64 + q mod 64 = q" by linarith
  then have "q div 2 ^ 18 * 2 ^ 18 + q div 2 ^ 12 mod 64 * 2 ^ 12 + q div 2 ^ 6 mod 64 * 2 ^ 6 + q mod 64 = q"
    unfolding d by simp
  then have "word_of_nat (q div 2 ^ 18 * 2 ^ 18 + q div 2 ^ 12 mod 64 * 2 ^ 12 + q div 2 ^ 6 mod 64 * 2 ^ 6
      + q mod 64) = (word_of_nat q :: u32)" by (simp only:)
  then show ?thesis by (simp add: push_bit_eq_mult)
qed

text \<open>What the inner loop makes of four characters.\<close>

lemma uint_not_refused: "uint (w :: u32) \<noteq> - 1"
  using uint_nonnegative [of w] by linarith

lemma decode_quad_char:
  "1 \<le> i \<Longrightarrow> i \<le> 4 \<Longrightarrow> w < 64 \<Longrightarrow>
    decode_quad (b64_char w # rest) i n = decode_quad rest (Suc i) (n + push_bit (24 - i * 6) w)"
  by (subst decode_quad.simps) (simp add: table_b64_char uint_not_refused)

lemma decode_quad_done: "4 < i \<Longrightarrow> decode_quad first i n = Inr (Quad_Full n)"
  by (subst decode_quad.simps) simp

lemma small_word: "k < 64 \<Longrightarrow> (word_of_nat k :: u32) < 64"
  by (simp add: word_less_nat_alt unat_of_nat)

lemma unat_small: "q < 2 ^ 24 \<Longrightarrow> unat (word_of_nat q :: u32) = q"
  by (simp add: unat_of_nat)

lemma group_bound: "unat (a :: u8) * 65536 + unat (b :: u8) * 256 + unat (c :: u8) < 2 ^ 24"
  using unsigned_less [of a, where ?'a = nat] unsigned_less [of b, where ?'a = nat]
    unsigned_less [of c, where ?'a = nat] by simp

lemma unat_bits_from: "unat (drop_bit k (n :: u32)) = unat n div 2 ^ k"
proof -
  have "unat (drop_bit k n) = drop_bit k (unat n)" by (simp only: unat_drop_bit_eq)
  then show ?thesis by (simp only: drop_bit_eq_div [of k "unat n"])
qed

lemma regroup_word:
  "push_bit 18 (drop_bit 18 n) + push_bit 12 (drop_bit 12 n AND 0x3f) + push_bit 6 (drop_bit 6 n AND 0x3f)
     + (n AND 0x3f) = (n :: u32)"
  using regroup [of "unat n"] by (simp only: bits_from [of 18] sextet unat_bits_from) simp

lemma sextet_less: "(w :: u32) AND 0x3f < 64"
  by (simp only: sextet small_word mod_less_divisor zero_less_numeral)

lemma top_sextet_less: "unat (n :: u32) < 2 ^ 24 \<Longrightarrow> drop_bit 18 n < 64"
  by (simp only: bits_from) (rule small_word, simp)

lemma decode_full:
  assumes "unat n < 2 ^ 24"
  shows "decode_quad (b64_char (drop_bit 18 n) # b64_char (drop_bit 12 n AND 0x3f)
      # b64_char (drop_bit 6 n AND 0x3f) # b64_char (n AND 0x3f) # rest) 1 0 = Inr (Quad_Full n)"
proof -
  have "decode_quad (b64_char (drop_bit 18 n) # b64_char (drop_bit 12 n AND 0x3f)
      # b64_char (drop_bit 6 n AND 0x3f) # b64_char (n AND 0x3f) # rest) 1 0
    = Inr (Quad_Full (push_bit 18 (drop_bit 18 n) + push_bit 12 (drop_bit 12 n AND 0x3f)
        + push_bit 6 (drop_bit 6 n AND 0x3f) + (n AND 0x3f)))"
    using top_sextet_less [OF assms] sextet_less by (simp add: decode_quad_char decode_quad_done)
  then show ?thesis by (simp only: regroup_word)
qed

lemma decode_pads:
  "decode_quad [CHR ''=''] 4 m = Inr (Quad_Last [ucast (drop_bit 16 m), ucast (drop_bit 8 m AND 0xff)])"
  "decode_quad [CHR ''='', CHR ''=''] 3 m = Inr (Quad_Last [ucast (drop_bit 16 m)])"
  by (subst decode_quad.simps, simp add: table_pad)+

lemma decode_padded_two:
  assumes "unat n < 2 ^ 24" and "n AND 0x3f = 0"
  shows "decode_quad [b64_char (drop_bit 18 n), b64_char (drop_bit 12 n AND 0x3f),
      b64_char (drop_bit 6 n AND 0x3f), CHR ''=''] 1 0
      = Inr (Quad_Last [ucast (drop_bit 16 n), ucast (drop_bit 8 n AND 0xff)])"
proof -
  let ?m = "push_bit 18 (drop_bit 18 n) + push_bit 12 (drop_bit 12 n AND 0x3f) + push_bit 6 (drop_bit 6 n AND 0x3f)"
  have m: "?m = n" using regroup_word [of n] assms(2) by (simp only: add_0_right)
  have "decode_quad [b64_char (drop_bit 18 n), b64_char (drop_bit 12 n AND 0x3f),
      b64_char (drop_bit 6 n AND 0x3f), CHR ''=''] 1 0 = decode_quad [CHR ''=''] 4 ?m"
    using top_sextet_less [OF assms(1)] sextet_less by (simp add: decode_quad_char numeral_eq_Suc)
  then show ?thesis by (simp only: m decode_pads)
qed

lemma decode_padded_one:
  assumes "unat n < 2 ^ 24" and "n AND 0x3f = 0" and "drop_bit 6 n AND 0x3f = 0"
  shows "decode_quad [b64_char (drop_bit 18 n), b64_char (drop_bit 12 n AND 0x3f), CHR ''='', CHR ''=''] 1 0
      = Inr (Quad_Last [ucast (drop_bit 16 n)])"
proof -
  let ?m = "push_bit 18 (drop_bit 18 n) + push_bit 12 (drop_bit 12 n AND 0x3f)"
  have m: "?m = n" using regroup_word [of n] assms(2,3) by (simp only: add_0_right push_bit_of_0)
  have "decode_quad [b64_char (drop_bit 18 n), b64_char (drop_bit 12 n AND 0x3f), CHR ''='', CHR ''=''] 1 0
      = decode_quad [CHR ''='', CHR ''=''] 3 ?m"
    using top_sextet_less [OF assms(1)] sextet_less by (simp add: decode_quad_char numeral_eq_Suc)
  then show ?thesis by (simp only: m decode_pads)
qed

text \<open>The bytes of a group.\<close>

lemma group_bytes:
  fixes a b c :: u8
  defines "n \<equiv> word_of_nat (unat a * 65536 + unat b * 256 + unat c) :: u32"
  shows "ucast (drop_bit 16 n) = a" and "ucast (drop_bit 8 n AND 0xff) = b" and "ucast (n AND 0xff) = c"
proof -
  let ?q = "unat a * 65536 + unat b * 256 + unat c"
  have bd: "unat a < 256" "unat b < 256" "unat c < 256"
    using unsigned_less [of a, where ?'a = nat] unsigned_less [of b, where ?'a = nat]
      unsigned_less [of c, where ?'a = nat] by simp_all
  have u: "unat n = ?q" using unat_small [OF group_bound] by (simp only: n_def)
  have d: "unat (drop_bit k n) = ?q div 2 ^ k" for k
    by (simp only: unat_drop_bit_eq drop_bit_eq_div [of k ?q] u)
  have cast: "ucast (word_of_nat m :: u32) = (word_of_nat m :: u8)" for m
    by (simp add: unsigned_of_nat unsigned_ucast_eq word_unat_eq_iff unat_of_nat take_bit_eq_mod mod_mod_cancel)
  have q: "?q div 2 ^ 16 = unat a" "?q div 2 ^ 8 mod 256 = unat b" "?q mod 256 = unat c"
  proof -
    have e: "?q = (unat a * 256 + unat b) * 256 + unat c" by simp
    have h: "(2 :: nat) ^ 8 = 256" "(x * 256 + unat c) div 256 = x" "(x * 256 + unat c) mod 256 = unat c"
      "(x * 256 + unat b) mod 256 = unat b" for x using bd by simp_all
    show "?q div 2 ^ 8 mod 256 = unat b" "?q mod 256 = unat c" by (simp_all only: e h)
    show "?q div 2 ^ 16 = unat a" using bd by simp
  qed
  show "ucast (drop_bit 16 n) = a" "ucast (drop_bit 8 n AND 0xff) = b" "ucast (n AND 0xff) = c"
    by (simp_all only: bits_from [of 16] octet u d q cast) simp_all
qed

lemma decode_loop_three:
  "decode_loop (encode_three a b c @ rest) p = decode_loop rest (p @ [a, b, c])"
proof -
  let ?n = "word_of_nat (unat a * 65536 + unat b * 256 + unat c) :: u32"
  have "unat ?n < 2 ^ 24" using unat_small [OF group_bound] group_bound by (simp only:)
  from decode_full [OF this]
  have q: "decode_quad (encode_three a b c @ rest) 1 0 = Inr (Quad_Full ?n)"
    unfolding encode_three_def Let_def group_value by simp
  have "encode_three a b c @ rest \<noteq> []" "drop 4 (encode_three a b c @ rest) = rest"
    by (simp_all add: encode_three_def Let_def)
  then show ?thesis
    by (subst decode_loop.simps) (simp only: q rbind.simps quad.case group_bytes if_False)
qed

lemma decode_loop_two: "decode_loop (encode_two a b) p = Inr (p @ [a, b])"
proof -
  let ?n = "word_of_nat (unat a * 65536 + unat b * 256 + unat (0 :: u8)) :: u32"
  have n: "unat ?n < 2 ^ 24" using unat_small [OF group_bound] group_bound by (simp only:)
  have z: "?n AND 0x3f = 0" using unat_small [OF group_bound, of a b 0]
    by (simp only: sextet) (simp add: mod_add_eq)
  have q: "decode_quad (encode_two a b) 1 0 = Inr (Quad_Last [a, b])"
    using decode_padded_two [OF n z] group_value [of a b 0] group_bytes [of a b 0]
    by (simp only: encode_two_def Let_def unsigned_0 add_0_right)
  have "encode_two a b \<noteq> []" by (simp add: encode_two_def Let_def)
  then show ?thesis by (subst decode_loop.simps) (simp only: q rbind.simps quad.case if_False)
qed

lemma decode_loop_one: "decode_loop (encode_one a) p = Inr (p @ [a])"
proof -
  let ?n = "word_of_nat (unat a * 65536 + unat (0 :: u8) * 256 + unat (0 :: u8)) :: u32"
  have n: "unat ?n < 2 ^ 24" using unat_small [OF group_bound] group_bound by (simp only:)
  have z: "?n AND 0x3f = 0" "drop_bit 6 ?n AND 0x3f = 0" using unat_small [OF group_bound, of a 0 0]
    by (simp_all only: sextet unat_bits_from) simp_all
  have q: "decode_quad (encode_one a) 1 0 = Inr (Quad_Last [a])"
    using decode_padded_one [OF n z] group_value [of a 0 0] group_bytes [of a 0 0]
    by (simp only: encode_one_def Let_def unsigned_0 add_0_right push_bit_of_0)
  have "encode_one a \<noteq> []" by (simp add: encode_one_def Let_def)
  then show ?thesis by (subst decode_loop.simps) (simp only: q rbind.simps quad.case if_False)
qed

lemma decode_loop_groups: "decode_loop (encode_groups s) p = Inr (p @ s)"
proof (induction s arbitrary: p rule: encode_groups.induct)
  case 4
  show ?case by (subst decode_loop.simps) simp
qed (simp_all add: decode_loop_three decode_loop_two decode_loop_one)

text \<open>What the decoder can give on any text: never more than three bytes for four characters.\<close>

lemma decode_quad_outcome:
  assumes "\<forall>c \<in> set first. of_char c < (128 :: nat)" and "5 \<le> length first + i" and "1 \<le> i"
  shows "\<exists>q. decode_quad first i n = Inr q \<and> (\<forall>bs. q = Quad_Last bs \<longrightarrow> length bs \<le> 2)"
  using assms
proof (induction first i n rule: decode_quad.induct)
  case (1 first i n)
  show ?case
  proof (cases "4 < i")
    case True
    then show ?thesis by (simp add: decode_quad_done)
  next
    case False
    then obtain c rest where f: "first = c # rest" using "1.prems" by (cases first) auto
    then have t: "table_at INDEX_TABLE c = Inr (INDEX_TABLE ! of_char c)"
      using "1.prems" by (simp add: table_at_def)
    show ?thesis
    proof (cases "INDEX_TABLE ! of_char c = - 1")
      case True
      have "i = 3 \<Longrightarrow> rest \<noteq> []" using "1.prems"(2) f by auto
      then show ?thesis using False f t True
        by (subst decode_quad.simps) (auto split: list.splits)
    next
      case neq: False
      have "\<exists>q. decode_quad rest (Suc i) (n + push_bit (24 - i * 6) (word_of_int (INDEX_TABLE ! of_char c))) = Inr q
          \<and> (\<forall>bs. q = Quad_Last bs \<longrightarrow> length bs \<le> 2)"
        using "1.IH" [OF False f t neq] "1.prems" f by simp
      then show ?thesis using False f t neq by (subst decode_quad.simps) simp
    qed
  qed
qed

lemma decode_loop_outcome:
  assumes "\<forall>c \<in> set first. of_char c < (128 :: nat)" and "length first mod 4 = 0"
  shows "\<exists>out. decode_loop first p = Inr out \<and> length out \<le> length p + length first div 4 * 3"
  using assms
proof (induction first p rule: decode_loop.induct)
  case (1 first p)
  show ?case
  proof (cases "first = []")
    case True
    then show ?thesis by (subst decode_loop.simps) simp
  next
    case False
    then have len: "4 \<le> length first" using "1.prems"(2) 
      using dvd_imp_le [of 4 "length first"] by (simp add: mod_eq_0_iff_dvd)
    then obtain q where q: "decode_quad first 1 0 = Inr q" "\<forall>bs. q = Quad_Last bs \<longrightarrow> length bs \<le> 2"
      using decode_quad_outcome [OF "1.prems"(1), of 1 0] by auto
    have d: "length first div 4 = Suc (length (drop 4 first) div 4)" using len
      by (simp add: le_div_geq)
    show ?thesis
    proof (cases q)
      case (Quad_Full n)
      have "\<forall>c \<in> set (drop 4 first). of_char c < (128 :: nat)"
        using "1.prems"(1) set_drop_subset by fast
      moreover have "length (drop 4 first) mod 4 = 0" using "1.prems"(2) len by (simp add: le_mod_geq)
      ultimately show ?thesis using "1.IH" [OF False q(1) Quad_Full] False q(1) Quad_Full d
        by (subst decode_loop.simps) auto
    next
      case (Quad_Last bs)
      then show ?thesis using q False d by (subst decode_loop.simps) auto
    next
      case Quad_Refused
      then show ?thesis using q(1) False by (subst decode_loop.simps) simp
    qed
  qed
qed

section \<open>Properties\<close>

text \<open>C12. Decoding inverts encoding: for every sequence of bytes both encoders write the same text, of the
  announced length and hence padded to a multiple of four characters, and the string decoder gives the
  bytes back.\<close>

theorem base64_roundtrip:
  "decode (encode s) = Inr s \<and> length (encode s) = encode_length (length s) \<and> encode_to s d = d @ encode s"
proof -
  have "length (encode s) mod 4 = 0" by (simp add: encode_eq_groups length_encode_groups encode_length_def)
  then have "decode (encode s) = Inr s"
    by (simp add: decode_def decode_to_def encode_eq_groups decode_loop_groups)
  moreover have "encode_to s d = d @ encode s"
  proof -
    have "length s mod 3 < 3" by simp
    then consider "length s mod 3 = 0" | "length s mod 3 = Suc 0" | "length s mod 3 = 2" by linarith
    then show ?thesis
      by cases (simp_all add: encode_to_def encode_def Let_def encode_loop_acc [of _ d] numeral_2_eq_2)
  qed
  ultimately show ?thesis by (simp add: encode_eq_groups length_encode_groups)
qed

text \<open>C13. On a text of characters below 128 the decoder always answers, stays inside its table and never
  gives more bytes than the buffer of three bytes for four characters holds.\<close>

theorem decode_fits_buffer:
  assumes "\<forall>c \<in> set s. of_char c < (128 :: nat)"
  shows "\<exists>out. decode s = Inr out \<and> length out \<le> length s div 4 * 3"
  using decode_loop_outcome [OF assms, of "[]"] by (simp add: decode_def decode_to_def)

theorem decode_fits_buffer_witness:
  "\<exists>out. decode ''QUJD'' = Inr out \<and> length out \<le> 3"
  using decode_fits_buffer [of "''QUJD''"] by simp

end
