(* ===== verification/Memchunk.thy ===== *)
theory Memchunk
  imports Maock_Prelude
begin

text \<open>
  Pooled memory chunks (\<^verbatim>\<open>memchunk.h\<close>): the chunk \<^verbatim>\<open>Memchunk<N>\<close>, the \<^verbatim>\<open>Pool\<close> that hands chunks out and
  takes them back, the byte queue \<^verbatim>\<open>Memchunks\<close> made of a linked list of chunks, its peeking wrapper
  \<^verbatim>\<open>PeekMemchunks\<close>, and the single buffer \<^verbatim>\<open>MemchunkBuffer\<close>.

  Chunks live in an explicit store, so that sharing is visible: a chunk that is recycled is handed
  out again by the next \<^verbatim>\<open>get\<close>. An address is a number, \<^verbatim>\<open>new\<close> takes the next one; \<^term>\<open>None\<close> is the null
  pointer; \<^verbatim>\<open>pos\<close> and \<^verbatim>\<open>last\<close> are offsets into the buffer of the chunk. A pointer into a chunk kept
  outside it is a pair of the chunk's address and an offset. The loops that follow \<^verbatim>\<open>next\<close> pointers
  are partial functions: that they end on the structures the program builds is proved below.
\<close>

section \<open>Chunks and the pool\<close>

type_synonym addr = nat

record memchunk =
  mc_buf :: bytes
  mc_pos :: nat
  mc_last :: nat
  mc_knext :: "addr option"
  mc_next :: "addr option"

definition Memchunk_init :: "nat \<Rightarrow> addr option \<Rightarrow> memchunk" where
  "Memchunk_init N next_chunk =
     \<lparr>mc_buf = replicate N 0, mc_pos = 0, mc_last = 0, mc_knext = next_chunk, mc_next = None\<rparr>"

definition mc_len :: "memchunk \<Rightarrow> nat" where
  "mc_len m = mc_last m - mc_pos m"

definition mc_left :: "nat \<Rightarrow> memchunk \<Rightarrow> nat" where
  "mc_left N m = N - mc_last m"

definition mc_reset :: "memchunk \<Rightarrow> memchunk" where
  "mc_reset m = m\<lparr>mc_pos := 0, mc_last := 0\<rparr>"

text \<open>\<^verbatim>\<open>m->last = std::copy_n(src, src.size(), m->last)\<close> and a read of \<open>n\<close> bytes at \<^verbatim>\<open>pos\<close>.\<close>

definition mc_write :: "bytes \<Rightarrow> memchunk \<Rightarrow> memchunk" where
  "mc_write src m = m\<lparr>mc_buf := take (mc_last m) (mc_buf m) @ src @ drop (mc_last m + length src) (mc_buf m),
                      mc_last := mc_last m + length src\<rparr>"

definition mc_read :: "nat \<Rightarrow> memchunk \<Rightarrow> bytes" where
  "mc_read n m = take n (drop (mc_pos m) (mc_buf m))"

record mempool =
  heap :: "addr \<rightharpoonup> memchunk"
  new_addr :: addr
  pool_list :: "addr option"
  freelist :: "addr option"
  poolsize :: nat
  freelistsize :: nat

definition Pool_init :: mempool where
  "Pool_init = \<lparr>heap = Map.empty, new_addr = 0, pool_list = None, freelist = None,
     poolsize = 0, freelistsize = 0\<rparr>"

definition chunk_at :: "mempool \<Rightarrow> addr \<Rightarrow> memchunk" where
  "chunk_at s a = the (heap s a)"

definition put_chunk :: "addr \<Rightarrow> memchunk \<Rightarrow> mempool \<Rightarrow> mempool" where
  "put_chunk a m s = s\<lparr>heap := (heap s)(a \<mapsto> m)\<rparr>"

definition Pool_get :: "nat \<Rightarrow> mempool \<Rightarrow> addr \<times> mempool" where
  "Pool_get N s =
     (case freelist s of
        Some m \<Rightarrow>
          let c = chunk_at s m;
              s1 = s\<lparr>freelist := mc_next c\<rparr>;
              s2 = put_chunk m (mc_reset (c\<lparr>mc_next := None\<rparr>)) s1
          in (m, s2\<lparr>freelistsize := freelistsize s2 - N\<rparr>)
      | None \<Rightarrow>
          let a = new_addr s;
              s1 = put_chunk a (Memchunk_init N (pool_list s)) s
          in (a, s1\<lparr>new_addr := Suc a, pool_list := Some a, poolsize := poolsize s1 + N\<rparr>))"

definition Pool_recycle :: "nat \<Rightarrow> addr \<Rightarrow> mempool \<Rightarrow> mempool" where
  "Pool_recycle N m s =
     (let s1 = put_chunk m ((chunk_at s m)\<lparr>mc_next := freelist s\<rparr>) s
      in s1\<lparr>freelist := Some m, freelistsize := freelistsize s1 + N\<rparr>)"

partial_function (option) clear_loop :: "addr option \<Rightarrow> mempool \<Rightarrow> mempool option" where
  "clear_loop p s =
     (case p of
        None \<Rightarrow> Some s
      | Some a \<Rightarrow> clear_loop (mc_knext (chunk_at s a)) (s\<lparr>heap := (heap s)(a := None)\<rparr>))"

definition Pool_clear :: "mempool \<Rightarrow> mempool option" where
  "Pool_clear s =
     map_option (\<lambda>s1. s1\<lparr>pool_list := None, poolsize := 0\<rparr>)
       (clear_loop (pool_list s) (s\<lparr>freelist := None, freelistsize := 0\<rparr>))"

section \<open>The byte queue\<close>

record memchunks =
  mks_head :: "addr option"
  mks_tail :: "addr option"
  mks_len :: nat

definition Memchunks_init :: memchunks where
  "Memchunks_init = \<lparr>mks_head = None, mks_tail = None, mks_len = 0\<rparr>"

definition link_chunk :: "addr \<Rightarrow> addr \<Rightarrow> mempool \<Rightarrow> mempool" where
  "link_chunk a m s = put_chunk a ((chunk_at s a)\<lparr>mc_next := Some m\<rparr>) s"

definition append_char :: "nat \<Rightarrow> u8 \<Rightarrow> memchunks \<times> mempool \<Rightarrow> nat \<times> (memchunks \<times> mempool)" where
  "append_char N c st =
     (let (q, s) = st;
          (t, q1, s1) =
            (case mks_tail q of
               None \<Rightarrow> let (m, s1) = Pool_get N s in (m, q\<lparr>mks_head := Some m, mks_tail := Some m\<rparr>, s1)
             | Some t \<Rightarrow>
                 if mc_left N (chunk_at s t) = 0
                 then let (m, s1) = Pool_get N s in (m, q\<lparr>mks_tail := Some m\<rparr>, link_chunk t m s1)
                 else (t, q, s))
      in (1, q1\<lparr>mks_len := mks_len q1 + 1\<rparr>, put_chunk t (mc_write [c] (chunk_at s1 t)) s1))"

partial_function (option) append_loop ::
    "nat \<Rightarrow> addr \<Rightarrow> bytes \<Rightarrow> memchunks \<times> mempool \<Rightarrow> (memchunks \<times> mempool) option" where
  "append_loop N t src st =
     (let (q, s) = st;
          n = min (length src) (mc_left N (chunk_at s t));
          s1 = put_chunk t (mc_write (take n src) (chunk_at s t)) s;
          q1 = q\<lparr>mks_len := mks_len q + n\<rparr>
      in if drop n src = [] then Some (q1, s1)
         else let (m, s2) = Pool_get N s1
              in append_loop N m (drop n src) (q1\<lparr>mks_tail := Some m\<rparr>, link_chunk t m s2))"

definition append_bytes ::
    "nat \<Rightarrow> bytes \<Rightarrow> memchunks \<times> mempool \<Rightarrow> (nat \<times> (memchunks \<times> mempool)) option" where
  "append_bytes N src st =
     (if src = [] then Some (0, st)
      else let (q, s) = st;
               (t, q1, s1) =
                 (case mks_tail q of
                    None \<Rightarrow> let (m, s1) = Pool_get N s in (m, q\<lparr>mks_head := Some m, mks_tail := Some m\<rparr>, s1)
                  | Some t \<Rightarrow> (t, q, s))
           in map_option (\<lambda>st'. (length src, st')) (append_loop N t src (q1, s1)))"

text \<open>\<^verbatim>\<open>remove(void*, size_t)\<close>: the bytes written to the destination, in order. The assertion that no
  chunk of the queue is empty is a fault of the result.\<close>

partial_function (option) remove_loop ::
    "nat \<Rightarrow> addr option \<Rightarrow> nat \<Rightarrow> bytes \<Rightarrow> memchunks \<times> mempool
      \<Rightarrow> (bytes \<times> addr option \<times> memchunks \<times> mempool) result option" where
  "remove_loop N p left dest st =
     (case p of
        None \<Rightarrow> Some (Inr (dest, None, st))
      | Some a \<Rightarrow>
          let (q, s) = st;
              m = chunk_at s a;
              n = min left (mc_len m);
              m1 = m\<lparr>mc_pos := mc_pos m + n\<rparr>;
              q1 = q\<lparr>mks_len := mks_len q - n\<rparr>;
              s1 = put_chunk a m1 s
          in if mc_len m = 0 then Some (Inl Assertion)
             else if 0 < mc_len m1 then Some (Inr (dest @ mc_read n m, Some a, q1, s1))
             else remove_loop N (mc_next m) (left - n) (dest @ mc_read n m) (q1, Pool_recycle N a s1))"

definition set_head :: "addr option \<Rightarrow> memchunks \<Rightarrow> memchunks" where
  "set_head p q = (if p = None then q\<lparr>mks_head := None, mks_tail := None\<rparr> else q\<lparr>mks_head := p\<rparr>)"

definition remove_bytes ::
    "nat \<Rightarrow> nat \<Rightarrow> memchunks \<times> mempool \<Rightarrow> (bytes \<times> (memchunks \<times> mempool)) result option" where
  "remove_bytes N count st =
     (if mks_tail (fst st) = None \<or> count = 0 then Some (Inr ([], st))
      else map_option (\<lambda>r. rbind r (\<lambda>(dest, p, q, s). Inr (dest, set_head p q, s)))
             (remove_loop N (mks_head (fst st)) count [] st))"

partial_function (option) drain_loop ::
    "nat \<Rightarrow> addr option \<Rightarrow> nat \<Rightarrow> memchunks \<times> mempool
      \<Rightarrow> (nat \<times> addr option \<times> memchunks \<times> mempool) option" where
  "drain_loop N p count st =
     (case p of
        None \<Rightarrow> Some (count, None, st)
      | Some a \<Rightarrow>
          let (q, s) = st;
              m = chunk_at s a;
              n = min count (mc_len m);
              m1 = m\<lparr>mc_pos := mc_pos m + n\<rparr>;
              q1 = q\<lparr>mks_len := mks_len q - n\<rparr>;
              s1 = put_chunk a m1 s
          in if 0 < mc_len m1 then Some (count - n, Some a, q1, s1)
             else drain_loop N (mc_next m) (count - n) (q1, Pool_recycle N a s1))"

definition drain :: "nat \<Rightarrow> nat \<Rightarrow> memchunks \<times> mempool \<Rightarrow> (nat \<times> (memchunks \<times> mempool)) option" where
  "drain N count st =
     map_option (\<lambda>(left, p, q, s). (count - left, set_head p q, s))
       (drain_loop N (mks_head (fst st)) count st)"

text \<open>Operations on two queues of one pool: \<^verbatim>\<open>copy\<close>, \<^verbatim>\<open>remove(Memchunks&, size_t)\<close> and
  \<^verbatim>\<open>remove(Memchunks&)\<close>, which hands the whole list over.\<close>

partial_function (option) copy_loop ::
    "nat \<Rightarrow> addr option \<Rightarrow> memchunks \<times> mempool \<Rightarrow> (memchunks \<times> mempool) option" where
  "copy_loop N p st =
     (case p of
        None \<Rightarrow> Some st
      | Some a \<Rightarrow>
          Option.bind (append_bytes N (mc_read (mc_len (chunk_at (snd st) a)) (chunk_at (snd st) a)) st)
            (\<lambda>(_, st'). copy_loop N (mc_next (chunk_at (snd st') a)) st'))"

definition copy_chunks ::
    "nat \<Rightarrow> memchunks \<Rightarrow> memchunks \<times> mempool \<Rightarrow> (nat \<times> (memchunks \<times> mempool)) option" where
  "copy_chunks N q st = map_option (\<lambda>st'. (mks_len q, st')) (copy_loop N (mks_head q) st)"

partial_function (option) remove_into_loop ::
    "nat \<Rightarrow> addr option \<Rightarrow> nat \<Rightarrow> memchunks \<times> memchunks \<times> mempool
      \<Rightarrow> (nat \<times> addr option \<times> memchunks \<times> memchunks \<times> mempool) result option" where
  "remove_into_loop N p left st =
     (case p of
        None \<Rightarrow> Some (Inr (left, None, st))
      | Some a \<Rightarrow>
          let (q, dest, s) = st;
              m = chunk_at s a;
              n = min left (mc_len m)
          in if mc_len m = 0 then Some (Inl Assertion)
             else Option.bind (append_bytes N (mc_read n m) (dest, s)) (\<lambda>(_, dest1, s1).
               let m1 = (chunk_at s1 a)\<lparr>mc_pos := mc_pos (chunk_at s1 a) + n\<rparr>;
                   s2 = put_chunk a m1 s1;
                   q1 = q\<lparr>mks_len := mks_len q - n\<rparr>
               in if 0 < mc_len m1 then Some (Inr (left - n, Some a, q1, dest1, s2))
                  else remove_into_loop N (mc_next m) (left - n) (q1, dest1, Pool_recycle N a s2)))"

definition remove_into ::
    "nat \<Rightarrow> nat \<Rightarrow> memchunks \<times> memchunks \<times> mempool
      \<Rightarrow> (nat \<times> (memchunks \<times> memchunks \<times> mempool)) result option" where
  "remove_into N count st =
     (if mks_tail (fst st) = None \<or> count = 0 then Some (Inr (0, st))
      else map_option (\<lambda>r. rbind r (\<lambda>(left, p, q, dest, s). Inr (count - left, set_head p q, dest, s)))
             (remove_into_loop N (mks_head (fst st)) count st))"

definition splice :: "memchunks \<times> memchunks \<times> mempool \<Rightarrow> nat \<times> (memchunks \<times> memchunks \<times> mempool)" where
  "splice st =
     (let (q, dest, s) = st
      in case mks_head q of
           None \<Rightarrow> (0, st)
         | Some h \<Rightarrow>
             let (d1, s1) = (case mks_tail dest of
                               None \<Rightarrow> (dest\<lparr>mks_head := mks_head q\<rparr>, s)
                             | Some t \<Rightarrow> (dest, link_chunk t h s))
             in (mks_len q,
                 q\<lparr>mks_head := None, mks_tail := None, mks_len := 0\<rparr>,
                 d1\<lparr>mks_tail := mks_tail q, mks_len := mks_len d1 + mks_len q\<rparr>, s1))"

text \<open>An \<^verbatim>\<open>iovec\<close> is an address, an offset and a length.\<close>

fun riovec_loop :: "nat \<Rightarrow> addr option \<Rightarrow> mempool \<Rightarrow> (addr \<times> nat \<times> nat) list" where
  "riovec_loop (Suc k) (Some a) s =
     (a, mc_pos (chunk_at s a), mc_len (chunk_at s a)) # riovec_loop k (mc_next (chunk_at s a)) s"
| "riovec_loop _ _ s = []"

definition riovec :: "nat \<Rightarrow> memchunks \<times> mempool \<Rightarrow> (addr \<times> nat \<times> nat) list" where
  "riovec iovcnt st = riovec_loop iovcnt (mks_head (fst st)) (snd st)"

function limit_iovec_loop :: "nat \<Rightarrow> nat \<Rightarrow> nat \<Rightarrow> nat list \<Rightarrow> nat \<times> nat list" where
  "limit_iovec_loop i iovcnt bound lens =
     (if iovcnt \<le> i then (iovcnt, lens)
      else let d = min bound (lens ! i); lens' = lens[i := d]
           in if bound - d = 0 then (i + 1, lens') else limit_iovec_loop (Suc i) iovcnt (bound - d) lens')"
  by auto
termination
  by (relation "measure (\<lambda>(i, iovcnt, bound, lens). iovcnt - i)") auto

declare limit_iovec_loop.simps [simp del]

text \<open>The number of vectors to use and the lengths after it.\<close>

definition limit_iovec :: "nat list \<Rightarrow> nat \<Rightarrow> nat \<times> nat list" where
  "limit_iovec lens bound = (if bound = 0 then (0, lens) else limit_iovec_loop 0 (length lens) bound lens)"

partial_function (option) recycle_all :: "nat \<Rightarrow> addr option \<Rightarrow> mempool \<Rightarrow> mempool option" where
  "recycle_all N p s =
     (case p of
        None \<Rightarrow> Some s
      | Some a \<Rightarrow> recycle_all N (mc_next (chunk_at s a)) (Pool_recycle N a s))"

definition reset_queue :: "nat \<Rightarrow> memchunks \<times> mempool \<Rightarrow> (memchunks \<times> mempool) option" where
  "reset_queue N st =
     map_option (\<lambda>s. ((fst st)\<lparr>mks_len := 0, mks_head := None, mks_tail := None\<rparr>, s))
       (recycle_all N (mks_head (fst st)) (snd st))"

section \<open>Peeking\<close>

record peek_memchunks =
  pk_chunks :: memchunks
  pk_cur :: "addr option"
  pk_pos :: "(addr \<times> nat) option"
  pk_last :: "(addr \<times> nat) option"
  pk_len :: nat
  pk_peeking :: bool

definition PeekMemchunks_init :: peek_memchunks where
  "PeekMemchunks_init = \<lparr>pk_chunks = Memchunks_init, pk_cur = None, pk_pos = None, pk_last = None,
     pk_len = 0, pk_peeking = True\<rparr>"

definition peek_append ::
    "nat \<Rightarrow> bytes \<Rightarrow> peek_memchunks \<times> mempool \<Rightarrow> (nat \<times> (peek_memchunks \<times> mempool)) option" where
  "peek_append N src st =
     (let (k, s) = st
      in map_option (\<lambda>(count, q, s1). (count, k\<lparr>pk_chunks := q, pk_len := pk_len k + count\<rparr>, s1))
           (append_bytes N src (pk_chunks k, s)))"

text \<open>The loop of \<^verbatim>\<open>PeekMemchunks::remove\<close>. The difference of two pointers is defined only inside one
  chunk.\<close>

partial_function (option) peek_loop ::
    "nat \<Rightarrow> bytes \<Rightarrow> peek_memchunks \<times> mempool \<Rightarrow> (bytes \<times> (peek_memchunks \<times> mempool)) result option" where
  "peek_loop left dest st =
     (let (k, s) = st
      in case (pk_cur k, pk_pos k, pk_last k) of
           (Some c, Some (a, i), Some (b, j)) \<Rightarrow>
             if a \<noteq> b \<or> j < i then Some (Inl Out_Of_Bounds)
             else let n = min left (j - i);
                      dest1 = dest @ take n (drop i (mc_buf (chunk_at s a)));
                      k1 = k\<lparr>pk_pos := Some (a, i + n), pk_len := pk_len k - n\<rparr>
                  in if left - n = 0 then Some (Inr (dest1, k1, s))
                     else if i + n \<noteq> j then Some (Inl Assertion)
                     else case mc_next (chunk_at s c) of
                            None \<Rightarrow> Some (Inr (dest1, k1, s))
                          | Some c' \<Rightarrow>
                              peek_loop (left - n) dest1
                                (k1\<lparr>pk_cur := Some c', pk_pos := Some (c', mc_pos (chunk_at s c')),
                                    pk_last := Some (c', mc_last (chunk_at s c'))\<rparr>, s)
         | _ \<Rightarrow> Some (Inl Out_Of_Bounds))"

definition peek_remove ::
    "nat \<Rightarrow> nat \<Rightarrow> peek_memchunks \<times> mempool \<Rightarrow> (bytes \<times> (peek_memchunks \<times> mempool)) result option" where
  "peek_remove N count st =
     (let (k, s) = st
      in if \<not> pk_peeking k
         then map_option (\<lambda>r. rbind r (\<lambda>(dest, q, s1).
                Inr (dest, k\<lparr>pk_chunks := q, pk_len := pk_len k - length dest\<rparr>, s1)))
                (remove_bytes N count (pk_chunks k, s))
         else if count = 0 \<or> pk_len k = 0 then Some (Inr ([], st))
         else let k1 = (if pk_cur k = None
                        then k\<lparr>pk_cur := mks_head (pk_chunks k),
                               pk_pos := map_option (\<lambda>h. (h, mc_pos (chunk_at s h))) (mks_head (pk_chunks k))\<rparr>
                        else k)
              in case pk_cur k1 of
                   None \<Rightarrow> Some (Inl Out_Of_Bounds)
                 | Some c \<Rightarrow>
                     let k2 = k1\<lparr>pk_last := Some (c, mc_last (chunk_at s c))\<rparr>
                     in if pk_pos k2 = pk_last k2
                        then (case mc_next (chunk_at s c) of
                                None \<Rightarrow> Some (Inl Assertion)
                              | Some c' \<Rightarrow> peek_loop count [] (k2\<lparr>pk_cur := Some c'\<rparr>, s))
                        else peek_loop count [] (k2, s))"

definition disable_peek ::
    "nat \<Rightarrow> bool \<Rightarrow> peek_memchunks \<times> mempool \<Rightarrow> (peek_memchunks \<times> mempool) result option" where
  "disable_peek N dodrain st =
     (let (k, s) = st;
          stop = (\<lambda>k. k\<lparr>pk_cur := None, pk_pos := None, pk_last := None, pk_peeking := False\<rparr>)
      in if \<not> pk_peeking k then Some (Inr st)
         else if dodrain
         then map_option (\<lambda>(_, q, s1).
                if pk_len k = mks_len q then Inr (stop (k\<lparr>pk_chunks := q\<rparr>), s1) else Inl Assertion)
                (drain N (mks_len (pk_chunks k) - pk_len k) (pk_chunks k, s))
         else Some (Inr (stop (k\<lparr>pk_len := mks_len (pk_chunks k)\<rparr>), s)))"

definition peek_reset :: "nat \<Rightarrow> peek_memchunks \<times> mempool \<Rightarrow> (peek_memchunks \<times> mempool) option" where
  "peek_reset N st =
     map_option (\<lambda>(q, s). ((fst st)\<lparr>pk_chunks := q, pk_cur := None, pk_pos := None, pk_last := None,
                             pk_len := 0, pk_peeking := True\<rparr>, s))
       (reset_queue N (pk_chunks (fst st), snd st))"

section \<open>A single buffer\<close>

text \<open>\<^verbatim>\<open>MemchunkBuffer\<close> is a pool and the address of its chunk, null until \<^verbatim>\<open>ensure_chunk\<close>.\<close>

definition ensure_chunk :: "nat \<Rightarrow> addr option \<times> mempool \<Rightarrow> addr option \<times> mempool" where
  "ensure_chunk N st =
     (case fst st of Some a \<Rightarrow> st | None \<Rightarrow> let (m, s) = Pool_get N (snd st) in (Some m, s))"

definition release_chunk :: "nat \<Rightarrow> addr option \<times> mempool \<Rightarrow> addr option \<times> mempool" where
  "release_chunk N st =
     (case fst st of None \<Rightarrow> st | Some a \<Rightarrow> (None, Pool_recycle N a (snd st)))"

definition buffer_write :: "nat \<Rightarrow> bytes \<Rightarrow> memchunk \<Rightarrow> nat \<times> memchunk" where
  "buffer_write N src m = (let count = min (length src) (mc_left N m) in (count, mc_write (take count src) m))"

definition buffer_advance :: "nat \<Rightarrow> nat \<Rightarrow> memchunk \<Rightarrow> nat \<times> memchunk" where
  "buffer_advance N count m =
     (let count = min count (mc_left N m) in (count, m\<lparr>mc_last := mc_last m + count\<rparr>))"

definition buffer_drain :: "nat \<Rightarrow> memchunk \<Rightarrow> nat \<times> memchunk" where
  "buffer_drain count m = (let count = min count (mc_len m) in (count, m\<lparr>mc_pos := mc_pos m + count\<rparr>))"

definition drain_reset :: "nat \<Rightarrow> memchunk \<Rightarrow> nat \<times> memchunk" where
  "drain_reset count m =
     (let count = min count (mc_len m);
          rest = take (mc_last m - (mc_pos m + count)) (drop (mc_pos m + count) (mc_buf m))
      in (count, m\<lparr>mc_buf := rest @ drop (length rest) (mc_buf m),
                   mc_last := mc_last m - (mc_pos m + count), mc_pos := 0\<rparr>))"

declare clear_loop.simps [code] append_loop.simps [code] remove_loop.simps [code] drain_loop.simps [code]
  copy_loop.simps [code] remove_into_loop.simps [code] recycle_all.simps [code] peek_loop.simps [code]

section \<open>Invariant of the pool\<close>

text \<open>The addresses met from a pointer along \<^verbatim>\<open>next\<close>.\<close>

fun chain :: "mempool \<Rightarrow> addr option \<Rightarrow> addr list \<Rightarrow> bool" where
  "chain s p [] \<longleftrightarrow> p = None"
| "chain s p (a # as) \<longleftrightarrow> p = Some a \<and> chain s (mc_next (chunk_at s a)) as"

definition chunk_wf :: "nat \<Rightarrow> memchunk \<Rightarrow> bool" where
  "chunk_wf N m \<longleftrightarrow> length (mc_buf m) = N \<and> mc_pos m \<le> mc_last m \<and> mc_last m \<le> N"

definition previous :: "nat \<Rightarrow> addr option" where
  "previous a = (if a = 0 then None else Some (a - 1))"

text \<open>A pool: the chunks allocated so far are either on the free list or in use (\<open>used\<close>), never both, and
  the two byte counts follow.\<close>

definition pool_wf :: "nat \<Rightarrow> mempool \<Rightarrow> addr list \<Rightarrow> addr set \<Rightarrow> bool" where
  "pool_wf N s fs used \<longleftrightarrow>
     chain s (freelist s) fs \<and> distinct fs \<and> set fs \<inter> used = {} \<and> set fs \<union> used = {..<new_addr s}
     \<and> freelistsize s = N * length fs \<and> poolsize s = N * new_addr s
     \<and> dom (heap s) = {..<new_addr s} \<and> pool_list s = previous (new_addr s)
     \<and> (\<forall>a < new_addr s. chunk_wf N (chunk_at s a) \<and> mc_knext (chunk_at s a) = previous a)"

lemma heap_put [simp]:
  "heap (put_chunk a m s) = (heap s)(a \<mapsto> m)" "new_addr (put_chunk a m s) = new_addr s"
  "freelist (put_chunk a m s) = freelist s" "pool_list (put_chunk a m s) = pool_list s"
  "poolsize (put_chunk a m s) = poolsize s" "freelistsize (put_chunk a m s) = freelistsize s"
  by (simp_all add: put_chunk_def)

lemma chunk_at_put [simp]: "chunk_at (put_chunk a m s) b = (if b = a then m else chunk_at s b)"
  by (simp add: chunk_at_def)

lemma chunk_at_updates [simp]:
  "chunk_at (s\<lparr>freelist := f\<rparr>) a = chunk_at s a" "chunk_at (s\<lparr>freelistsize := n\<rparr>) a = chunk_at s a"
  "chunk_at (s\<lparr>new_addr := n\<rparr>) a = chunk_at s a" "chunk_at (s\<lparr>pool_list := f\<rparr>) a = chunk_at s a"
  "chunk_at (s\<lparr>poolsize := n\<rparr>) a = chunk_at s a"
  by (simp_all add: chunk_at_def)

lemma chain_cong:
  "(\<And>a. a \<in> set xs \<Longrightarrow> mc_next (chunk_at s' a) = mc_next (chunk_at s a)) \<Longrightarrow> chain s' p xs = chain s p xs"
  by (induction xs arbitrary: p) auto

lemma chain_inj: "chain s p xs \<Longrightarrow> chain s p ys \<Longrightarrow> xs = ys"
proof (induction xs arbitrary: p ys)
  case Nil
  then show ?case by (cases ys) auto
next
  case (Cons a xs)
  then show ?case by (cases ys) auto
qed

lemma chain_snoc:
  "chain s p (xs @ [t]) \<Longrightarrow> t \<notin> set xs \<Longrightarrow> m \<notin> set (xs @ [t]) \<Longrightarrow>
    (\<And>a. a \<in> set xs \<Longrightarrow> mc_next (chunk_at s' a) = mc_next (chunk_at s a)) \<Longrightarrow>
    mc_next (chunk_at s' t) = Some m \<Longrightarrow> mc_next (chunk_at s' m) = None \<Longrightarrow> chain s' p (xs @ [t, m])"
  by (induction xs arbitrary: p) auto

text \<open>The three ways the store changes.\<close>

lemma pool_wf_put:
  assumes "pool_wf N s fs used" and "a \<in> used" and "chunk_wf N m" and "mc_knext m = mc_knext (chunk_at s a)"
  shows "pool_wf N (put_chunk a m s) fs used"
proof -
  have "a < new_addr s" "a \<notin> set fs" using assms(1,2) by (auto simp: pool_wf_def)
  moreover have "chain (put_chunk a m s) (freelist s) fs = chain s (freelist s) fs"
    by (rule chain_cong) (use \<open>a \<notin> set fs\<close> in auto)
  ultimately show ?thesis using assms unfolding pool_wf_def by auto
qed

lemma pool_wf_recycle:
  assumes "pool_wf N s fs used" and "a \<in> used"
  shows "pool_wf N (Pool_recycle N a s) (a # fs) (used - {a})"
proof -
  have a: "a < new_addr s" "a \<notin> set fs" using assms by (auto simp: pool_wf_def)
  have "chain (put_chunk a m s) (freelist s) fs = chain s (freelist s) fs" for m
    by (rule chain_cong) (use a in auto)
  moreover have "chain (s'\<lparr>freelist := f, freelistsize := k\<rparr>) p fs = chain s' p fs" for s' f k p
    by (rule chain_cong) (simp add: chunk_at_def)
  moreover have "chunk_wf N ((chunk_at s a)\<lparr>mc_next := p\<rparr>) = chunk_wf N (chunk_at s a)" for p
    by (simp add: chunk_wf_def)
  ultimately show ?thesis using assms a unfolding pool_wf_def Pool_recycle_def Let_def
    by (auto simp: chunk_at_def)
qed

lemma heap_recycle: "a \<noteq> m \<Longrightarrow> heap (Pool_recycle N m s) a = heap s a"
  by (simp add: Pool_recycle_def Let_def)

lemma pool_wf_get:
  assumes "pool_wf N s fs used" and "Pool_get N s = (m, s')"
  obtains fs' where "pool_wf N s' fs' (insert m used)" and "m \<notin> used" and "\<And>a. a \<noteq> m \<Longrightarrow> heap s' a = heap s a"
    and "mc_pos (chunk_at s' m) = 0" and "mc_last (chunk_at s' m) = 0" and "mc_next (chunk_at s' m) = None"
proof (cases "freelist s")
  case None
  then have fs: "fs = []" using assms(1) by (cases fs) (auto simp: pool_wf_def)
  have m: "m = new_addr s" and s': "s' = (put_chunk m (Memchunk_init N (pool_list s)) s)
      \<lparr>new_addr := Suc m, pool_list := Some m, poolsize := poolsize s + N\<rparr>"
    using assms(2) None by (auto simp: Pool_get_def Let_def)
  have "pool_wf N s' [] (insert m used)"
    using assms(1) None fs m
    by (auto simp: s' pool_wf_def previous_def chunk_wf_def Memchunk_init_def lessThan_Suc chunk_at_def less_Suc_eq)
  moreover have "m \<notin> used" using assms(1) m by (auto simp: pool_wf_def)
  ultimately show thesis
    by (rule that) (simp_all add: s' chunk_at_def Memchunk_init_def)
next
  case (Some f)
  then obtain fs' where fs: "fs = f # fs'" and c: "chain s (mc_next (chunk_at s f)) fs'"
    using assms(1) by (cases fs) (auto simp: pool_wf_def)
  let ?c = "mc_reset ((chunk_at s f)\<lparr>mc_next := None\<rparr>)"
  have m: "m = f" and s': "s' = (put_chunk f ?c (s\<lparr>freelist := mc_next (chunk_at s f)\<rparr>))
      \<lparr>freelistsize := freelistsize s - N\<rparr>"
    using assms(2) Some by (auto simp: Pool_get_def Let_def)
  have f: "f < new_addr s" "f \<notin> set fs'" "f \<notin> used" using assms(1) fs by (auto simp: pool_wf_def)
  have "chain s' (mc_next (chunk_at s f)) fs' = chain s (mc_next (chunk_at s f)) fs'"
    by (rule chain_cong) (use f in \<open>auto simp: s' chunk_at_def\<close>)
  moreover have "chunk_wf N ?c" using assms(1) f(1) by (auto simp: pool_wf_def chunk_wf_def mc_reset_def)
  moreover have "{..<new_addr s} = set fs' \<union> insert f used" using assms(1) fs by (auto simp: pool_wf_def)
  ultimately have "pool_wf N s' fs' (insert m used)"
    using assms(1) fs f c by (auto simp: s' m pool_wf_def chunk_at_def mc_reset_def)
  moreover have "m \<notin> used" using f m by simp
  ultimately show thesis
    by (rule that) (simp_all add: s' m chunk_at_def mc_reset_def)
qed

section \<open>Invariant of a queue\<close>

definition chunk_data :: "memchunk \<Rightarrow> bytes" where
  "chunk_data m = mc_read (mc_len m) m"

definition contents :: "mempool \<Rightarrow> addr list \<Rightarrow> bytes" where
  "contents s xs = concat (map (\<lambda>a. chunk_data (chunk_at s a)) xs)"

text \<open>A queue whose chunks are \<open>xs\<close>, in a pool where the chunks \<open>others\<close> belong to other owners: no chunk of
  the queue is empty and the count of bytes is right.\<close>

definition queue_wf :: "nat \<Rightarrow> memchunks \<times> mempool \<Rightarrow> addr list \<Rightarrow> addr set \<Rightarrow> bool" where
  "queue_wf N st xs others \<longleftrightarrow>
     (\<exists>fs. pool_wf N (snd st) fs (set xs \<union> others)) \<and> distinct xs \<and> set xs \<inter> others = {}
     \<and> chain (snd st) (mks_head (fst st)) xs
     \<and> mks_tail (fst st) = (if xs = [] then None else Some (last xs))
     \<and> mks_len (fst st) = length (contents (snd st) xs)
     \<and> (\<forall>a \<in> set xs. 0 < mc_len (chunk_at (snd st) a))"

definition same_on :: "addr set \<Rightarrow> mempool \<Rightarrow> mempool \<Rightarrow> bool" where
  "same_on A s s' \<longleftrightarrow> (\<forall>a \<in> A. heap s' a = heap s a)"

lemma chunk_at_same: "heap s' a = heap s a \<Longrightarrow> chunk_at s' a = chunk_at s a"
  by (simp add: chunk_at_def)

lemma contents_cong: "(\<And>a. a \<in> set xs \<Longrightarrow> heap s' a = heap s a) \<Longrightarrow> contents s' xs = contents s xs"
  by (simp add: contents_def chunk_at_def cong: map_cong)

lemma contents_append [simp]: "contents s (xs @ ys) = contents s xs @ contents s ys"
  by (simp add: contents_def)

lemma contents_simps [simp]:
  "contents s [] = []" "contents s (a # xs) = chunk_data (chunk_at s a) @ contents s xs"
  by (simp_all add: contents_def)

lemma length_chunk_data: "chunk_wf N m \<Longrightarrow> length (chunk_data m) = mc_len m"
  by (auto simp: chunk_data_def mc_read_def mc_len_def chunk_wf_def)

lemma chunk_wf_write:
  "chunk_wf N m \<Longrightarrow> length src \<le> mc_left N m \<Longrightarrow> chunk_wf N (mc_write src m)"
  by (auto simp: chunk_wf_def mc_write_def mc_left_def)

lemma chunk_data_write:
  assumes "chunk_wf N m" and "length src \<le> mc_left N m"
  shows "chunk_data (mc_write src m) = chunk_data m @ src"
proof -
  obtain buf pos last where m: "mc_buf m = buf" "mc_pos m = pos" "mc_last m = last" "length buf = N"
    "pos \<le> last" "last + length src \<le> N" using assms by (auto simp: chunk_wf_def mc_left_def)
  have "drop pos (take last buf @ src @ drop (last + length src) buf)
      = take (last - pos) (drop pos buf) @ src @ drop (last + length src) buf"
    using m by (simp add: drop_take)
  then show ?thesis using m by (simp add: chunk_data_def mc_read_def mc_write_def mc_len_def min_absorb2)
qed

lemma mc_write_simps [simp]:
  "mc_next (mc_write src m) = mc_next m" "mc_knext (mc_write src m) = mc_knext m"
  "mc_pos (mc_write src m) = mc_pos m" "mc_last (mc_write src m) = mc_last m + length src"
  by (auto simp: mc_write_def)

lemma mc_len_write: "chunk_wf N m \<Longrightarrow> mc_len (mc_write src m) = mc_len m + length src"
  by (simp add: mc_len_def chunk_wf_def)

lemma same_on_trans: "same_on A s s1 \<Longrightarrow> same_on A s1 s2 \<Longrightarrow> same_on A s s2"
  by (simp add: same_on_def)

lemma pool_chunk_wf: "pool_wf N s fs used \<Longrightarrow> a \<in> used \<Longrightarrow> chunk_wf N (chunk_at s a)"
  by (auto simp: pool_wf_def)

text \<open>A queue in the middle of an append: its last chunk \<open>t\<close> may still be empty. Writing into the last chunk
  and linking a fresh chunk behind it keep the state.\<close>

definition filling :: "nat \<Rightarrow> mempool \<Rightarrow> addr option \<Rightarrow> addr list \<Rightarrow> addr \<Rightarrow> addr set \<Rightarrow> bool" where
  "filling N s h xs t others \<longleftrightarrow>
     (\<exists>fs. pool_wf N s fs (insert t (set xs) \<union> others)) \<and> distinct (xs @ [t]) \<and> insert t (set xs) \<inter> others = {}
     \<and> chain s h (xs @ [t]) \<and> (\<forall>a \<in> set xs. 0 < mc_len (chunk_at s a))"

lemma fill_tail:
  assumes "filling N s h xs t others" and "length src \<le> mc_left N (chunk_at s t)"
    and "s1 = put_chunk t (mc_write src (chunk_at s t)) s"
  shows "filling N s1 h xs t others" and "contents s1 (xs @ [t]) = contents s (xs @ [t]) @ src"
    and "same_on others s s1" and "mc_len (chunk_at s1 t) = mc_len (chunk_at s t) + length src"
proof -
  obtain fs where P: "pool_wf N s fs (insert t (set xs) \<union> others)" "distinct (xs @ [t])"
    "insert t (set xs) \<inter> others = {}" "chain s h (xs @ [t])" "\<forall>a \<in> set xs. 0 < mc_len (chunk_at s a)"
    using assms(1) by (auto simp: filling_def)
  have cw: "chunk_wf N (chunk_at s t)" using P(1) by (rule pool_chunk_wf) simp
  have "pool_wf N s1 fs (insert t (set xs) \<union> others)"
    unfolding assms(3) using P(1) cw assms(2) by (intro pool_wf_put) (simp_all add: chunk_wf_write)
  moreover have "chain s1 h (xs @ [t])" using P(4) by (subst chain_cong) (auto simp: assms(3))
  ultimately show "filling N s1 h xs t others" using P by (auto simp: filling_def assms(3))
  have "contents s1 xs = contents s xs" using P(2) by (intro contents_cong) (auto simp: assms(3))
  then show "contents s1 (xs @ [t]) = contents s (xs @ [t]) @ src"
    using chunk_data_write [OF cw assms(2)] by (simp add: assms(3))
  show "same_on others s s1" using P(3) by (auto simp: same_on_def assms(3))
  show "mc_len (chunk_at s1 t) = mc_len (chunk_at s t) + length src"
    using mc_len_write [OF cw] by (simp add: assms(3))
qed

lemma extend_tail:
  assumes "filling N s h xs t others" and "0 < mc_len (chunk_at s t)"
    and "Pool_get N s = (m, s2)" and "s3 = link_chunk t m s2"
  shows "filling N s3 h (xs @ [t]) m others" and "contents s3 ((xs @ [t]) @ [m]) = contents s (xs @ [t])"
    and "same_on others s s3" and "mc_left N (chunk_at s3 m) = N"
proof -
  obtain fs where P: "pool_wf N s fs (insert t (set xs) \<union> others)" "distinct (xs @ [t])"
    "insert t (set xs) \<inter> others = {}" "chain s h (xs @ [t])" "\<forall>a \<in> set xs. 0 < mc_len (chunk_at s a)"
    using assms(1) by (auto simp: filling_def)
  obtain fs2 where w2: "pool_wf N s2 fs2 (insert m (insert t (set xs) \<union> others))"
    and m: "m \<notin> insert t (set xs) \<union> others" and h2: "\<And>a. a \<noteq> m \<Longrightarrow> heap s2 a = heap s a"
    and z: "mc_pos (chunk_at s2 m) = 0" "mc_last (chunk_at s2 m) = 0" "mc_next (chunk_at s2 m) = None"
    using pool_wf_get [OF P(1) assms(3)] by metis
  have w3: "pool_wf N s3 fs2 (insert m (set (xs @ [t])) \<union> others)"
    unfolding assms(4) link_chunk_def using w2 pool_chunk_wf [OF w2, of t]
    by (intro pool_wf_put) (auto simp: chunk_wf_def)
  have t2: "chunk_at s2 t = chunk_at s t" using h2 m by (intro chunk_at_same) auto
  have m3: "chunk_at s3 m = chunk_at s2 m" "chunk_at s3 t = (chunk_at s t)\<lparr>mc_next := Some m\<rparr>"
    using m t2 by (auto simp: assms(4) link_chunk_def)
  have h3: "\<And>a. a \<noteq> m \<Longrightarrow> a \<noteq> t \<Longrightarrow> heap s3 a = heap s a" using h2 by (simp add: assms(4) link_chunk_def)
  have x3: "chunk_at s3 a = chunk_at s a" if "a \<in> set xs" for a
    using h3 [of a] that P(2) m by (intro chunk_at_same) auto
  have "chain s3 h ((xs @ [t]) @ [m])" using chain_snoc [OF P(4), of m s3] P(2) m m3 z x3 by auto
  then show "filling N s3 h (xs @ [t]) m others"
    using w3 P m x3 m3 assms(2) by (auto simp: filling_def mc_len_def)
  show "contents s3 ((xs @ [t]) @ [m]) = contents s (xs @ [t])"
    using x3 m3 z by (simp add: contents_def chunk_data_def mc_read_def mc_len_def cong: map_cong)
  show "same_on others s s3" unfolding same_on_def
    by (intro ballI h3) (use m P(3) in auto)
  show "mc_left N (chunk_at s3 m) = N" using m3 z by (simp add: mc_left_def)
qed

lemma filling_closed:
  "filling N s h xs t others \<Longrightarrow> 0 < mc_len (chunk_at s t) \<Longrightarrow> mks_head q = h \<Longrightarrow> mks_tail q = Some t \<Longrightarrow>
    mks_len q = length (contents s (xs @ [t])) \<Longrightarrow> queue_wf N (q, s) (xs @ [t]) others"
  by (auto simp: filling_def queue_wf_def)

lemma append_loop_ok:
  assumes "0 < N" and "src \<noteq> []" and "filling N s h xs t others"
    and "0 < mc_len (chunk_at s t) \<or> mc_left N (chunk_at s t) \<noteq> 0"
    and "mks_head q = h" and "mks_tail q = Some t" and "mks_len q = length (contents s (xs @ [t]))"
  shows "\<exists>q' s' ys. append_loop N t src (q, s) = Some (q', s') \<and> queue_wf N (q', s') (xs @ t # ys) others
    \<and> contents s' (xs @ t # ys) = contents s (xs @ [t]) @ src \<and> same_on others s s'"
  using assms
proof (induction "length src + (if mc_left N (chunk_at s t) = 0 then 1 else 0)" arbitrary: src s t xs q rule: less_induct)
  case less
  note P = less.prems
  define n where "n = min (length src) (mc_left N (chunk_at s t))"
  define s1 where "s1 = put_chunk t (mc_write (take n src) (chunk_at s t)) s"
  define q1 where "q1 = q\<lparr>mks_len := mks_len q + n\<rparr>"
  have ln: "length (take n src) \<le> mc_left N (chunk_at s t)" "length (take n src) = n" by (simp_all add: n_def)
  note F = fill_tail [OF P(3) ln(1) s1_def]
  have l1: "0 < mc_len (chunk_at s1 t)" using F(4) P(2,4) by (auto simp: n_def)
  show ?case
  proof (cases "drop n src = []")
    case True
    then have nn: "n = length src" "length src \<le> mc_left N (chunk_at s t)" by (auto simp: n_def)
    then have "append_loop N t src (q, s) = Some (q1, s1)"
      by (subst append_loop.simps) (simp add: Let_def s1_def q1_def)
    moreover have "queue_wf N (q1, s1) (xs @ [t]) others"
      using P(5-7) F(2) l1 ln by (intro filling_closed [OF F(1)]) (auto simp: q1_def)
    ultimately show ?thesis using F(2,3) nn by (intro exI [of _ q1] exI [of _ s1] exI [of _ "[]"]) auto
  next
    case False
    then have nl: "n = mc_left N (chunk_at s t)" "n < length src" by (auto simp: n_def)
    obtain m s2 where g: "Pool_get N s1 = (m, s2)" by fastforce
    define s3 where "s3 = link_chunk t m s2"
    note E = extend_tail [OF F(1) l1 g s3_def]
    let ?q3 = "q1\<lparr>mks_tail := Some m\<rparr>"
    have less: "length (drop n src) + (if mc_left N (chunk_at s3 m) = 0 then 1 else 0)
        < length src + (if mc_left N (chunk_at s t) = 0 then 1 else 0)"
      using P(1) nl E(4) by auto
    have "mks_len ?q3 = length (contents s3 ((xs @ [t]) @ [m]))" using E(2) F(2) P(7) ln by (simp add: q1_def)
    with less.hyps [OF less P(1) False E(1), of ?q3] E(4) P(1,5)
    obtain q' s' ys where r: "append_loop N m (drop n src) (?q3, s3) = Some (q', s')"
      "queue_wf N (q', s') (xs @ t # m # ys) others"
      "contents s' (xs @ t # m # ys) = contents s3 ((xs @ [t]) @ [m]) @ drop n src" "same_on others s3 s'"
      by (auto simp: q1_def)
    have "\<not> length src \<le> mc_left N (chunk_at s t)" using nl by simp
    then have "append_loop N t src (q, s) = append_loop N m (drop n src) (?q3, s3)"
      using False g by (subst append_loop.simps)
        (simp add: Let_def n_def [symmetric] s1_def [symmetric] q1_def [symmetric] s3_def)
    moreover have "same_on others s s'" by (rule same_on_trans [OF F(3) same_on_trans [OF E(3) r(4)]])
    moreover have "contents s' (xs @ t # m # ys) = contents s (xs @ [t]) @ src"
      unfolding r(3) E(2) F(2) by simp
    ultimately show ?thesis using r(1,2)
      by (intro exI [of _ q'] exI [of _ s'] exI [of _ "m # ys"]) simp
  qed
qed

text \<open>Starting an append: the old tail, or a first chunk.\<close>

lemma queue_tail_filling:
  assumes "queue_wf N (q, s) (xs @ [t]) others"
  shows "filling N s (mks_head q) xs t others" and "0 < mc_len (chunk_at s t)"
    and "mks_tail q = Some t" and "mks_len q = length (contents s (xs @ [t]))"
  using assms by (auto simp: filling_def queue_wf_def)

lemma queue_first_chunk:
  assumes "queue_wf N (q, s) [] others" and "Pool_get N s = (m, s')"
  shows "filling N s' (Some m) [] m others" and "mc_left N (chunk_at s' m) = N"
    and "contents s' [m] = []" and "same_on others s s'" and "mks_len q = 0" and "mks_tail q = None"
proof -
  obtain fs where w: "pool_wf N s fs others" using assms(1) by (auto simp: queue_wf_def)
  obtain fs' where g: "pool_wf N s' fs' (insert m others)" "m \<notin> others" "\<And>a. a \<noteq> m \<Longrightarrow> heap s' a = heap s a"
    "mc_pos (chunk_at s' m) = 0" "mc_last (chunk_at s' m) = 0" "mc_next (chunk_at s' m) = None"
    using pool_wf_get [OF w assms(2)] by metis
  then show "filling N s' (Some m) [] m others" "mc_left N (chunk_at s' m) = N" "contents s' [m] = []"
    by (auto simp: filling_def mc_left_def chunk_data_def mc_read_def mc_len_def)
  show "same_on others s s'" unfolding same_on_def by (intro ballI g(3)) (use g(2) in auto)
  show "mks_len q = 0" "mks_tail q = None" using assms(1) by (auto simp: queue_wf_def)
qed

lemma append_bytes_ok:
  assumes "0 < N" and "queue_wf N (q, s) xs others"
  shows "\<exists>q' s' xs'. append_bytes N src (q, s) = Some (length src, q', s') \<and> queue_wf N (q', s') xs' others
    \<and> contents s' xs' = contents s xs @ src \<and> same_on others s s'"
proof (cases "src = []")
  case True
  then show ?thesis using assms(2) by (auto simp: append_bytes_def same_on_def)
next
  case src: False
  show ?thesis
  proof (cases xs rule: rev_cases)
    case Nil
    obtain m s1 where g: "Pool_get N s = (m, s1)" by fastforce
    note C = queue_first_chunk [OF assms(2) [unfolded Nil] g]
    show ?thesis
      using append_loop_ok [OF assms(1) src C(1), of "q\<lparr>mks_head := Some m, mks_tail := Some m\<rparr>"] assms(1) C(2-6) g src Nil
        same_on_trans [OF C(4)] by (force simp: append_bytes_def Let_def)
  next
    case (snoc ys t)
    note C = queue_tail_filling [OF assms(2) [unfolded snoc]]
    show ?thesis
      using append_loop_ok [OF assms(1) src C(1), of q] C(2-4) src snoc
      by (force simp: append_bytes_def Let_def)
  qed
qed

text \<open>Taking bytes from the front of one chunk.\<close>

lemma chunk_take:
  assumes "chunk_wf N m" and "n \<le> mc_len m" and "m1 = m\<lparr>mc_pos := mc_pos m + n\<rparr>"
  shows "chunk_wf N m1" and "mc_read n m @ chunk_data m1 = chunk_data m" and "mc_len m1 = mc_len m - n"
    and "length (mc_read n m) = n"
proof -
  have "mc_read n m = take n (chunk_data m)" using assms(2) by (simp add: mc_read_def chunk_data_def)
  moreover have "chunk_data m1 = drop n (chunk_data m)"
    by (simp add: assms(3) chunk_data_def mc_read_def mc_len_def drop_take add.commute)
  ultimately show "mc_read n m @ chunk_data m1 = chunk_data m" "length (mc_read n m) = n"
    using length_chunk_data [OF assms(1)] assms(2) by simp_all
  show "chunk_wf N m1" "mc_len m1 = mc_len m - n" using assms by (auto simp: chunk_wf_def mc_len_def)
qed

text \<open>Two steps that both loops over the front share: stop inside the first chunk, or give it back.\<close>

lemma queue_stop:
  assumes "queue_wf N (q, s) (a # xs) others" and "n < mc_len (chunk_at s a)"
  defines "m1 \<equiv> (chunk_at s a)\<lparr>mc_pos := mc_pos (chunk_at s a) + n\<rparr>"
  shows "queue_wf N (q\<lparr>mks_len := mks_len q - n\<rparr>, put_chunk a m1 s) (a # xs) others"
    and "mc_read n (chunk_at s a) @ contents (put_chunk a m1 s) (a # xs) = contents s (a # xs)"
    and "same_on others s (put_chunk a m1 s)"
proof -
  obtain fs where w: "pool_wf N s fs (insert a (set xs) \<union> others)" using assms(1) by (auto simp: queue_wf_def)
  have cw: "chunk_wf N (chunk_at s a)" using w by (rule pool_chunk_wf) simp
  note T = chunk_take [OF cw less_imp_le [OF assms(2)] m1_def [THEN meta_eq_to_obj_eq]]
  have a: "a \<notin> set xs" "a \<notin> others" using assms(1) by (auto simp: queue_wf_def)
  have x: "contents (put_chunk a m1 s) xs = contents s xs" using a by (intro contents_cong) auto
  then show c: "mc_read n (chunk_at s a) @ contents (put_chunk a m1 s) (a # xs) = contents s (a # xs)"
    using T(2) by simp
  have "pool_wf N (put_chunk a m1 s) fs (insert a (set xs) \<union> others)"
    using w T(1) by (intro pool_wf_put) (simp_all add: m1_def)
  moreover have "chain (put_chunk a m1 s) (mks_head q) (a # xs)"
    using assms(1) by (subst chain_cong) (auto simp: queue_wf_def m1_def)
  moreover have "mks_len q = length (contents s (a # xs))" using assms(1) by (simp add: queue_wf_def)
  ultimately show "queue_wf N (q\<lparr>mks_len := mks_len q - n\<rparr>, put_chunk a m1 s) (a # xs) others"
    using assms(1,2) T(3,4) x a arg_cong [OF c, of length] by (auto simp: queue_wf_def)
  show "same_on others s (put_chunk a m1 s)" using a by (auto simp: same_on_def)
qed

lemma queue_pop:
  assumes "queue_wf N (q, s) (a # xs) others"
  defines "m1 \<equiv> (chunk_at s a)\<lparr>mc_pos := mc_pos (chunk_at s a) + mc_len (chunk_at s a)\<rparr>"
  defines "s2 \<equiv> Pool_recycle N a (put_chunk a m1 s)"
  defines "p \<equiv> mc_next (chunk_at s a)"
  shows "queue_wf N (set_head p (q\<lparr>mks_len := mks_len q - mc_len (chunk_at s a)\<rparr>), s2) xs others"
    and "contents s2 xs = contents s xs" and "same_on others s s2" and "chain s2 p xs"
    and "mc_read (mc_len (chunk_at s a)) (chunk_at s a) = chunk_data (chunk_at s a)"
proof -
  obtain fs where w: "pool_wf N s fs (insert a (set xs) \<union> others)" using assms(1) by (auto simp: queue_wf_def)
  have cw: "chunk_wf N (chunk_at s a)" using w by (rule pool_chunk_wf) simp
  note T = chunk_take [OF cw order.refl m1_def [THEN meta_eq_to_obj_eq]]
  have a: "a \<notin> set xs" "a \<notin> others" using assms(1) by (auto simp: queue_wf_def)
  have h: "heap s2 b = heap s b" if "b \<noteq> a" for b using that by (simp add: s2_def heap_recycle)
  have x: "chunk_at s2 b = chunk_at s b" if "b \<in> set xs" for b using that a by (intro chunk_at_same h) auto
  show c: "contents s2 xs = contents s xs" using a by (intro contents_cong h) auto
  show "same_on others s s2" unfolding same_on_def using a by (intro ballI h) auto
  have "chain s p xs" using assms(1) by (simp add: queue_wf_def p_def)
  then show ch: "chain s2 p xs" by (subst chain_cong) (auto simp: x)
  have "pool_wf N (put_chunk a m1 s) fs (insert a (set xs) \<union> others)"
    using w T(1) by (intro pool_wf_put) (simp_all add: m1_def)
  from pool_wf_recycle [OF this, of a] have "pool_wf N s2 (a # fs) (set xs \<union> others)"
    using a by (simp add: s2_def insert_Diff_if)
  moreover have "mks_len q = mc_len (chunk_at s a) + length (contents s xs)"
    using assms(1) length_chunk_data [OF cw] by (simp add: queue_wf_def)
  moreover have "p = None \<longleftrightarrow> xs = []" using ch by (cases xs) auto
  ultimately show "queue_wf N (set_head p (q\<lparr>mks_len := mks_len q - mc_len (chunk_at s a)\<rparr>), s2) xs others"
    using assms(1) ch c x by (auto simp: queue_wf_def set_head_def)
  show "mc_read (mc_len (chunk_at s a)) (chunk_at s a) = chunk_data (chunk_at s a)" by (simp add: chunk_data_def)
qed

lemma set_head_simps [simp]:
  "set_head p (q\<lparr>mks_len := n\<rparr>) = (set_head p q)\<lparr>mks_len := n\<rparr>"
  "mks_len (set_head p q) = mks_len q" "set_head p' (set_head (Some a) q) = set_head p' q"
  by (simp_all add: set_head_def)

lemma remove_loop_ok:
  assumes "queue_wf N (set_head p q, s) xs others" and "chain s p xs"
  shows "\<exists>out p' q' s' xs'. remove_loop N p left dest (q, s) = Some (Inr (dest @ out, p', q', s'))
    \<and> drain_loop N p left (q, s) = Some (left - length out, p', q', s')
    \<and> queue_wf N (set_head p' q', s') xs' others \<and> out @ contents s' xs' = contents s xs
    \<and> length out = min left (length (contents s xs)) \<and> same_on others s s'"
  using assms
proof (induction xs arbitrary: p q s left dest)
  case Nil
  then show ?case
    by (intro exI [of _ "[]"] exI [of _ None] exI [of _ q] exI [of _ s])
       (auto simp: remove_loop.simps drain_loop.simps same_on_def intro: exI [of _ "[]"])
next
  case (Cons a xs)
  let ?m = "chunk_at s a" let ?n = "mc_len (chunk_at s a)"
  have p: "p = Some a" using Cons.prems by simp
  have pos: "0 < ?n" using Cons.prems by (simp add: queue_wf_def)
  have len: "length (chunk_data ?m) = ?n"
    using Cons.prems(1) by (auto simp: queue_wf_def intro!: length_chunk_data [of N] pool_chunk_wf)
  show ?case
  proof (cases "left < ?n")
    case True
    note S = queue_stop [OF Cons.prems(1) True]
    have l: "length (mc_read left ?m) = left" using True len by (simp add: chunk_data_def mc_read_def)
    have z: "min left ?n = left" "0 < mc_len (?m\<lparr>mc_pos := mc_pos ?m + left\<rparr>)" using True by (auto simp: mc_len_def)
    let ?s1 = "put_chunk a (?m\<lparr>mc_pos := mc_pos ?m + left\<rparr>) s"
    let ?q1 = "q\<lparr>mks_len := mks_len q - left\<rparr>"
    have "remove_loop N p left dest (q, s) = Some (Inr (dest @ mc_read left ?m, Some a, ?q1, ?s1))"
      "drain_loop N p left (q, s) = Some (left - length (mc_read left ?m), Some a, ?q1, ?s1)"
      using z pos p l by (subst remove_loop.simps drain_loop.simps, simp add: Let_def)+
    then show ?thesis using S True len p l
      by (intro exI [of _ "mc_read left ?m"] exI [of _ "Some a"] exI [of _ ?q1] exI [of _ ?s1] exI [of _ "a # xs"])
         auto
  next
    case False
    let ?s2 = "Pool_recycle N a (put_chunk a (?m\<lparr>mc_pos := mc_pos ?m + ?n\<rparr>) s)"
    let ?q1 = "q\<lparr>mks_len := mks_len q - ?n\<rparr>"
    note O = queue_pop [OF Cons.prems(1)]
    have "queue_wf N (set_head (mc_next ?m) ?q1, ?s2) xs others" using O(1) p by simp
    from Cons.IH [OF this O(4), of "left - ?n" "dest @ chunk_data ?m"]
    obtain out p' q' s' xs' where r: "remove_loop N (mc_next ?m) (left - ?n) (dest @ chunk_data ?m) (?q1, ?s2)
        = Some (Inr ((dest @ chunk_data ?m) @ out, p', q', s'))"
      "drain_loop N (mc_next ?m) (left - ?n) (?q1, ?s2) = Some (left - ?n - length out, p', q', s')"
      "queue_wf N (set_head p' q', s') xs' others"
      "out @ contents s' xs' = contents ?s2 xs" "length out = min (left - ?n) (length (contents ?s2 xs))"
      "same_on others ?s2 s'" by blast
    have z: "min left ?n = ?n" "mc_len (?m\<lparr>mc_pos := mc_pos ?m + ?n\<rparr>) = 0" using False by (auto simp: mc_len_def)
    have "remove_loop N p left dest (q, s) = Some (Inr (dest @ (chunk_data ?m @ out), p', q', s'))"
      "drain_loop N p left (q, s) = Some (left - length (chunk_data ?m @ out), p', q', s')"
      using z pos p r(1,2) O(5) len by (subst remove_loop.simps drain_loop.simps, simp add: Let_def)+
    moreover have "same_on others s s'" by (rule same_on_trans [OF O(3) r(6)])
    ultimately show ?thesis using r O len False
      by (intro exI [of _ "chunk_data ?m @ out"] exI [of _ p'] exI [of _ q'] exI [of _ s'] exI [of _ xs']) auto
  qed
qed

lemma queue_wf_head:
  "queue_wf N (q, s) xs others \<Longrightarrow> chain s (mks_head q) xs"
  "queue_wf N (q, s) xs others \<Longrightarrow> set_head (mks_head q) q = q"
  by (cases xs; cases q; simp add: queue_wf_def set_head_def)+

lemma remove_bytes_ok:
  assumes "queue_wf N (q, s) xs others"
  shows "\<exists>q' s' xs'. remove_bytes N count (q, s) = Some (Inr (take count (contents s xs), q', s'))
    \<and> (0 < count \<longrightarrow> drain N count (q, s) = Some (min count (length (contents s xs)), q', s'))
    \<and> queue_wf N (q', s') xs' others
    \<and> contents s' xs' = drop count (contents s xs) \<and> same_on others s s'"
proof (cases "xs = [] \<or> count = 0")
  case True
  have "xs = [] \<Longrightarrow> drain N count (q, s) = Some (0, q, s)"
    using queue_wf_head [OF assms] by (simp add: drain_def drain_loop.simps)
  with True show ?thesis using assms
    by (intro exI [of _ q] exI [of _ s] exI [of _ xs]) (auto simp: remove_bytes_def queue_wf_def same_on_def)
next
  case False
  then have t: "mks_tail q \<noteq> None" using assms by (auto simp: queue_wf_def)
  obtain out p' q' s' xs' where r: "remove_loop N (mks_head q) count [] (q, s) = Some (Inr (out, p', q', s'))"
    "drain_loop N (mks_head q) count (q, s) = Some (count - length out, p', q', s')"
    "queue_wf N (set_head p' q', s') xs' others" "out @ contents s' xs' = contents s xs"
    "length out = min count (length (contents s xs))" "same_on others s s'"
    using remove_loop_ok [of N "mks_head q" q s xs others count "[]"] queue_wf_head [OF assms] assms by auto
  have "out = take count (contents s xs)" "contents s' xs' = drop count (contents s xs)"
    using r(5) by (simp_all add: r(4) [symmetric] min_def split: if_splits)
  then show ?thesis using r t False
    by (intro exI [of _ "set_head p' q'"] exI [of _ s'] exI [of _ xs']) (auto simp: remove_bytes_def drain_def)
qed

lemma recycle_all_ok:
  assumes "\<exists>fs. pool_wf N s fs (set xs \<union> others)" and "distinct xs" and "set xs \<inter> others = {}" and "chain s p xs"
  shows "\<exists>s' fs. recycle_all N p s = Some s' \<and> pool_wf N s' fs others \<and> same_on others s s'"
  using assms
proof (induction xs arbitrary: p s)
  case Nil
  then show ?case by (auto simp: recycle_all.simps same_on_def)
next
  case (Cons a xs)
  let ?s1 = "Pool_recycle N a s"
  obtain fs where "pool_wf N s fs (insert a (set xs) \<union> others)" using Cons.prems(1) by auto
  from pool_wf_recycle [OF this, of a] have "\<exists>fs. pool_wf N ?s1 fs (set xs \<union> others)"
    using Cons.prems(2,3) by (auto simp: insert_Diff_if)
  moreover have "chain ?s1 (mc_next (chunk_at s a)) xs"
  proof (subst chain_cong)
    fix b assume "b \<in> set xs"
    then have "b \<noteq> a" using Cons.prems(2) by auto
    then show "mc_next (chunk_at ?s1 b) = mc_next (chunk_at s b)" by (subst chunk_at_same [OF heap_recycle]) auto
  qed (use Cons.prems(4) in simp)
  ultimately obtain s' fs' where r: "recycle_all N (mc_next (chunk_at s a)) ?s1 = Some s'"
    "pool_wf N s' fs' others" "same_on others ?s1 s'" using Cons.IH Cons.prems(2,3) by fastforce
  have "same_on others s ?s1" unfolding same_on_def using Cons.prems(3) by (intro ballI heap_recycle) auto
  then have "same_on others s s'" using r(3) by (rule same_on_trans)
  then show ?case using r(1,2) Cons.prems(4) by (subst recycle_all.simps) auto
qed

lemma clear_loop_ok:
  assumes "dom (heap s) = {..<n}" and "\<forall>a < n. mc_knext (chunk_at s a) = previous a"
  shows "clear_loop (previous n) s = Some (s\<lparr>heap := Map.empty\<rparr>)"
  using assms
proof (induction n arbitrary: s)
  case 0
  then show ?case by (cases s) (simp add: clear_loop.simps previous_def)
next
  case (Suc n)
  let ?s1 = "s\<lparr>heap := (heap s)(n := None)\<rparr>"
  have "dom (heap ?s1) = {..<n}" using Suc.prems(1) by auto
  moreover have "\<forall>a < n. mc_knext (chunk_at ?s1 a) = previous a" using Suc.prems(2) by (simp add: chunk_at_def)
  ultimately have "clear_loop (previous n) ?s1 = Some (?s1\<lparr>heap := Map.empty\<rparr>)" by (rule Suc.IH)
  then show ?case using Suc.prems(2) by (subst clear_loop.simps) (simp add: previous_def)
qed

section \<open>Two queues of one pool\<close>

text \<open>Each queue is among the other owners of the other one.\<close>

definition two_queues ::
    "nat \<Rightarrow> memchunks \<Rightarrow> memchunks \<Rightarrow> mempool \<Rightarrow> addr list \<Rightarrow> addr list \<Rightarrow> addr set \<Rightarrow> bool" where
  "two_queues N q d s xs ys others \<longleftrightarrow>
     queue_wf N (q, s) xs (set ys \<union> others) \<and> queue_wf N (d, s) ys (set xs \<union> others)"

lemma queue_wf_same:
  assumes "queue_wf N (q, s) xs used" and "same_on (set xs) s s'" and "\<exists>fs. pool_wf N s' fs (set xs \<union> used')"
    and "set xs \<inter> used' = {}"
  shows "queue_wf N (q, s') xs used'" and "contents s' xs = contents s xs"
proof -
  have h: "heap s' a = heap s a" if "a \<in> set xs" for a using assms(2) that by (simp add: same_on_def)
  then have x: "chunk_at s' a = chunk_at s a" if "a \<in> set xs" for a using that by (intro chunk_at_same) auto
  show c: "contents s' xs = contents s xs" by (rule contents_cong) (rule h)
  have "chain s' (mks_head q) xs = chain s (mks_head q) xs" by (rule chain_cong) (simp add: x)
  then show "queue_wf N (q, s') xs used'" using assms x c by (auto simp: queue_wf_def)
qed

lemma two_queues_swap: "two_queues N q d s xs ys others \<Longrightarrow> two_queues N d q s ys xs others"
  by (simp add: two_queues_def)

text \<open>An operation on the second queue leaves the first one as it is.\<close>

lemma two_queues_step:
  assumes "two_queues N q d s xs ys others" and "queue_wf N (d', s') ys' (set xs \<union> others)"
    and "same_on (set xs \<union> others) s s'"
  shows "two_queues N q d' s' xs ys' others" and "contents s' xs = contents s xs" and "same_on others s s'"
proof -
  obtain fs where w: "pool_wf N s' fs (set ys' \<union> (set xs \<union> others))" and d: "set ys' \<inter> (set xs \<union> others) = {}"
    using assms(2) by (auto simp: queue_wf_def)
  have "set xs \<inter> others = {}" using assms(1) by (auto simp: two_queues_def queue_wf_def)
  then have "set xs \<inter> (set ys' \<union> others) = {}" using d by auto
  moreover have "set xs \<union> (set ys' \<union> others) = set ys' \<union> (set xs \<union> others)" by auto
  ultimately have "queue_wf N (q, s') xs (set ys' \<union> others)" "contents s' xs = contents s xs"
    using queue_wf_same [of N q s xs _ s' "set ys' \<union> others"] assms(1,3) w
    by (fastforce simp: two_queues_def same_on_def)+
  then show "two_queues N q d' s' xs ys' others" "contents s' xs = contents s xs" "same_on others s s'"
    using assms(2,3) by (auto simp: two_queues_def same_on_def)
qed

lemma copy_loop_ok:
  assumes "0 < N" and "queue_wf N (d, s) ys others" and "set xs \<subseteq> others" and "chain s p xs"
  shows "\<exists>d' s' ys'. copy_loop N p (d, s) = Some (d', s') \<and> queue_wf N (d', s') ys' others
    \<and> contents s' ys' = contents s ys @ contents s xs \<and> same_on others s s'"
  using assms
proof (induction xs arbitrary: p d s ys)
  case Nil
  then show ?case by (auto simp: copy_loop.simps same_on_def)
next
  case (Cons a xs)
  obtain d1 s1 ys1 where r: "append_bytes N (chunk_data (chunk_at s a)) (d, s) = Some (length (chunk_data (chunk_at s a)), d1, s1)"
    "queue_wf N (d1, s1) ys1 others" "contents s1 ys1 = contents s ys @ chunk_data (chunk_at s a)" "same_on others s s1"
    using append_bytes_ok [OF Cons.prems(1,2), of "chunk_data (chunk_at s a)"] by blast
  have x: "chunk_at s1 b = chunk_at s b" if "b \<in> set (a # xs)" for b
    using r(4) Cons.prems(3) that by (intro chunk_at_same) (auto simp: same_on_def)
  have c: "chain s1 (mc_next (chunk_at s1 a)) xs" using Cons.prems(4) x by (subst chain_cong) auto
  have sub: "set xs \<subseteq> others" using Cons.prems(3) by simp
  obtain d' s' ys' where q: "copy_loop N (mc_next (chunk_at s1 a)) (d1, s1) = Some (d', s')"
    "queue_wf N (d', s') ys' others" "contents s' ys' = contents s1 ys1 @ contents s1 xs" "same_on others s1 s'"
    using Cons.IH [OF Cons.prems(1) r(2) sub c] by blast
  have "contents s1 xs = contents s xs" using x by (simp add: contents_def cong: map_cong)
  moreover have "same_on others s s'" by (rule same_on_trans [OF r(4) q(4)])
  moreover have "copy_loop N p (d, s) = Some (d', s')"
    using Cons.prems(4) r(1) q(1) by (subst copy_loop.simps) (simp add: chunk_data_def)
  ultimately show ?case using q r(3) by auto
qed

lemma remove_into_loop_ok:
  assumes "0 < N" and "two_queues N (set_head p q) d s xs ys others" and "chain s p xs"
  shows "\<exists>out p' q' d' s' xs' ys'. remove_into_loop N p left (q, d, s) = Some (Inr (left - length out, p', q', d', s'))
    \<and> two_queues N (set_head p' q') d' s' xs' ys' others \<and> contents s' ys' = contents s ys @ out
    \<and> out @ contents s' xs' = contents s xs \<and> length out = min left (length (contents s xs)) \<and> same_on others s s'"
  using assms
proof (induction xs arbitrary: p q d s ys left)
  case Nil
  then show ?case
    by (intro exI [of _ "[]"] exI [of _ None] exI [of _ q] exI [of _ d] exI [of _ s] exI [of _ "[]"] exI [of _ ys])
       (auto simp: remove_into_loop.simps same_on_def)
next
  case (Cons a xs)
  let ?m = "chunk_at s a" let ?len = "mc_len (chunk_at s a)"
  define n where "n = min left ?len"
  have p: "p = Some a" and pos: "0 < ?len" using Cons.prems by (simp_all add: two_queues_def queue_wf_def)
  have len: "length (chunk_data ?m) = ?len" and read: "length (mc_read n ?m) = n" "mc_read n ?m = take n (chunk_data ?m)"
  proof -
    obtain fs where "pool_wf N s fs (set (a # xs) \<union> (set ys \<union> others))"
      using Cons.prems(2) by (auto simp: two_queues_def queue_wf_def)
    then have "chunk_wf N ?m" by (rule pool_chunk_wf) simp
    then show "length (chunk_data ?m) = ?len" by (rule length_chunk_data)
    then show "length (mc_read n ?m) = n" by (simp add: chunk_data_def mc_read_def n_def)
    show "mc_read n ?m = take n (chunk_data ?m)" by (simp add: chunk_data_def mc_read_def n_def)
  qed
  obtain d1 s1 ys1 where r: "append_bytes N (mc_read n ?m) (d, s) = Some (length (mc_read n ?m), d1, s1)"
    "queue_wf N (d1, s1) ys1 (set (a # xs) \<union> others)" "contents s1 ys1 = contents s ys @ mc_read n ?m"
    "same_on (set (a # xs) \<union> others) s s1"
    using append_bytes_ok [OF Cons.prems(1), of d s ys "set (a # xs) \<union> others" "mc_read n ?m"] Cons.prems(2)
    unfolding two_queues_def by blast
  note S = two_queues_step [OF Cons.prems(2) r(2,4)]
  have m1: "chunk_at s1 a = ?m" using r(4) by (intro chunk_at_same) (simp add: same_on_def)
  have qw: "queue_wf N (set_head p q, s1) (a # xs) (set ys1 \<union> others)" using S(1) by (simp add: two_queues_def)
  let ?q1 = "q\<lparr>mks_len := mks_len q - n\<rparr>"
  let ?s2 = "put_chunk a (?m\<lparr>mc_pos := mc_pos ?m + n\<rparr>) s1"
  show ?case
  proof (cases "n < ?len")
    case True
    then have n: "n = left" and z: "0 < mc_len (?m\<lparr>mc_pos := mc_pos ?m + n\<rparr>)" by (auto simp: n_def mc_len_def)
    note Q = queue_stop [OF qw, unfolded m1, OF True]
    note T = two_queues_step [OF two_queues_swap [OF S(1)] Q(1) Q(3)]
    have "remove_into_loop N p left (q, d, s) = Some (Inr (left - length (mc_read n ?m), Some a, ?q1, d1, ?s2))"
      using pos p r(1) z m1 read(1) by (subst remove_into_loop.simps) (simp add: Let_def n_def [symmetric])
    moreover have "two_queues N (set_head (Some a) ?q1) d1 ?s2 (a # xs) ys1 others"
      using two_queues_swap [OF T(1)] p by simp
    moreover have "mc_read n ?m @ contents ?s2 (a # xs) = contents s (a # xs)" using Q(2) S(2) by simp
    ultimately show ?thesis using T(2) r(3) read n True len same_on_trans [OF S(3) T(3)]
      by (intro exI [of _ "mc_read n ?m"] exI [of _ "Some a"] exI [of _ ?q1] exI [of _ d1] exI [of _ ?s2]
          exI [of _ "a # xs"] exI [of _ ys1]) auto
  next
    case False
    then have n: "n = ?len" and z: "mc_len (?m\<lparr>mc_pos := mc_pos ?m + n\<rparr>) = 0" by (auto simp: n_def mc_len_def)
    let ?s3 = "Pool_recycle N a ?s2"
    note Q = queue_pop [OF qw, unfolded m1, folded n]
    note T = two_queues_step [OF two_queues_swap [OF S(1)] Q(1) Q(3)]
    have "two_queues N (set_head (mc_next ?m) ?q1) d1 ?s3 xs ys1 others" using two_queues_swap [OF T(1)] p by simp
    from Cons.IH [OF Cons.prems(1) this Q(4), of "left - n"]
    obtain out p' q' d' s' xs' ys' where
      i: "remove_into_loop N (mc_next ?m) (left - n) (?q1, d1, ?s3) = Some (Inr (left - n - length out, p', q', d', s'))"
        "two_queues N (set_head p' q') d' s' xs' ys' others" "contents s' ys' = contents ?s3 ys1 @ out"
        "out @ contents s' xs' = contents ?s3 xs" "length out = min (left - n) (length (contents ?s3 xs))"
        "same_on others ?s3 s'" by blast
    have "remove_into_loop N p left (q, d, s) = Some (Inr (left - length (mc_read n ?m @ out), p', q', d', s'))"
      using pos p r(1) z m1 read(1) i(1) by (subst remove_into_loop.simps) (simp add: Let_def n_def [symmetric])
    moreover have "contents ?s3 xs = contents s xs" using Q(2) S(2) m1 by simp
    moreover have "same_on others s s'" by (rule same_on_trans [OF S(3) same_on_trans [OF T(3) i(6)]])
    moreover have "mc_read n ?m = chunk_data ?m" using n by (simp add: chunk_data_def)
    moreover have "?len \<le> left" using False by (simp add: n_def)
    ultimately show ?thesis using i T(2) r(3) n len
      by (intro exI [of _ "mc_read n ?m @ out"] exI [of _ p'] exI [of _ q'] exI [of _ d'] exI [of _ s']
          exI [of _ xs'] exI [of _ ys']) auto
  qed
qed

lemma chain_join:
  "chain s p (ys @ [t]) \<Longrightarrow> chain s (Some h) (h # xs) \<Longrightarrow> t \<notin> set ys \<Longrightarrow> t \<notin> set (h # xs) \<Longrightarrow>
    chain (link_chunk t h s) p (ys @ t # h # xs)"
proof (induction ys arbitrary: p)
  case Nil
  then have "chain (link_chunk t h s) (mc_next (chunk_at s h)) xs"
    by (subst chain_cong) (auto simp: link_chunk_def)
  then show ?case using Nil by (auto simp: link_chunk_def)
next
  case (Cons a ys)
  then show ?case by (auto simp: link_chunk_def)
qed

lemma splice_ok:
  assumes "two_queues N q d s xs ys others" and "splice (q, d, s) = (n, q', d', s')"
  shows "n = length (contents s xs)" and "queue_wf N (d', s') (ys @ xs) others"
    and "contents s' (ys @ xs) = contents s ys @ contents s xs" and "q' = (if xs = [] then q else Memchunks_init)"
    and "same_on others s s'"
proof -
  have W: "queue_wf N (q, s) xs (set ys \<union> others)" "queue_wf N (d, s) ys (set xs \<union> others)"
    using assms(1) by (auto simp: two_queues_def)
  have len: "mks_len q = length (contents s xs)" "mks_len d = length (contents s ys)"
    using W by (auto simp: queue_wf_def)
  consider "xs = []" | h xs' where "xs = h # xs'" "ys = []" | h xs' ys' t where "xs = h # xs'" "ys = ys' @ [t]"
    by (metis neq_Nil_conv rev_exhaust)
  then have "n = length (contents s xs) \<and> queue_wf N (d', s') (ys @ xs) others
      \<and> contents s' (ys @ xs) = contents s ys @ contents s xs \<and> q' = (if xs = [] then q else Memchunks_init)
      \<and> same_on others s s'"
  proof cases
    case 1
    then show ?thesis using W assms(2) len by (auto simp: splice_def queue_wf_def same_on_def)
  next
    case 2
    then show ?thesis using W assms(2) len
      by (cases d) (auto simp: splice_def queue_wf_def same_on_def Memchunks_init_def Un_commute)
  next
    case 3
    have s': "s' = link_chunk t h s" and d': "d' = d\<lparr>mks_tail := mks_tail q, mks_len := mks_len d + mks_len q\<rparr>"
      and q': "n = mks_len q" "q' = Memchunks_init"
      using W assms(2) 3 by (auto simp: splice_def queue_wf_def Memchunks_init_def)
    have t: "t \<notin> set ys'" "t \<notin> set xs" "t \<notin> others" and dis: "distinct (ys @ xs)" "set (ys @ xs) \<inter> others = {}"
      using W 3 by (auto simp: queue_wf_def)
    have ch: "chain s' (mks_head d) (ys' @ t # h # xs')"
      unfolding s' using W 3 t by (intro chain_join) (auto simp: queue_wf_def)
    obtain fs where w: "pool_wf N s fs (set (ys @ xs) \<union> others)"
      using W(1) by (auto simp: queue_wf_def Un_ac)
    have pw: "pool_wf N s' fs (set (ys @ xs) \<union> others)"
      unfolding s' link_chunk_def using pool_chunk_wf [OF w, of t] 3
      by (intro pool_wf_put [OF w]) (auto simp: chunk_wf_def)
    have data: "chunk_data (chunk_at s' a) = chunk_data (chunk_at s a)" "mc_len (chunk_at s' a) = mc_len (chunk_at s a)" for a
      by (auto simp: s' link_chunk_def chunk_data_def mc_read_def mc_len_def)
    have con: "contents s' zs = contents s zs" for zs by (simp add: contents_def data)
    have "queue_wf N (d', s') (ys @ xs) others"
      using W ch pw dis len 3 data by (auto simp: queue_wf_def d' con)
    moreover have "same_on others s s'" using t by (auto simp: same_on_def s' link_chunk_def)
    ultimately show ?thesis using con [of "ys @ xs"] len q' 3 by simp
  qed
  then show "n = length (contents s xs)" "queue_wf N (d', s') (ys @ xs) others"
    "contents s' (ys @ xs) = contents s ys @ contents s xs" "q' = (if xs = [] then q else Memchunks_init)"
    "same_on others s s'" by auto
qed

section \<open>Byte queues as an interface\<close>

text \<open>What a client relies on: every operation returns, keeps the invariant and acts on the sequence of
  bytes the queue holds as on a list.\<close>

text \<open>A session is a sequence of writes (\<^term>\<open>Inl bs\<close>) and reads (\<^term>\<open>Inr n\<close>); it gives what each of the reads returned.\<close>

fun session :: "(bytes \<Rightarrow> 's \<Rightarrow> 's option) \<Rightarrow> (nat \<Rightarrow> 's \<Rightarrow> (bytes \<times> 's) option) \<Rightarrow> (bytes + nat) list \<Rightarrow> 's
    \<Rightarrow> (bytes list \<times> 's) option" where
  "session put get [] s = Some ([], s)"
| "session put get (Inl bs # ops) s = Option.bind (put bs s) (session put get ops)"
| "session put get (Inr n # ops) s =
     Option.bind (get n s) (\<lambda>(out, s1). map_option (\<lambda>(outs, s2). (out # outs, s2)) (session put get ops s1))"

text \<open>The same session on a list of bytes: a write appends, a read takes the first \<open>n\<close> bytes, or all if there are fewer.\<close>

fun fifo_session :: "(bytes + nat) list \<Rightarrow> bytes \<Rightarrow> bytes list \<times> bytes" where
  "fifo_session [] q = ([], q)"
| "fifo_session (Inl bs # ops) q = fifo_session ops (q @ bs)"
| "fifo_session (Inr n # ops) q = (let (outs, q') = fifo_session ops (drop n q) in (take n q # outs, q'))"

locale byte_queue =
  fixes wf :: "'s \<Rightarrow> bool" and bytes_of :: "'s \<Rightarrow> bytes"
    and put :: "bytes \<Rightarrow> 's \<Rightarrow> 's option" and get :: "nat \<Rightarrow> 's \<Rightarrow> (bytes \<times> 's) option"
  assumes put_ok: "wf s \<Longrightarrow> \<exists>s'. put bs s = Some s' \<and> wf s' \<and> bytes_of s' = bytes_of s @ bs"
    and get_ok: "wf s \<Longrightarrow> \<exists>s'. get n s = Some (take n (bytes_of s), s') \<and> wf s' \<and> bytes_of s' = drop n (bytes_of s)"
begin

lemma session_fifo:
  "wf s \<Longrightarrow> \<exists>s'. session put get ops s = Some (fst (fifo_session ops (bytes_of s)), s') \<and> wf s'
     \<and> bytes_of s' = snd (fifo_session ops (bytes_of s))"
proof (induction ops arbitrary: s)
  case Nil
  then show ?case by simp
next
  case (Cons op ops)
  show ?case
  proof (cases op)
    case (Inl bs)
    obtain s1 where p: "put bs s = Some s1" "wf s1" "bytes_of s1 = bytes_of s @ bs"
      using put_ok [OF Cons.prems, of bs] by blast
    then show ?thesis using Inl Cons.IH [OF p(2)] by simp
  next
    case (Inr n)
    obtain s1 where g: "get n s = Some (take n (bytes_of s), s1)" "wf s1" "bytes_of s1 = drop n (bytes_of s)"
      using get_ok [OF Cons.prems, of n] by blast
    then show ?thesis using Inr Cons.IH [OF g(2)] by (auto simp: case_prod_beta)
  qed
qed

end

text \<open>The queue of a pool it shares with other owners. Its bytes are those of the chunks reached from the
  head; the state is tagged with the addresses of those chunks only in the invariant.\<close>

fun chain_list :: "nat \<Rightarrow> addr option \<Rightarrow> mempool \<Rightarrow> addr list" where
  "chain_list (Suc k) (Some a) s = a # chain_list k (mc_next (chunk_at s a)) s"
| "chain_list _ _ s = []"

definition queue_chunks :: "memchunks \<times> mempool \<Rightarrow> addr list" where
  "queue_chunks st = chain_list (new_addr (snd st)) (mks_head (fst st)) (snd st)"

definition queue_bytes :: "memchunks \<times> mempool \<Rightarrow> bytes" where
  "queue_bytes st = contents (snd st) (queue_chunks st)"

lemma chain_list_chain: "chain s p xs \<Longrightarrow> length xs \<le> k \<Longrightarrow> chain_list k p s = xs"
proof (induction xs arbitrary: p k)
  case Nil
  then show ?case by (cases k) auto
next
  case (Cons a xs)
  then show ?case by (cases k) auto
qed

lemma queue_chunks_eq:
  assumes "queue_wf N st xs others"
  shows "queue_chunks st = xs"
proof -
  obtain fs where "pool_wf N (snd st) fs (set xs \<union> others)" using assms by (auto simp: queue_wf_def)
  then have "set xs \<subseteq> {..<new_addr (snd st)}" by (auto simp: pool_wf_def)
  then have "card (set xs) \<le> new_addr (snd st)" using card_mono [of "{..<new_addr (snd st)}"] by fastforce
  moreover have "distinct xs" "chain (snd st) (mks_head (fst st)) xs" using assms by (simp_all add: queue_wf_def)
  ultimately show ?thesis unfolding queue_chunks_def by (intro chain_list_chain) (auto simp: distinct_card)
qed

text \<open>The state of a queue \<open>st\<close> whose pool also serves owners of the chunks \<open>others\<close>, which held the store
  \<open>h0\<close> when the session began.\<close>

definition shared_queue :: "nat \<Rightarrow> addr set \<Rightarrow> mempool \<Rightarrow> memchunks \<times> mempool \<Rightarrow> bool" where
  "shared_queue N others s0 st \<longleftrightarrow>
     0 < N \<and> (\<exists>xs. queue_wf N st xs others) \<and> same_on others s0 (snd st)"

definition queue_put :: "nat \<Rightarrow> bytes \<Rightarrow> memchunks \<times> mempool \<Rightarrow> (memchunks \<times> mempool) option" where
  "queue_put N bs st = map_option snd (append_bytes N bs st)"

definition queue_get :: "nat \<Rightarrow> nat \<Rightarrow> memchunks \<times> mempool \<Rightarrow> (bytes \<times> (memchunks \<times> mempool)) option" where
  "queue_get N n st = Option.bind (remove_bytes N n st) (\<lambda>r. case r of Inl _ \<Rightarrow> None | Inr x \<Rightarrow> Some x)"

interpretation mq: byte_queue "shared_queue N others s0" queue_bytes "queue_put N" "queue_get N"
  for N others s0
proof
  fix st bs assume "shared_queue N others s0 st"
  then obtain xs where w: "0 < N" "queue_wf N (fst st, snd st) xs others" "same_on others s0 (snd st)"
    by (auto simp: shared_queue_def)
  from append_bytes_ok [OF w(1,2), of bs] obtain q' s' xs' where
    r: "append_bytes N bs (fst st, snd st) = Some (length bs, q', s')" "queue_wf N (q', s') xs' others"
      "contents s' xs' = contents (snd st) xs @ bs" "same_on others (snd st) s'" by blast
  have "queue_bytes (q', s') = queue_bytes st @ bs"
    using r(3) queue_chunks_eq [OF r(2)] queue_chunks_eq [OF w(2)] by (simp add: queue_bytes_def)
  then show "\<exists>st'. queue_put N bs st = Some st' \<and> shared_queue N others s0 st' \<and> queue_bytes st' = queue_bytes st @ bs"
    using r w same_on_trans [OF w(3) r(4)] by (auto simp: queue_put_def shared_queue_def)
next
  fix st n assume "shared_queue N others s0 st"
  then obtain xs where w: "0 < N" "queue_wf N (fst st, snd st) xs others" "same_on others s0 (snd st)"
    by (auto simp: shared_queue_def)
  from remove_bytes_ok [OF w(2), of n] obtain q' s' xs' where
    r: "remove_bytes N n (fst st, snd st) = Some (Inr (take n (contents (snd st) xs), q', s'))"
      "queue_wf N (q', s') xs' others" "contents s' xs' = drop n (contents (snd st) xs)" "same_on others (snd st) s'"
    by blast
  show "\<exists>st'. queue_get N n st = Some (take n (queue_bytes st), st') \<and> shared_queue N others s0 st'
      \<and> queue_bytes st' = drop n (queue_bytes st)"
    using r w same_on_trans [OF w(3) r(4)] queue_chunks_eq [OF r(2)] queue_chunks_eq [OF w(2)]
    by (auto simp: queue_get_def shared_queue_def queue_bytes_def)
qed

section \<open>Peeking reads\<close>

lemma peek_loop_ok:
  assumes "pool_wf N s fs used" and "a \<in> used" and "set xs \<subseteq> used" and "chain s (mc_next (chunk_at s a)) xs"
    and "pk_cur k = Some a" and "pk_pos k = Some (a, i)" and "pk_last k = Some (a, mc_last (chunk_at s a))"
    and "mc_pos (chunk_at s a) \<le> i" and "i \<le> mc_last (chunk_at s a)"
    and "\<forall>b \<in> set xs. 0 < mc_len (chunk_at s b)" and "0 < left"
  defines "rest \<equiv> drop (i - mc_pos (chunk_at s a)) (contents s (a # xs))"
  shows "\<exists>k'. peek_loop left dest (k, s) = Some (Inr (dest @ take left rest, k', s))
    \<and> pk_chunks k' = pk_chunks k \<and> pk_peeking k' = pk_peeking k"
  using assms(1-11) unfolding rest_def
proof (induction xs arbitrary: a k i left dest)
  case Nil
  let ?m = "chunk_at s a"
  have cw: "chunk_wf N ?m" using Nil by (metis pool_chunk_wf)
  let ?d = "take (mc_last ?m - i) (drop i (mc_buf ?m))"
  have d: "drop (i - mc_pos ?m) (chunk_data ?m) = ?d"
    using Nil.prems(8,9) by (simp add: chunk_data_def mc_read_def mc_len_def drop_take)
  have l: "length ?d = mc_last ?m - i" using cw by (auto simp: chunk_wf_def)
  have "peek_loop left dest (k, s) = Some (Inr (dest @ take left ?d,
      k\<lparr>pk_pos := Some (a, i + min left (mc_last ?m - i)), pk_len := pk_len k - min left (mc_last ?m - i)\<rparr>, s))"
    using Nil.prems by (subst peek_loop.simps) (auto simp: Let_def min_def split: option.splits)
  then show ?case using d by simp
next
  case (Cons b xs)
  let ?m = "chunk_at s a"
  have cw: "chunk_wf N ?m" using Cons.prems by (metis pool_chunk_wf)
  let ?d = "take (mc_last ?m - i) (drop i (mc_buf ?m))"
  have d: "drop (i - mc_pos ?m) (chunk_data ?m) = ?d"
    using Cons.prems(8,9) by (simp add: chunk_data_def mc_read_def mc_len_def drop_take)
  have l: "length ?d = mc_last ?m - i" "i - mc_pos ?m \<le> length (chunk_data ?m)"
    using cw Cons.prems(8,9) by (auto simp: chunk_wf_def chunk_data_def mc_read_def mc_len_def)
  have D: "drop (i - mc_pos ?m) (contents s (a # b # xs)) = ?d @ contents s (b # xs)"
    using d l by simp
  have nx: "mc_next ?m = Some b" using Cons.prems(4) by simp
  show ?case
  proof (cases "left \<le> mc_last ?m - i")
    case True
    then have "peek_loop left dest (k, s) = Some (Inr (dest @ take left ?d,
        k\<lparr>pk_pos := Some (a, i + left), pk_len := pk_len k - left\<rparr>, s))"
      using Cons.prems by (subst peek_loop.simps) (auto simp: Let_def min_def)
    then show ?thesis using True l D by simp
  next
    case False
    let ?n = "mc_last ?m - i"
    let ?k1 = "k\<lparr>pk_len := pk_len k - ?n, pk_cur := Some b, pk_pos := Some (b, mc_pos (chunk_at s b)),
        pk_last := Some (b, mc_last (chunk_at s b))\<rparr>"
    have e: "peek_loop left dest (k, s) = peek_loop (left - ?n) (dest @ ?d) (?k1, s)"
      using Cons.prems False nx by (subst peek_loop.simps) (simp add: Let_def min_def)
    have bw: "chunk_wf N (chunk_at s b)" using Cons.prems(1,3) by (auto intro: pool_chunk_wf)
    have "\<exists>k'. peek_loop (left - ?n) (dest @ ?d) (?k1, s)
        = Some (Inr ((dest @ ?d) @ take (left - ?n) (drop (mc_pos (chunk_at s b) - mc_pos (chunk_at s b))
            (contents s (b # xs))), k', s)) \<and> pk_chunks k' = pk_chunks ?k1 \<and> pk_peeking k' = pk_peeking ?k1"
      by (rule Cons.IH [where i = "mc_pos (chunk_at s b)"])
         (use Cons.prems False bw in \<open>auto simp: chunk_wf_def\<close>)
    then show ?thesis using e False l D by auto
  qed
qed

section \<open>Properties\<close>

lemma queue_wf_init: "queue_wf N (Memchunks_init, Pool_init) [] {}"
  by (auto simp: queue_wf_def Memchunks_init_def Pool_init_def pool_wf_def previous_def)

text \<open>C11. A chunked queue is a byte queue, whatever the interleaving of appends and removes and whoever else
  takes chunks from the same pool: every operation of a session returns, every remove of \<open>n\<close> bytes gives just the first
  \<open>n\<close> bytes queued then (all of them if there are fewer), the queue holds at the end what a list of bytes would hold, and no
  chunk of another owner is touched.\<close>

theorem memchunks_session_fifo:
  assumes "0 < N" and "queue_wf N st xs others"
  shows "\<exists>st' xs'. session (queue_put N) (queue_get N) ops st = Some (fst (fifo_session ops (contents (snd st) xs)), st')
    \<and> queue_wf N st' xs' others \<and> contents (snd st') xs' = snd (fifo_session ops (contents (snd st) xs))
    \<and> same_on others (snd st) (snd st')"
proof -
  have "shared_queue N others (snd st) st" using assms by (auto simp: shared_queue_def same_on_def)
  from mq.session_fifo [OF this, of ops] obtain st' where
    r: "session (queue_put N) (queue_get N) ops st = Some (fst (fifo_session ops (queue_bytes st)), st')"
      "shared_queue N others (snd st) st'" "queue_bytes st' = snd (fifo_session ops (queue_bytes st))" by blast
  then obtain xs' where "queue_wf N st' xs' others" "same_on others (snd st) (snd st')" by (auto simp: shared_queue_def)
  then show ?thesis using r(1,3) queue_chunks_eq [of N st'] queue_chunks_eq [OF assms(2)]
    by (auto simp: queue_bytes_def)
qed

theorem memchunks_session_fifo_witness:
  "\<exists>st' xs'. session (queue_put 2) (queue_get 2) [Inl [1, 2, 3], Inr 2, Inl [4], Inr 9] (Memchunks_init, Pool_init)
      = Some ([[1, 2], [3, 4]], st') \<and> queue_wf 2 st' xs' {} \<and> contents (snd st') xs' = []"
  using memchunks_session_fifo [OF _ queue_wf_init, of 2 "[Inl [1, 2, 3], Inr 2, Inl [4], Inr 9]"] by fastforce

text \<open>The first read of a peeking queue gives the first bytes of the queue and consumes nothing: the
  chunks, the pool and hence a later read without peeking are as before.\<close>

lemma peek_first_read:
  assumes "queue_wf N (pk_chunks k, s) xs others" and "pk_peeking k" and "pk_cur k = None"
    and "pk_len k = length (contents s xs)"
  shows "\<exists>k'. peek_remove N count (k, s) = Some (Inr (take count (contents s xs), k', s))
    \<and> pk_chunks k' = pk_chunks k \<and> pk_peeking k'"
proof (cases "count = 0 \<or> pk_len k = 0")
  case True
  then show ?thesis using assms by (auto simp: peek_remove_def)
next
  case False
  then obtain a ys where xs: "xs = a # ys" using assms(4) by (cases xs) auto
  obtain fs where w: "pool_wf N s fs (insert a (set ys) \<union> others)" using assms(1) xs by (auto simp: queue_wf_def)
  have h: "mks_head (pk_chunks k) = Some a" "chain s (mc_next (chunk_at s a)) ys" "0 < mc_len (chunk_at s a)"
    "\<forall>b \<in> set ys. 0 < mc_len (chunk_at s b)" using assms(1) xs by (auto simp: queue_wf_def)
  let ?k2 = "k\<lparr>pk_cur := Some a, pk_pos := Some (a, mc_pos (chunk_at s a)), pk_last := Some (a, mc_last (chunk_at s a))\<rparr>"
  have "peek_remove N count (k, s) = peek_loop count [] (?k2, s)"
    using assms(2,3) False h by (simp add: peek_remove_def mc_len_def)
  moreover have "\<exists>k'. peek_loop count [] (?k2, s) = Some (Inr ([] @ take count (drop (mc_pos (chunk_at s a) - mc_pos (chunk_at s a))
      (contents s (a # ys))), k', s)) \<and> pk_chunks k' = pk_chunks ?k2 \<and> pk_peeking k' = pk_peeking ?k2"
    by (rule peek_loop_ok [OF w]) (use False h in \<open>auto simp: mc_len_def\<close>)
  ultimately show ?thesis using assms(2) xs by auto
qed

lemma peek_first_read_witness:
  "\<exists>k'. peek_remove 2 5 (PeekMemchunks_init, Pool_init) = Some (Inr ([], k', Pool_init))
    \<and> pk_chunks k' = Memchunks_init \<and> pk_peeking k'"
  using peek_first_read [of 2 PeekMemchunks_init Pool_init "[]" "{}" 5] queue_wf_init [of 2]
  by (simp add: PeekMemchunks_init_def)

text \<open>A peeking read that stopped at the end of a chunk loses its place. The next read moves on to the
  following chunk but keeps the position in the old one: it returns nothing although bytes are left, and
  the read after it subtracts pointers into two different chunks, which is undefined.\<close>

lemma peek_read_loses_place:
  assumes "pk_peeking k" and "pk_cur k = Some c" and "pk_pos k = Some (c, mc_last (chunk_at s c))"
    and "mc_next (chunk_at s c) = Some c'" and "c' \<noteq> c" and "mc_next (chunk_at s c') = None"
    and "pk_len k \<noteq> 0" and "0 < count"
  shows "\<exists>k'. peek_remove N count (k, s) = Some (Inr ([], k', s)) \<and> pk_len k' = pk_len k
    \<and> peek_remove N count (k', s) = Some (Inl Out_Of_Bounds)"
proof -
  let ?k1 = "k\<lparr>pk_last := Some (c, mc_last (chunk_at s c)), pk_cur := Some c'\<rparr>"
  have l: "peek_loop count [] (?k1, s) = Some (Inr ([], ?k1\<lparr>pk_pos := Some (c, mc_last (chunk_at s c))\<rparr>, s))"
    using assms by (subst peek_loop.simps) (simp add: Let_def)
  have r1: "peek_remove N count (k, s) = Some (Inr ([], ?k1\<lparr>pk_pos := Some (c, mc_last (chunk_at s c))\<rparr>, s))"
    using assms l by (simp add: peek_remove_def)
  let ?k2 = "?k1\<lparr>pk_pos := Some (c, mc_last (chunk_at s c))\<rparr>"
  have "peek_remove N count (?k2, s)
      = peek_loop count [] (?k2\<lparr>pk_last := Some (c', mc_last (chunk_at s c'))\<rparr>, s)"
    using assms by (simp add: peek_remove_def)
  also have "\<dots> = Some (Inl Out_Of_Bounds)" using assms by (subst peek_loop.simps) (simp add: Let_def)
  finally show ?thesis using r1 by auto
qed

definition sample_peek :: "peek_memchunks \<times> mempool" where
  "sample_peek = (case peek_append 2 [1, 2, 3, 4] (PeekMemchunks_init, Pool_init) of
     Some (_, st) \<Rightarrow> (case peek_remove 2 2 st of Some (Inr (_, st')) \<Rightarrow> st' | _ \<Rightarrow> st)
   | None \<Rightarrow> (PeekMemchunks_init, Pool_init))"

lemma peek_read_loses_place_witness:
  "\<exists>k'. peek_remove 2 1 sample_peek = Some (Inr ([], k', snd sample_peek)) \<and> pk_len k' = pk_len (fst sample_peek)
    \<and> peek_remove 2 1 (k', snd sample_peek) = Some (Inl Out_Of_Bounds)"
proof -
  have k: "pk_peeking (fst sample_peek)" "pk_cur (fst sample_peek) = Some 0" "pk_len (fst sample_peek) \<noteq> 0"
    "pk_pos (fst sample_peek) = Some (0, 2)" by code_simp+
  have s: "mc_last (chunk_at (snd sample_peek) 0) = 2" "mc_next (chunk_at (snd sample_peek) 0) = Some 1"
    "mc_next (chunk_at (snd sample_peek) 1) = None" by code_simp+
  show ?thesis
    using peek_read_loses_place [of "fst sample_peek" 0 "snd sample_peek" 1 1 2] k s by simp
qed

text \<open>Moving bytes between two queues of a pool: the requested number of bytes, or all there are, leave
  the front of the first queue and arrive at the end of the second, no byte is lost or reordered, and
  both queues stay well formed although the chunks the first gives back may be handed to the second.\<close>

lemma remove_into_moves:
  assumes "0 < N" and "two_queues N q d s xs ys others"
  shows "\<exists>q' d' s' xs' ys'. remove_into N count (q, d, s) = Some (Inr (min count (length (contents s xs)), q', d', s'))
    \<and> two_queues N q' d' s' xs' ys' others \<and> contents s' ys' = contents s ys @ take count (contents s xs)
    \<and> contents s' xs' = drop count (contents s xs) \<and> same_on others s s'"
proof (cases "xs = [] \<or> count = 0")
  case True
  then show ?thesis using assms(2)
    by (intro exI [of _ q] exI [of _ d] exI [of _ s] exI [of _ xs] exI [of _ ys])
       (auto simp: remove_into_def two_queues_def queue_wf_def same_on_def)
next
  case False
  have qw: "queue_wf N (q, s) xs (set ys \<union> others)" using assms(2) by (simp add: two_queues_def)
  obtain out p' q' d' s' xs' ys' where r:
    "remove_into_loop N (mks_head q) count (q, d, s) = Some (Inr (count - length out, p', q', d', s'))"
    "two_queues N (set_head p' q') d' s' xs' ys' others" "contents s' ys' = contents s ys @ out"
    "out @ contents s' xs' = contents s xs" "length out = min count (length (contents s xs))" "same_on others s s'"
    using remove_into_loop_ok [OF assms(1), of "mks_head q" q d s xs ys others count] queue_wf_head [OF qw] assms(2) by auto
  have "out = take count (contents s xs)" "contents s' xs' = drop count (contents s xs)"
    using r(5) by (simp_all add: r(4) [symmetric] min_def split: if_splits)
  moreover have "mks_tail q \<noteq> None" using qw False by (auto simp: queue_wf_def)
  ultimately show ?thesis using r False
    by (intro exI [of _ "set_head p' q'"] exI [of _ d'] exI [of _ s'] exI [of _ xs'] exI [of _ ys'])
       (auto simp: remove_into_def)
qed

lemma remove_into_moves_witness:
  "\<exists>q' d' s' xs' ys'. remove_into 2 7 (Memchunks_init, Memchunks_init, Pool_init) = Some (Inr (0, q', d', s'))
    \<and> two_queues 2 q' d' s' xs' ys' {} \<and> contents s' ys' = [] \<and> contents s' xs' = [] \<and> same_on {} Pool_init s'"
  using remove_into_moves [of 2 Memchunks_init Memchunks_init Pool_init "[]" "[]" "{}" 7] queue_wf_init [of 2]
  by (simp add: two_queues_def)

text \<open>Clearing a pool with no chunk in use frees every chunk ever allocated: nothing leaks and the pool
  is as new, apart from the addresses handed out.\<close>

lemma pool_clear_frees_all:
  assumes "pool_wf N s fs {}"
  shows "Pool_clear s = Some (Pool_init\<lparr>new_addr := new_addr s\<rparr>)"
proof -
  let ?s1 = "s\<lparr>freelist := None, freelistsize := 0\<rparr>"
  have "clear_loop (previous (new_addr s)) ?s1 = Some (?s1\<lparr>heap := Map.empty\<rparr>)"
    using assms by (intro clear_loop_ok) (auto simp: pool_wf_def chunk_at_def)
  then show ?thesis using assms by (cases s) (simp add: Pool_clear_def pool_wf_def Pool_init_def)
qed

lemma pool_clear_frees_all_witness: "Pool_clear (snd (Pool_get 4 Pool_init)\<lparr>freelist := Some 0, freelistsize := 4\<rparr>)
    = Some (Pool_init\<lparr>new_addr := 1\<rparr>)"
proof -
  have "pool_wf 4 (snd (Pool_get 4 Pool_init)\<lparr>freelist := Some 0, freelistsize := 4\<rparr>) [0] {}"
    by (auto simp: pool_wf_def Pool_get_def Pool_init_def Let_def chunk_at_def put_chunk_def Memchunk_init_def
        chunk_wf_def previous_def)
  from pool_clear_frees_all [OF this] show ?thesis by (simp add: Pool_get_def Pool_init_def Let_def put_chunk_def)
qed

end
