(* ===== verification/Http_Util.thy ===== *)
theory Http_Util
  imports Maock_Prelude
begin

text \<open>
  The HTTP helpers the server uses: reason phrases and status texts, the question whether a response
  has a body, percent encoding and decoding (\<^verbatim>\<open>util.cc\<close>, \<^verbatim>\<open>util.h\<close>) and the joining of paths that
  resolves dot segments (\<^verbatim>\<open>http2.cc\<close>).
\<close>

section \<open>Status codes\<close>

definition reason_phrases :: "(nat \<times> string) list" where
  "reason_phrases = [
     (100, ''Continue''), (101, ''Switching Protocols''), (103, ''Early Hints''),
     (200, ''OK''), (201, ''Created''), (202, ''Accepted''), (203, ''Non-Authoritative Information''),
     (204, ''No Content''), (205, ''Reset Content''), (206, ''Partial Content''),
     (300, ''Multiple Choices''), (301, ''Moved Permanently''), (302, ''Found''), (303, ''See Other''),
     (304, ''Not Modified''), (305, ''Use Proxy''), (307, ''Temporary Redirect''), (308, ''Permanent Redirect''),
     (400, ''Bad Request''), (401, ''Unauthorized''), (402, ''Payment Required''), (403, ''Forbidden''),
     (404, ''Not Found''), (405, ''Method Not Allowed''), (406, ''Not Acceptable''),
     (407, ''Proxy Authentication Required''), (408, ''Request Timeout''), (409, ''Conflict''), (410, ''Gone''),
     (411, ''Length Required''), (412, ''Precondition Failed''), (413, ''Payload Too Large''), (414, ''URI Too Long''),
     (415, ''Unsupported Media Type''), (416, ''Requested Range Not Satisfiable''), (417, ''Expectation Failed''),
     (421, ''Misdirected Request''), (425, ''Too Early''), (426, ''Upgrade Required''),
     (428, ''Precondition Required''), (429, ''Too Many Requests''), (431, ''Request Header Fields Too Large''),
     (451, ''Unavailable For Legal Reasons''),
     (500, ''Internal Server Error''), (501, ''Not Implemented''), (502, ''Bad Gateway''), (503, ''Service Unavailable''),
     (504, ''Gateway Timeout''), (505, ''HTTP Version Not Supported''), (511, ''Network Authentication Required'')]"

definition get_reason_phrase :: "nat \<Rightarrow> string" where
  "get_reason_phrase status_code =
     (case map_of reason_phrases status_code of Some s \<Rightarrow> s | None \<Rightarrow> [])"

text \<open>Every case of the \<^verbatim>\<open>switch\<close> of \<^verbatim>\<open>stringify_status\<close> returns the decimal text of its own code; any other
  code is printed.\<close>

definition stringify_status :: "nat \<Rightarrow> string" where
  "stringify_status status_code = nat_dec status_code"

definition expect_response_body :: "nat \<Rightarrow> bool" where
  "expect_response_body status_code \<longleftrightarrow>
     status_code = 101 \<or> (status_code div 100 \<noteq> 1 \<and> status_code \<noteq> 304 \<and> status_code \<noteq> 204)"

definition expect_response_body_for :: "string \<Rightarrow> nat \<Rightarrow> bool" where
  "expect_response_body_for request_method status_code \<longleftrightarrow>
     request_method \<noteq> ''HEAD'' \<and> expect_response_body status_code"

section \<open>Percent encoding\<close>

definition is_alpha :: "char \<Rightarrow> bool" where
  "is_alpha c \<longleftrightarrow> (CHR ''A'' \<le> c \<and> c \<le> CHR ''Z'') \<or> (CHR ''a'' \<le> c \<and> c \<le> CHR ''z'')"

definition is_digit :: "char \<Rightarrow> bool" where
  "is_digit c \<longleftrightarrow> CHR ''0'' \<le> c \<and> c \<le> CHR ''9''"

definition is_hex_digit :: "char \<Rightarrow> bool" where
  "is_hex_digit c \<longleftrightarrow> is_digit c \<or> (CHR ''A'' \<le> c \<and> c \<le> CHR ''F'') \<or> (CHR ''a'' \<le> c \<and> c \<le> CHR ''f'')"

definition in_rfc3986_unreserved_chars :: "char \<Rightarrow> bool" where
  "in_rfc3986_unreserved_chars c \<longleftrightarrow> is_alpha c \<or> is_digit c \<or> c \<in> set ''-._~''"

definition in_rfc3986_sub_delims :: "char \<Rightarrow> bool" where
  "in_rfc3986_sub_delims c \<longleftrightarrow> c \<in> set [CHR ''!'', CHR ''$'', CHR ''&'', CHR 0x27, CHR ''('', CHR '')'',
     CHR ''*'', CHR ''+'', CHR '','', CHR '';'', CHR ''='']"

definition UPPER_XDIGITS :: string where
  "UPPER_XDIGITS = ''0123456789ABCDEF''"

definition percent_octet :: "char \<Rightarrow> string" where
  "percent_octet c = [CHR ''%'', UPPER_XDIGITS ! (of_char c div 16), UPPER_XDIGITS ! (of_char c mod 16)]"

fun percent_encode :: "string \<Rightarrow> string" where
  "percent_encode [] = []"
| "percent_encode (c # s) =
     (if in_rfc3986_unreserved_chars c then [c] else percent_octet c) @ percent_encode s"

fun percent_encode_path :: "string \<Rightarrow> string" where
  "percent_encode_path [] = []"
| "percent_encode_path (c # s) =
     (if in_rfc3986_unreserved_chars c \<or> in_rfc3986_sub_delims c \<or> c = CHR ''/'' then [c] else percent_octet c)
     @ percent_encode_path s"

text \<open>\<^verbatim>\<open>char\<close> is signed.\<close>

definition char_value :: "char \<Rightarrow> int" where
  "char_value c = (if of_char c < (128 :: int) then of_char c else of_char c - 256)"

definition hex_to_uint :: "char \<Rightarrow> u32" where
  "hex_to_uint c =
     (if char_value c \<le> 57 then word_of_int (char_value c - 48)
      else if char_value c \<le> 90 then word_of_int (char_value c - 65 + 10)
      else if char_value c \<le> 122 then word_of_int (char_value c - 97 + 10)
      else 256)"

fun percent_decode :: "string \<Rightarrow> string" where
  "percent_decode (c # a # b # s) =
     (if c = CHR ''%'' \<and> is_hex_digit a \<and> is_hex_digit b
      then char_of (unat (push_bit 4 (hex_to_uint a) + hex_to_uint b)) # percent_decode s
      else c # percent_decode (a # b # s))"
| "percent_decode s = s"

section \<open>Joining paths\<close>

text \<open>\<open>p\<close> is what has been written; both functions may shorten it, and write a slash when nothing is left.\<close>

definition eat_file :: "string \<Rightarrow> string" where
  "eat_file p =
     (let q = rev (dropWhile (\<lambda>c. c \<noteq> CHR ''/'') (rev p))
      in if p = [] \<or> q = [] then ''/'' else q)"

definition eat_dir :: "string \<Rightarrow> string result" where
  "eat_dir p =
     (let q = eat_file p
      in if last q \<noteq> CHR ''/'' then Inl Assertion else Inr (eat_file (butlast q)))"

lemma length_dropWhile_tl: "s \<noteq> [] \<Longrightarrow> length (dropWhile P (tl (dropWhile Q s))) < length s"
proof -
  assume s: "s \<noteq> []"
  have "length (dropWhile P (tl (dropWhile Q s))) \<le> length (tl (dropWhile Q s))"
    by (rule length_dropWhile_le)
  also have "\<dots> < length s"
    using length_dropWhile_le [of Q s] s by (cases s; cases "dropWhile Q s") auto
  finally show ?thesis .
qed

text \<open>The tests on \<^verbatim>\<open>*first\<close>, \<^verbatim>\<open>*(first + 1)\<close> and \<^verbatim>\<open>*(first + 2)\<close> ask which dot segment, if any, the rest of
  the path starts with.\<close>

function path_join_loop :: "string \<Rightarrow> string \<Rightarrow> string result" where
  "path_join_loop first p =
     (if first = [] \<or> first = ''.'' then Inr p
      else if prefix ''./'' first then path_join_loop (drop 2 first) p
      else if first = ''..'' then eat_dir p
      else if prefix ''../'' first then rbind (eat_dir p) (path_join_loop (drop 3 first))
      else let p1 = (if last p \<noteq> CHR ''/'' then eat_file p else p);
               file = takeWhile (\<lambda>c. c \<noteq> CHR ''/'') first;
               slash = dropWhile (\<lambda>c. c \<noteq> CHR ''/'') first
           in if slash = [] then Inr (p1 @ first)
              else path_join_loop (dropWhile (\<lambda>c. c = CHR ''/'') (tl slash)) (p1 @ file @ ''/''))"
  by pat_completeness auto

termination
  by (relation "measure (\<lambda>(first, p). length first)") (simp_all add: length_dropWhile_tl)

declare path_join_loop.simps [simp del]

definition path_join :: "string \<Rightarrow> string \<Rightarrow> string \<Rightarrow> string \<Rightarrow> string result" where
  "path_join base_path base_query rel_path rel_query =
     (if rel_path = [] then
        Inr ((if base_path = [] then ''/'' else base_path)
             @ (if rel_query = [] then (if base_query \<noteq> [] then ''?'' @ base_query else [])
                else ''?'' @ rel_query))
      else
        rbind (if hd rel_path = CHR ''/''
               then path_join_loop (dropWhile (\<lambda>c. c = CHR ''/'') (tl rel_path)) ''/''
               else if base_path = [] then path_join_loop rel_path ''/''
               else path_join_loop rel_path base_path)
          (\<lambda>p. Inr (p @ (if rel_query \<noteq> [] then ''?'' @ rel_query else []))))"

section \<open>Lemmas on percent encoding\<close>

lemma percent_decode_other: "c \<noteq> CHR ''%'' \<Longrightarrow> percent_decode (c # s) = c # percent_decode s"
  by (cases "(c # s)" rule: percent_decode.cases) auto

lemma XDIGITS_all:
  "\<forall>i \<in> set [0..<16]. is_hex_digit (UPPER_XDIGITS ! i) \<and> hex_to_uint (UPPER_XDIGITS ! i) = word_of_nat i"
  by (simp add: upt_rec UPPER_XDIGITS_def is_hex_digit_def is_digit_def hex_to_uint_def char_value_def less_eq_char_def)

lemma XDIGITS:
  "i < 16 \<Longrightarrow> is_hex_digit (UPPER_XDIGITS ! i)" "i < 16 \<Longrightarrow> hex_to_uint (UPPER_XDIGITS ! i) = word_of_nat i"
  using XDIGITS_all by auto

lemma of_char_less: "(of_char c :: nat) < 256"
proof -
  have "(of_char c :: nat) mod 256 < 256" by (rule mod_less_divisor) simp
  then show ?thesis by (simp only: of_char_mod_256)
qed

lemma percent_decode_octet: "percent_decode (percent_octet c @ s) = c # percent_decode s"
proof -
  let ?n = "of_char c :: nat"
  have h: "?n div 16 < 16" "?n mod 16 < 16"
    using of_char_less [of c] less_mult_imp_div_less [of ?n 16 16] by simp_all
  have "push_bit 4 (word_of_nat (?n div 16) :: u32) + word_of_nat (?n mod 16)
      = word_of_nat (?n div 16 * 16 + ?n mod 16)"
    by (simp only: push_bit_eq_mult of_nat_add of_nat_mult of_nat_numeral power_numeral mult_numeral_1_right
        num.simps semiring_norm numeral_One pow.simps sqr.simps)
  then have "push_bit 4 (word_of_nat (?n div 16) :: u32) + word_of_nat (?n mod 16) = word_of_nat ?n"
    by (simp only: div_mult_mod_eq)
  moreover have "unat (word_of_nat ?n :: u32) = ?n"
  proof -
    have "?n < 4294967296" using of_char_less [of c] by linarith
    then show ?thesis by (simp add: unat_of_nat)
  qed
  ultimately show ?thesis using XDIGITS h by (simp add: percent_octet_def)
qed

lemma unreserved_not_percent: "in_rfc3986_unreserved_chars c \<Longrightarrow> c \<noteq> CHR ''%''"
  by (auto simp: in_rfc3986_unreserved_chars_def is_alpha_def is_digit_def less_eq_char_def)

lemma sub_delims_not_percent: "in_rfc3986_sub_delims c \<Longrightarrow> c \<noteq> CHR ''%''"
  by (auto simp: in_rfc3986_sub_delims_def)

section \<open>Lemmas on joining paths\<close>

text \<open>The segments of a path between its slashes.\<close>

fun segments :: "string \<Rightarrow> string list" where
  "segments [] = [[]]"
| "segments (c # s) = (if c = CHR ''/'' then [] # segments s else (c # hd (segments s)) # tl (segments s))"

lemma segments_nonempty: "segments s \<noteq> []"
  by (cases s) auto

lemma segments_slash: "segments (a @ CHR ''/'' # b) = segments a @ segments b"
  by (induction a) (auto simp: segments_nonempty)

lemma segments_file: "CHR ''/'' \<notin> set s \<Longrightarrow> segments s = [s]"
  by (induction s) auto

text \<open>What has been written while joining: a directory, without dot segments.\<close>

definition no_dots :: "string list \<Rightarrow> bool" where
  "no_dots ss \<longleftrightarrow> ''.'' \<notin> set ss \<and> ''..'' \<notin> set ss"

definition clean_dir :: "string \<Rightarrow> bool" where
  "clean_dir p \<longleftrightarrow> (\<exists>q. p = q @ ''/'' \<and> no_dots (segments q) \<and> (q = [] \<or> hd q = CHR ''/''))"

lemma clean_dir_slash [simp]: "clean_dir ''/''"
  by (auto simp: clean_dir_def no_dots_def)

lemma clean_dir_last: "clean_dir p \<Longrightarrow> last p = CHR ''/'' \<and> p \<noteq> []"
  by (auto simp: clean_dir_def)

lemma eat_file_split:
  assumes "CHR ''/'' \<notin> set s"
  shows "eat_file (q @ CHR ''/'' # s) = q @ ''/''"
proof -
  have "dropWhile (\<lambda>c. c \<noteq> CHR ''/'') (rev s @ CHR ''/'' # rev q) = CHR ''/'' # rev q"
    using assms by (subst dropWhile_append2) auto
  then show ?thesis by (simp add: eat_file_def)
qed

lemma eat_dir_clean:
  assumes "clean_dir p"
  shows "\<exists>p'. eat_dir p = Inr p' \<and> clean_dir p'"
proof -
  obtain q where q: "p = q @ ''/''" "no_dots (segments q)" "q = [] \<or> hd q = CHR ''/''"
    using assms by (auto simp: clean_dir_def)
  have e: "eat_dir p = Inr (eat_file q)" using eat_file_split [of "[]" q] q(1) by (simp add: eat_dir_def)
  show ?thesis
  proof (cases "q = []")
    case True
    then show ?thesis using e by (simp add: eat_file_def)
  next
    case False
    then have "CHR ''/'' \<in> set q" using q(3) by (cases q) auto
    then obtain q' s where s: "q = q' @ CHR ''/'' # s" "CHR ''/'' \<notin> set s" by (metis split_list_last)
    then have "eat_file q = q' @ ''/''" by (simp add: eat_file_split)
    moreover have "no_dots (segments q')" using q(2) s by (auto simp: segments_slash no_dots_def)
    moreover have "q' = [] \<or> hd q' = CHR ''/''" using q(3) s by (cases q') auto
    ultimately show ?thesis using e by (auto simp: clean_dir_def)
  qed
qed

lemma clean_dir_snoc:
  assumes "clean_dir p" and "CHR ''/'' \<notin> set f" and "f \<noteq> ''.''" and "f \<noteq> ''..''"
  shows "clean_dir (p @ f @ ''/'')"
proof -
  obtain q where q: "p = q @ ''/''" "no_dots (segments q)" "q = [] \<or> hd q = CHR ''/''"
    using assms by (auto simp: clean_dir_def)
  have "segments (q @ CHR ''/'' # f) = segments q @ [f]" using assms(2) by (simp add: segments_slash segments_file)
  then show ?thesis unfolding clean_dir_def using q assms(3,4)
    by (intro exI [of _ "q @ CHR ''/'' # f"]) (auto simp: no_dots_def hd_append)
qed

text \<open>A clean path: absolute, no dot segments.\<close>

definition clean_path :: "string \<Rightarrow> bool" where
  "clean_path p \<longleftrightarrow> prefix ''/'' p \<and> no_dots (segments p)"

lemma clean_path_of_dir:
  assumes "clean_dir p" and "CHR ''/'' \<notin> set f" and "f \<noteq> ''.''" and "f \<noteq> ''..''"
  shows "clean_path (p @ f)"
proof -
  obtain q where q: "p = q @ ''/''" "no_dots (segments q)" "q = [] \<or> hd q = CHR ''/''"
    using assms by (auto simp: clean_dir_def)
  have "segments (q @ CHR ''/'' # f) = segments q @ [f]" using assms(2) by (simp add: segments_slash segments_file)
  then show ?thesis using q assms by (cases q) (auto simp: clean_path_def no_dots_def)
qed

lemma path_join_loop_clean:
  "clean_dir p \<Longrightarrow> \<exists>r. path_join_loop first p = Inr r \<and> clean_path r"
proof (induction first p rule: path_join_loop.induct)
  case (1 first p)
  let ?file = "takeWhile (\<lambda>c. c \<noteq> CHR ''/'') first" and ?slash = "dropWhile (\<lambda>c. c \<noteq> CHR ''/'') first"
  have p: "clean_path p" using clean_path_of_dir [OF "1.prems", of "[]"] by simp
  obtain p' where up: "eat_dir p = Inr p'" "clean_dir p'" using eat_dir_clean [OF "1.prems"] by blast
  have p': "clean_path p'" using clean_path_of_dir [OF up(2), of "[]"] by simp
  have l: "last p = CHR ''/''" using clean_dir_last [OF "1.prems"] by simp
  have ns: "CHR ''/'' \<notin> set ?file" using set_takeWhileD by fastforce
  have split: "first = ?file @ ?slash" by simp
  consider (stop) "first = [] \<or> first = ''.''" | (dot) "first \<noteq> ''.''" "prefix ''./'' first"
    | (up_stop) "first = ''..''" | (up) "first \<noteq> ''..''" "\<not> prefix ''./'' first" "prefix ''../'' first"
    | (copy) "\<not> (first = [] \<or> first = ''.'')" "\<not> prefix ''./'' first" "first \<noteq> ''..''" "\<not> prefix ''../'' first"
    by blast
  then show ?case
  proof cases
    case copy
    have "?slash = [] \<or> hd ?slash = CHR ''/''" using hd_dropWhile [of "\<lambda>c. c \<noteq> CHR ''/''" first] by auto
    then have f: "?file \<noteq> ''.''" "?file \<noteq> ''..''"
      using copy split by (cases ?slash; metis append_Nil2 prefixI append_Cons append_Nil list.sel(1))+
    show ?thesis
    proof (cases "?slash = []")
      case True
      then have "first = ?file" using split by (metis append_Nil2)
      then show ?thesis using copy True l clean_path_of_dir [OF "1.prems" ns f]
        by (subst path_join_loop.simps) simp
    next
      case False
      then show ?thesis using "1.IH"(3) [OF copy refl refl refl] clean_dir_snoc [OF "1.prems" ns f] copy l
        by (subst path_join_loop.simps) (auto simp: Let_def)
    qed
  qed (use "1.IH"(1,2) "1.prems" p p' up in \<open>subst path_join_loop.simps; auto simp: prefix_def\<close>)+
qed

section \<open>Properties\<close>

text \<open>C17. Percent encoding loses nothing: decoding gives back every string that was encoded, with the
  encoding of names and with the one of paths, which keeps sub-delimiters and slashes.\<close>

theorem percent_decode_encode:
  "percent_decode (percent_encode s) = s \<and> percent_decode (percent_encode_path s) = s"
proof -
  have "percent_decode (percent_encode s) = s"
    by (induction s) (auto simp: percent_decode_other percent_decode_octet unreserved_not_percent)
  moreover have "percent_decode (percent_encode_path s) = s"
    by (induction s)
       (auto simp: percent_decode_other percent_decode_octet unreserved_not_percent sub_delims_not_percent)
  ultimately show ?thesis ..
qed

text \<open>C16. Joining a request path with the root always ends, never trips the assertion of \<^verbatim>\<open>eat_dir\<close>, and gives
  an absolute path with no \<^verbatim>\<open>.\<close> or \<^verbatim>\<open>..\<close> segment: no request path climbs above the root.\<close>

theorem path_join_no_traversal:
  "\<exists>p. path_join [] [] path [] = Inr p \<and> clean_path p"
proof -
  have "\<exists>p. path_join_loop f ''/'' = Inr p \<and> clean_path p" for f
    by (rule path_join_loop_clean) simp
  then show ?thesis
    by (fastforce simp: path_join_def clean_path_def no_dots_def)
qed

text \<open>A doubled slash after a dot segment survives the joining, so the result is not a fixed point: the
  path \<^verbatim>\<open>/.//h/x\<close> becomes \<^verbatim>\<open>//h/x\<close>, and only a second joining gives \<^verbatim>\<open>/h/x\<close>.\<close>

lemma path_join_keeps_double_slash:
  assumes "h \<noteq> []" and "CHR ''/'' \<notin> set h" and "h \<noteq> ''.''" and "h \<noteq> ''..''"
  shows "path_join [] [] (''/.//'' @ h) [] = Inr (''//'' @ h) \<and> path_join [] [] (''//'' @ h) [] = Inr (''/'' @ h)"
proof -
  have tw: "takeWhile (\<lambda>c. c \<noteq> CHR ''/'') h = h" "dropWhile (\<lambda>c. c \<noteq> CHR ''/'') h = []"
    "dropWhile (\<lambda>c. c = CHR ''/'') h = h"
    using assms(1,2) by (auto simp: takeWhile_eq_all_conv dropWhile_eq_Nil_conv dropWhile_eq_self_iff neq_Nil_conv)
  have np: "\<not> prefix ''./'' h" "\<not> prefix ''../'' h" using assms(2) by (auto simp: prefix_def)
  have h: "path_join_loop h p = Inr (p @ h)" if "last p = CHR ''/''" for p
    using assms np tw that by (subst path_join_loop.simps) simp
  have s: "path_join_loop (CHR ''/'' # h) ''/'' = Inr (''//'' @ h)"
    using h [of "''//''"] tw by (subst path_join_loop.simps) simp
  have "path_join_loop (''.//'' @ h) ''/'' = Inr (''//'' @ h)"
    using s by (subst path_join_loop.simps) simp
  then show ?thesis using h [of "''/''"] tw by (simp add: path_join_def)
qed

lemma path_join_keeps_double_slash_witness:
  "path_join [] [] ''/.//host'' [] = Inr ''//host'' \<and> path_join [] [] ''//host'' [] = Inr ''/host''"
  using path_join_keeps_double_slash [of "''host''"] by simp

end
