(* ===== verification/Http_Stream.thy ===== *)
theory Http_Stream
  imports Http_Message Http_Util
begin

text \<open>
  Streams: the generators that produce a response body (\<^verbatim>\<open>asio_common.cc\<close>), the response of a stream with
  its states (\<^verbatim>\<open>asio_server_response.cc\<close>) and the ready-made handlers that answer with a redirect or a
  status page (\<^verbatim>\<open>asio_server_request_handler.cc\<close>).

  A response calls back into the protocol handler of its connection (\<^verbatim>\<open>base_handler\<close>, whose functions are
  virtual). Such a call is a value of \<open>handler_call\<close>; an operation returns the calls it makes, in order,
  and the handler of the connection executes them. The outcome of \<^verbatim>\<open>handler->start_response\<close> is the
  argument \<open>rv\<close>.
\<close>

section \<open>Generators\<close>

text \<open>Constants of the public interface of nghttp2.\<close>

definition NGHTTP2_DATA_FLAG_EOF :: u32 where "NGHTTP2_DATA_FLAG_EOF = 1"
definition NGHTTP2_DATA_FLAG_NO_END_STREAM :: u32 where "NGHTTP2_DATA_FLAG_NO_END_STREAM = 2"
definition NGHTTP2_ERR_DEFERRED :: int where "NGHTTP2_ERR_DEFERRED = - 508"
definition NGHTTP2_INTERNAL_ERROR :: u32 where "NGHTTP2_INTERNAL_ERROR = 2"

text \<open>A string with the number of characters left, or the generator that has nothing yet.\<close>

datatype generator = String_Generator string nat | Deferred_Generator

definition string_generator :: "string \<Rightarrow> generator" where
  "string_generator data = String_Generator data (length data)"

definition deferred_generator :: generator where
  "deferred_generator = Deferred_Generator"

record generated =
  gn_ret :: int
  gn_bytes :: string
  gn_eof :: bool
  gn_next :: generator

fun generate :: "generator \<Rightarrow> nat \<Rightarrow> generated" where
  "generate (String_Generator data left) len =
     (let n = min len left
      in \<lparr>gn_ret = int n, gn_bytes = take n (drop (length data - left) data), gn_eof = (left - n = 0),
          gn_next = String_Generator data (left - n)\<rparr>)"
| "generate Deferred_Generator len =
     \<lparr>gn_ret = NGHTTP2_ERR_DEFERRED, gn_bytes = [], gn_eof = False, gn_next = Deferred_Generator\<rparr>"

section \<open>The response of a stream\<close>

datatype response_state = INITIAL | HEADER_DONE | BODY_STARTED

datatype handler_call =
    Start_Response
  | Submit_Trailer header_map
  | Stream_Error u32
  | Resume
  | Call_On_Close u32

text \<open>An empty \<^verbatim>\<open>std::function\<close> is \<^term>\<open>None\<close>.\<close>

record asio_server_response =
  rp_header :: header_map
  rp_trailers :: header_map
  rp_generator :: "generator option"
  rp_close_cb :: bool
  rp_status_code :: nat
  rp_state :: response_state
  rp_payload_size :: nat
  rp_pushed :: bool
  rp_push_promise_sent :: bool

definition asio_server_response_init :: asio_server_response where
  "asio_server_response_init = \<lparr>rp_header = [], rp_trailers = [], rp_generator = Some deferred_generator,
     rp_close_cb = False, rp_status_code = 200, rp_state = INITIAL, rp_payload_size = 0, rp_pushed = False,
     rp_push_promise_sent = False\<rparr>"

type_synonym response_step = "asio_server_response \<times> handler_call list"

definition start_response :: "int \<Rightarrow> string \<Rightarrow> asio_server_response \<Rightarrow> response_step" where
  "start_response rv request_method r =
     ((if \<not> expect_response_body_for request_method (rp_status_code r) then r\<lparr>rp_state := BODY_STARTED\<rparr> else r),
      Start_Response # (if rv \<noteq> 0 then [Stream_Error NGHTTP2_INTERNAL_ERROR] else []))"

definition write_head :: "int \<Rightarrow> string \<Rightarrow> nat \<Rightarrow> header_map \<Rightarrow> asio_server_response \<Rightarrow> response_step" where
  "write_head rv request_method status_code h r =
     (if rp_state r \<noteq> INITIAL then (r, [])
      else let r1 = r\<lparr>rp_status_code := status_code, rp_header := h, rp_state := HEADER_DONE\<rparr>
           in if rp_pushed r1 \<and> \<not> rp_push_promise_sent r1 then (r1, [])
              else start_response rv request_method r1)"

definition end_with :: "int \<Rightarrow> string \<Rightarrow> generator \<Rightarrow> asio_server_response \<Rightarrow> response_step" where
  "end_with rv request_method cb r =
     (if rp_state r = BODY_STARTED then (r, [])
      else let r1 = r\<lparr>rp_generator := Some cb\<rparr>;
               (r2, calls) = (if rp_state r1 = INITIAL then write_head rv request_method (rp_status_code r1) [] r1
                              else (r1, [Resume]))
           in (r2\<lparr>rp_state := BODY_STARTED\<rparr>, calls))"

definition end_string :: "int \<Rightarrow> string \<Rightarrow> string \<Rightarrow> asio_server_response \<Rightarrow> response_step" where
  "end_string rv request_method data r =
     end_with rv request_method (string_generator data) (r\<lparr>rp_payload_size := length data\<rparr>)"

definition send_data_no_eos :: "int \<Rightarrow> string \<Rightarrow> string \<Rightarrow> asio_server_response \<Rightarrow> response_step" where
  "send_data_no_eos rv request_method data r =
     end_with rv request_method (string_generator data) (r\<lparr>rp_payload_size := length data\<rparr>)"

definition send_trailer :: "asio_server_response \<Rightarrow> response_step" where
  "send_trailer r =
     (if rp_trailers r \<noteq> [] then (r\<lparr>rp_trailers := []\<rparr>, [Submit_Trailer (rp_trailers r)]) else (r, []))"

definition write_trailer :: "header_map \<Rightarrow> asio_server_response \<Rightarrow> response_step" where
  "write_trailer h r =
     (let r1 = r\<lparr>rp_trailers := h\<rparr> in if rp_generator r1 = None then send_trailer r1 else (r1, []))"

definition on_close :: "asio_server_response \<Rightarrow> response_step" where
  "on_close r = (r\<lparr>rp_close_cb := True\<rparr>, [])"

definition call_on_close :: "u32 \<Rightarrow> asio_server_response \<Rightarrow> response_step" where
  "call_on_close error_code r = (r, if rp_close_cb r then [Call_On_Close error_code] else [])"

definition cancel_response :: "u32 \<Rightarrow> asio_server_response \<Rightarrow> response_step" where
  "cancel_response error_code r = (r, [Stream_Error error_code])"

definition resume_response :: "asio_server_response \<Rightarrow> response_step" where
  "resume_response r = (r, [Resume])"

definition push_promise_sent :: "int \<Rightarrow> string \<Rightarrow> asio_server_response \<Rightarrow> response_step" where
  "push_promise_sent rv request_method r =
     (if rp_push_promise_sent r then (r, [])
      else let r1 = r\<lparr>rp_push_promise_sent := True\<rparr>
           in if rp_state r1 = INITIAL then (r1, []) else start_response rv request_method r1)"

text \<open>\<^verbatim>\<open>call_read(data, len, &data_flags)\<close>: the return value, the bytes written at \<^verbatim>\<open>data\<close>, the flags
  afterwards, the response and its calls.\<close>

record read_outcome =
  rd_ret :: int
  rd_bytes :: string
  rd_flags :: u32
  rd_response :: asio_server_response
  rd_calls :: "handler_call list"

definition call_read :: "nat \<Rightarrow> u32 \<Rightarrow> asio_server_response \<Rightarrow> read_outcome" where
  "call_read len data_flags r =
     (let (ret, bs, flags, r1) =
        (case rp_generator r of
           Some g \<Rightarrow>
             let gn = generate g len;
                 flags = (if gn_eof gn then or data_flags NGHTTP2_DATA_FLAG_EOF else data_flags)
             in (gn_ret gn, gn_bytes gn, flags,
                 r\<lparr>rp_generator := if and flags NGHTTP2_DATA_FLAG_EOF \<noteq> 0 then None else Some (gn_next gn)\<rparr>)
         | None \<Rightarrow> (0, [], or data_flags NGHTTP2_DATA_FLAG_EOF, r))
      in if and flags NGHTTP2_DATA_FLAG_EOF \<noteq> 0 \<and> rp_trailers r1 \<noteq> []
         then let (r2, calls) = send_trailer r1
              in \<lparr>rd_ret = ret, rd_bytes = bs, rd_flags = or flags NGHTTP2_DATA_FLAG_NO_END_STREAM,
                  rd_response = r2, rd_calls = calls\<rparr>
         else \<lparr>rd_ret = ret, rd_bytes = bs, rd_flags = flags, rd_response = r1, rd_calls = []\<rparr>)"

section \<open>Ready-made handlers\<close>

definition create_html :: "nat \<Rightarrow> string" where
  "create_html status_code =
     (let s = stringify_status status_code @ '' '' @ get_reason_phrase status_code
      in ''<!DOCTYPE html><html lang='' @ [CHR 0x22] @ ''en'' @ [CHR 0x22] @ ''><title>'' @ s
         @ ''</title><body><h1>'' @ s @ ''</h1></body></html>'')"

definition plain_value :: "string \<Rightarrow> header_value" where
  "plain_value v = \<lparr>hv_value = v, hv_sensitive = False\<rparr>"

text \<open>Two operations in sequence, with the calls of both.\<close>

definition then_do :: "response_step \<Rightarrow> (asio_server_response \<Rightarrow> response_step) \<Rightarrow> response_step" where
  "then_do s f = (case s of (r1, c1) \<Rightarrow> case f r1 of (r2, c2) \<Rightarrow> (r2, c1 @ c2))"

definition redirect_handler :: "int \<Rightarrow> nat \<Rightarrow> string \<Rightarrow> string \<Rightarrow> asio_server_response \<Rightarrow> response_step" where
  "redirect_handler rv status_code uri request_method r =
     (let html = (if request_method = ''GET'' then create_html status_code else []);
          h = header_emplace ''content-length'' (plain_value (nat_dec (length html)))
                (header_emplace ''location'' (plain_value uri) [])
      in then_do (write_head rv request_method status_code h r) (end_string rv request_method html))"

definition status_handler :: "int \<Rightarrow> nat \<Rightarrow> string \<Rightarrow> asio_server_response \<Rightarrow> response_step" where
  "status_handler rv status_code request_method r =
     (if \<not> expect_response_body status_code
      then then_do (write_head rv request_method status_code [] r) (end_string rv request_method [])
      else let html = create_html status_code;
               h = header_emplace ''content-type'' (plain_value ''text/html; charset=utf-8'')
                     (header_emplace ''content-length'' (plain_value (nat_dec (length html))) [])
           in then_do (write_head rv request_method status_code h r) (end_string rv request_method html))"

section \<open>The life of a response\<close>

text \<open>One operation on a response, with the calls it makes. Only the response of a pushed stream is told that its
  promise was sent.\<close>

inductive response_op :: "asio_server_response \<Rightarrow> handler_call list \<Rightarrow> asio_server_response \<Rightarrow> bool" where
  op_write_head: "write_head rv rm code h r = (r', cs) \<Longrightarrow> response_op r cs r'"
| op_end: "end_with rv rm g r = (r', cs) \<Longrightarrow> response_op r cs r'"
| op_end_string: "end_string rv rm d r = (r', cs) \<Longrightarrow> response_op r cs r'"
| op_no_eos: "send_data_no_eos rv rm d r = (r', cs) \<Longrightarrow> response_op r cs r'"
| op_trailer: "write_trailer h r = (r', cs) \<Longrightarrow> response_op r cs r'"
| op_on_close: "on_close r = (r', cs) \<Longrightarrow> response_op r cs r'"
| op_call_on_close: "call_on_close e r = (r', cs) \<Longrightarrow> response_op r cs r'"
| op_cancel: "cancel_response e r = (r', cs) \<Longrightarrow> response_op r cs r'"
| op_resume: "resume_response r = (r', cs) \<Longrightarrow> response_op r cs r'"
| op_promise: "rp_pushed r \<Longrightarrow> push_promise_sent rv rm r = (r', cs) \<Longrightarrow> response_op r cs r'"
| op_read: "call_read len fl r = rd \<Longrightarrow> response_op r (rd_calls rd) (rd_response rd)"

inductive response_run :: "asio_server_response \<Rightarrow> handler_call list \<Rightarrow> asio_server_response \<Rightarrow> bool" where
  run_stop: "response_run r [] r"
| run_step: "response_run r0 cs r \<Longrightarrow> response_op r ds r' \<Longrightarrow> response_run r0 (cs @ ds) r'"

abbreviation starts :: "handler_call list \<Rightarrow> nat" where
  "starts cs \<equiv> length (filter (\<lambda>c. c = Start_Response) cs)"

definition started :: "asio_server_response \<Rightarrow> bool" where
  "started r \<longleftrightarrow> rp_state r \<noteq> INITIAL \<and> (rp_pushed r \<longrightarrow> rp_push_promise_sent r)"

text \<open>What an operation may do: start the response when it was not, never restart it, never change the status
  or the header once they are fixed.\<close>

definition op_ok :: "asio_server_response \<Rightarrow> handler_call list \<Rightarrow> asio_server_response \<Rightarrow> bool" where
  "op_ok r cs r' \<longleftrightarrow>
     (if started r then 1 else 0) + starts cs = (if started r' then 1 else 0)
     \<and> rp_pushed r' = rp_pushed r
     \<and> (rp_state r \<noteq> INITIAL \<longrightarrow> rp_state r' \<noteq> INITIAL \<and> rp_status_code r' = rp_status_code r \<and> rp_header r' = rp_header r)
     \<and> (rp_state r = BODY_STARTED \<longrightarrow> rp_state r' = BODY_STARTED)"

lemma op_ok_write_head: "write_head rv rm code h r = (r', cs) \<Longrightarrow> op_ok r cs r'"
  by (auto simp: op_ok_def write_head_def start_response_def started_def Let_def split: if_splits)

lemma op_ok_end: "end_with rv rm g r = (r', cs) \<Longrightarrow> op_ok r cs r'"
  by (cases "rp_state r")
     (auto simp: op_ok_def end_with_def write_head_def start_response_def started_def Let_def split: if_splits)

lemma op_ok_payload_size:
  "op_ok (r\<lparr>rp_payload_size := n\<rparr>) cs r' \<Longrightarrow> op_ok r cs r'"
  by (simp add: op_ok_def started_def)

lemma op_ok_send_trailer: "send_trailer r = (r', cs) \<Longrightarrow> op_ok r cs r'"
  by (auto simp: op_ok_def send_trailer_def started_def split: if_splits)

lemma op_ok_read: "call_read len fl r = rd \<Longrightarrow> op_ok r (rd_calls rd) (rd_response rd)"
  by (auto simp: op_ok_def call_read_def send_trailer_def started_def Let_def split: option.splits if_splits)

lemma response_op_ok: "response_op r cs r' \<Longrightarrow> op_ok r cs r'"
proof (induction rule: response_op.induct)
  case (op_end_string rv rm d r r' cs)
  then show ?case unfolding end_string_def by (rule op_ok_payload_size [OF op_ok_end])
next
  case (op_no_eos rv rm d r r' cs)
  then show ?case unfolding send_data_no_eos_def by (rule op_ok_payload_size [OF op_ok_end])
next
  case (op_trailer h r r' cs)
  then show ?case by (auto simp: op_ok_def write_trailer_def send_trailer_def started_def Let_def split: if_splits)
next
  case (op_promise r rv rm r' cs)
  then show ?case by (auto simp: op_ok_def push_promise_sent_def start_response_def started_def Let_def split: if_splits)
next
  case (op_write_head rv rm code h r r' cs)
  then show ?case by (rule op_ok_write_head)
next
  case (op_end rv rm g r r' cs)
  then show ?case by (rule op_ok_end)
next
  case (op_read len fl r rd)
  then show ?case by (rule op_ok_read)
qed (auto simp: op_ok_def on_close_def call_on_close_def cancel_response_def resume_response_def started_def)

lemma response_run_ok:
  "response_run r0 cs r \<Longrightarrow> \<not> started r0 \<Longrightarrow> starts cs = (if started r then 1 else 0) \<and> rp_pushed r = rp_pushed r0"
proof (induction rule: response_run.induct)
  case (run_step r0 cs r ds r')
  then show ?case using response_op_ok [OF run_step.hyps(2)] by (auto simp: op_ok_def split: if_splits)
qed simp

text \<open>Reading a body from a string generator: the bytes of successive reads make up the data, and the end of
  file is raised by the read that takes the last byte.\<close>

lemma generate_string:
  assumes "left \<le> length data"
  shows "gn_bytes (generate (String_Generator data left) len) = take len (drop (length data - left) data)"
    and "gn_ret (generate (String_Generator data left) len) = int (min len left)"
    and "gn_eof (generate (String_Generator data left) len) \<longleftrightarrow> left \<le> len"
    and "gn_next (generate (String_Generator data left) len) = String_Generator data (left - min len left)"
  using assms by (auto simp: Let_def min_def)

section \<open>Properties\<close>

text \<open>C14. A response is started at most once. Whatever sequence of operations the application and the protocol
  handler perform on a fresh response, pushed or not, \<^verbatim>\<open>start_response\<close> reaches the handler at most once,
  and for a response that is not pushed exactly when the head has been written.\<close>

theorem response_started_once:
  assumes "response_run (asio_server_response_init\<lparr>rp_pushed := pushed\<rparr>) cs r"
  shows "starts cs \<le> 1 \<and> (\<not> pushed \<longrightarrow> (starts cs = 1 \<longleftrightarrow> rp_state r \<noteq> INITIAL))"
  using response_run_ok [OF assms] by (auto simp: started_def asio_server_response_init_def)

theorem response_started_once_witness:
  "starts (snd (write_head 0 ''GET'' 200 [] asio_server_response_init)) \<le> 1
    \<and> (starts (snd (write_head 0 ''GET'' 200 [] asio_server_response_init)) = 1
        \<longleftrightarrow> rp_state (fst (write_head 0 ''GET'' 200 [] asio_server_response_init)) \<noteq> INITIAL)"
proof -
  let ?r0 = "asio_server_response_init\<lparr>rp_pushed := False\<rparr>" and ?w = "write_head 0 ''GET'' 200 [] asio_server_response_init"
  have i: "?r0 = asio_server_response_init" by (simp add: asio_server_response_init_def)
  have "response_run ?r0 ([] @ snd ?w) (fst ?w)"
    using run_step [OF run_stop [of ?r0] op_write_head [of 0 "''GET''" 200 "[]"]] i by simp
  from response_started_once [OF this] show ?thesis by simp
qed

end
