(* ===== verification/Serve_Mux.thy ===== *)
theory Serve_Mux
  imports Cxx_Container Http_Stream
begin

text \<open>
  The request multiplexer (\<^verbatim>\<open>asio_server_serve_mux.cc\<close>): registration of a handler for a pattern, with the
  implicit redirect for a pattern that ends in a slash, and the choice of the handler for a request. A
  handler is what the application registered (the type \<open>'cb\<close>), a redirect or a status page.
\<close>

section \<open>Handlers and registration\<close>

datatype 'cb request_cb = App 'cb | Redirect_Handler nat string | Status_Handler nat

record 'cb handler_entry =
  user_defined :: bool
  ent_cb :: "'cb request_cb"
  ent_pattern :: string

type_synonym 'cb serve_mux = "(string \<times> 'cb handler_entry) list"

definition entry_of :: "bool \<Rightarrow> 'cb request_cb \<Rightarrow> string \<Rightarrow> 'cb handler_entry" where
  "entry_of user cb pattern = \<lparr>user_defined = user, ent_cb = cb, ent_pattern = pattern\<rparr>"

text \<open>\<^verbatim>\<open>pattern.substr(pattern.find('/'))\<close>; the pattern has a slash where it is called.\<close>

definition skip_host :: "string \<Rightarrow> string" where
  "skip_host pattern = dropWhile (\<lambda>c. c \<noteq> CHR ''/'') pattern"

definition add_redirect :: "string \<Rightarrow> 'cb serve_mux \<Rightarrow> 'cb serve_mux" where
  "add_redirect pattern mux =
     (let redirect_pattern = butlast pattern;
          path = (if hd pattern = CHR ''/'' then pattern else skip_host pattern);
          ent = entry_of False (Redirect_Handler 301 path) pattern
      in case map_find (<) redirect_pattern mux of
           None \<Rightarrow> map_insert (<) redirect_pattern ent mux
         | Some e \<Rightarrow> if user_defined e then mux else map_assign (<) redirect_pattern ent mux)"

text \<open>\<^term>\<open>None\<close> is an empty callback. The result is whether the pattern was taken.\<close>

definition handle :: "string \<Rightarrow> 'cb option \<Rightarrow> 'cb serve_mux \<Rightarrow> bool \<times> 'cb serve_mux" where
  "handle pattern cb mux =
     (case cb of
        None \<Rightarrow> (False, mux)
      | Some f \<Rightarrow>
          if pattern = [] then (False, mux)
          else if (case map_find (<) pattern mux of Some e \<Rightarrow> user_defined e | None \<Rightarrow> False) then (False, mux)
          else let mux1 = (if 2 \<le> length pattern \<and> last pattern = CHR ''/'' then add_redirect pattern mux else mux)
               in (True, map_insert (<) pattern (entry_of True (App f) pattern) mux1))"

section \<open>The handler of a request\<close>

definition path_match :: "string \<Rightarrow> string \<Rightarrow> bool" where
  "path_match pattern path = (if last pattern \<noteq> CHR ''/'' then pattern = path else prefix pattern path)"

text \<open>The loop over the map in its order; a longer pattern replaces the best one so far.\<close>

fun match_loop :: "'cb serve_mux \<Rightarrow> string \<Rightarrow> 'cb handler_entry option \<Rightarrow> nat \<Rightarrow> 'cb handler_entry option" where
  "match_loop [] path ent best = ent"
| "match_loop (kv # mux) path ent best =
     (if \<not> path_match (fst kv) path then match_loop mux path ent best
      else if ent = None \<or> best < length (fst kv) then match_loop mux path (Some (snd kv)) (length (fst kv))
      else match_loop mux path ent best)"

definition mux_match :: "'cb serve_mux \<Rightarrow> string \<Rightarrow> 'cb request_cb option" where
  "mux_match mux path = map_option ent_cb (match_loop mux path None 0)"

definition mux_handler :: "'cb serve_mux \<Rightarrow> asio_server_request \<Rightarrow> 'cb request_cb result" where
  "mux_handler mux req =
     (let path = uri_path (req_uri req);
          dispatch = (case mux_match mux (uri_host (req_uri req) @ path) of
                        Some cb \<Rightarrow> cb
                      | None \<Rightarrow> (case mux_match mux path of Some cb \<Rightarrow> cb | None \<Rightarrow> Status_Handler 404))
      in if req_method req \<noteq> ''CONNECT'' then
           rbind (path_join [] [] path []) (\<lambda>clean_path.
             if clean_path \<noteq> path
             then Inr (Redirect_Handler 301 (percent_encode_path clean_path
                    @ (if uri_raw_query (req_uri req) \<noteq> [] then ''?'' @ uri_raw_query (req_uri req) else [])))
             else Inr dispatch)
         else Inr dispatch)"

section \<open>Lemmas\<close>

text \<open>The best entry is the first of the longest matching patterns.\<close>

lemma match_loop_best:
  "match_loop mux path ent best = Some e \<Longrightarrow>
     (ent = Some e \<and> (\<forall>kv \<in> set mux. path_match (fst kv) path \<longrightarrow> length (fst kv) \<le> best))
     \<or> (\<exists>p. (p, e) \<in> set mux \<and> path_match p path \<and> (ent \<noteq> None \<longrightarrow> best < length p)
          \<and> (\<forall>kv \<in> set mux. path_match (fst kv) path \<longrightarrow> length (fst kv) \<le> length p))"
proof (induction mux path ent best rule: match_loop.induct)
  case (1 path ent best)
  then show ?case by simp
next
  case (2 kv mux path ent best)
  show ?case
  proof (cases "path_match (fst kv) path \<and> (ent = None \<or> best < length (fst kv))")
    case True
    then have "match_loop mux path (Some (snd kv)) (length (fst kv)) = Some e" using "2.prems" by simp
    with "2.IH"(2) True consider
      (old) "snd kv = e" "\<forall>kv' \<in> set mux. path_match (fst kv') path \<longrightarrow> length (fst kv') \<le> length (fst kv)"
    | (new) p where "(p, e) \<in> set mux" "path_match p path" "length (fst kv) < length p"
        "\<forall>kv' \<in> set mux. path_match (fst kv') path \<longrightarrow> length (fst kv') \<le> length p"
      by auto
    then show ?thesis
    proof cases
      case old
      then have "(fst kv, e) \<in> set (kv # mux)" by (cases kv) simp
      then show ?thesis using True old by auto
    next
      case new
      then have "ent \<noteq> None \<longrightarrow> best < length p" using True by auto
      then show ?thesis using new by (intro disjI2 exI [of _ p]) auto
    qed
  next
    case False
    then have m: "match_loop mux path ent best = Some e" using "2.prems" by (auto split: if_splits)
    have "(ent = Some e \<and> (\<forall>kv' \<in> set mux. path_match (fst kv') path \<longrightarrow> length (fst kv') \<le> best))
      \<or> (\<exists>p. (p, e) \<in> set mux \<and> path_match p path \<and> (ent \<noteq> None \<longrightarrow> best < length p)
          \<and> (\<forall>kv' \<in> set mux. path_match (fst kv') path \<longrightarrow> length (fst kv') \<le> length p))"
      using "2.IH"(1,3) m False by blast
    then consider (old) "ent = Some e" "\<forall>kv' \<in> set mux. path_match (fst kv') path \<longrightarrow> length (fst kv') \<le> best"
      | (new) p where "(p, e) \<in> set mux" "path_match p path" "ent \<noteq> None \<longrightarrow> best < length p"
        "\<forall>kv' \<in> set mux. path_match (fst kv') path \<longrightarrow> length (fst kv') \<le> length p" by blast
    then show ?thesis
    proof cases
      case old
      then show ?thesis using False by (intro disjI1) auto
    next
      case new
      then have "path_match (fst kv) path \<longrightarrow> length (fst kv) \<le> length p" using False by auto
      then show ?thesis using new by (intro disjI2 exI [of _ p]) auto
    qed
  qed
qed

lemma match_loop_none:
  "match_loop mux path ent best = None \<longleftrightarrow> ent = None \<and> (\<forall>kv \<in> set mux. \<not> path_match (fst kv) path)"
  by (induction mux path ent best rule: match_loop.induct) auto

section \<open>Properties\<close>

text \<open>C4. The longest pattern wins. For any table of patterns, when the multiplexer finds a handler for a path, it is registered under a pattern
  that matches the path, and no longer pattern matches; it finds none exactly when no pattern matches.\<close>

theorem mux_match_longest:
  "case mux_match mux path of
     None \<Rightarrow> \<forall>kv \<in> set mux. \<not> path_match (fst kv) path
   | Some cb \<Rightarrow> \<exists>p e. (p, e) \<in> set mux \<and> ent_cb e = cb \<and> path_match p path
       \<and> (\<forall>kv \<in> set mux. path_match (fst kv) path \<longrightarrow> length (fst kv) \<le> length p)"
proof (cases "match_loop mux path None 0")
  case None
  then show ?thesis by (simp add: mux_match_def) (simp add: match_loop_none)
next
  case (Some e)
  then obtain p where "(p, e) \<in> set mux" "path_match p path"
    "\<forall>kv \<in> set mux. path_match (fst kv) path \<longrightarrow> length (fst kv) \<le> length p"
    using match_loop_best [OF Some] by auto
  then show ?thesis using Some by (auto simp: mux_match_def)
qed

theorem mux_match_longest_witness:
  "\<exists>p e. (p, e) \<in> set (snd (handle ''/'' (Some ()) [])) \<and> ent_cb e = App () \<and> path_match p ''/x''"
proof -
  have "mux_match (snd (handle ''/'' (Some ()) [])) ''/x'' = Some (App ())"
    by (simp add: mux_match_def handle_def path_match_def entry_of_def)
  then show ?thesis using mux_match_longest [of "snd (handle ''/'' (Some ()) [])" "''/x''"] by auto
qed

text \<open>C15. What the multiplexer does with every request, with the single pattern the server registers. The handler of a
  request that is not \<^verbatim>\<open>CONNECT\<close> is the application when its path is the clean one, and else a permanent redirect to the
  percent-encoded clean path with the query; it is never a status page. The handler of a \<^verbatim>\<open>CONNECT\<close> request is the application
  when its path, or its host followed by its path, begins with a slash, and the status page 404 otherwise.\<close>

theorem mux_total:
  "\<exists>p. clean_path p \<and> path_join [] [] (uri_path (req_uri req)) [] = Inr p \<and>
    mux_handler (snd (handle ''/'' (Some app) [])) req = Inr (
      if req_method req = ''CONNECT''
      then if prefix ''/'' (uri_path (req_uri req)) \<or> prefix ''/'' (uri_host (req_uri req) @ uri_path (req_uri req))
           then App app else Status_Handler 404
      else if p = uri_path (req_uri req) then App app
      else Redirect_Handler 301 (percent_encode_path p
             @ (if uri_raw_query (req_uri req) \<noteq> [] then ''?'' @ uri_raw_query (req_uri req) else [])))"
proof -
  obtain p where p: "path_join [] [] (uri_path (req_uri req)) [] = Inr p" "clean_path p"
    using path_join_no_traversal by blast
  have "mux_match (snd (handle ''/'' (Some app) [])) path = (if prefix ''/'' path then Some (App app) else None)" for path
    by (simp add: handle_def mux_match_def path_match_def entry_of_def)
  moreover have "prefix ''/'' p" using p(2) by (simp add: clean_path_def)
  ultimately show ?thesis using p
    by (intro exI [of _ p]) (auto simp: mux_handler_def Let_def)
qed

theorem mux_total_witness:
  "\<exists>p. clean_path p \<and> path_join [] [] [] [] = Inr p \<and> mux_handler (snd (handle ''/'' (Some ()) [])) asio_server_request_init
     = Inr (Redirect_Handler 301 (percent_encode_path p))"
proof -
  let ?q = asio_server_request_init
  have r: "req_method ?q \<noteq> ''CONNECT''" "uri_path (req_uri ?q) = []" "uri_raw_query (req_uri ?q) = []"
    by (simp_all add: asio_server_request_init_def empty_uri_def)
  obtain p where "clean_path p" "path_join [] [] [] [] = Inr p" "mux_handler (snd (handle ''/'' (Some ()) [])) ?q
      = Inr (if p = [] then App () else Redirect_Handler 301 (percent_encode_path p))"
    using mux_total [of ?q "()"] r by auto
  moreover from this have "p \<noteq> []" by (auto simp: clean_path_def)
  ultimately show ?thesis by auto
qed

end
