(* ===== verification/Base_Handler.thy ===== *)
theory Base_Handler
  imports Http_Stream
begin

text \<open>
  What the protocol handlers share (\<^verbatim>\<open>asio_server_base_handler.cc\<close>): the streams of a connection, the table in
  which the handlers of a worker thread are found by number, and the cached date.
\<close>

section \<open>Streams\<close>

record server_stream =
  st_request :: asio_server_request
  st_response :: asio_server_response

definition asio_server_stream_init :: server_stream where
  "asio_server_stream_init = \<lparr>st_request = asio_server_request_init, st_response = asio_server_response_init\<rparr>"

type_synonym streams = "(int \<times> server_stream) list"

definition create_stream :: "int \<Rightarrow> streams \<Rightarrow> streams result" where
  "create_stream stream_id ss =
     (if map_find (<) stream_id ss = None then Inr (map_insert (<) stream_id asio_server_stream_init ss)
      else Inl Assertion)"

definition close_stream :: "int \<Rightarrow> streams \<Rightarrow> streams" where
  "close_stream stream_id ss = map_erase (<) stream_id ss"

definition find_stream :: "int \<Rightarrow> streams \<Rightarrow> server_stream option" where
  "find_stream stream_id ss = map_find (<) stream_id ss"

section \<open>The application\<close>

text \<open>What the application does with a request before its callback returns: operations on the response
  (given what \<^verbatim>\<open>start_response\<close> of the handler returns), closing the stream, or nothing yet.\<close>

datatype app_action = Answer "int \<Rightarrow> asio_server_response \<Rightarrow> response_step" | Close_Stream | Later

type_synonym ('cb, 'w) application = "'cb \<Rightarrow> asio_server_request \<Rightarrow> int \<Rightarrow> 'w \<Rightarrow> (app_action \<times> 'w) result"

section \<open>The handlers of a thread\<close>

text \<open>\<^verbatim>\<open>handler_unique_id\<close> and \<^verbatim>\<open>alive_handlers\<close> belong to the thread; \<open>'h\<close> stands for a pointer to a handler.
  \<^verbatim>\<open>handler_io_service\<close> has the same keys.\<close>

record ('h, 'io) handler_table =
  handler_unique_id :: u64
  alive_handlers :: "(u64 \<times> 'h) list"
  handler_io_service :: "(u64 \<times> 'io) list"

definition handler_table_init :: "('h, 'io) handler_table" where
  "handler_table_init = \<lparr>handler_unique_id = 0, alive_handlers = [], handler_io_service = []\<rparr>"

definition base_handler_init :: "'h \<Rightarrow> 'io \<Rightarrow> ('h, 'io) handler_table \<Rightarrow> u64 \<times> ('h, 'io) handler_table" where
  "base_handler_init this io t =
     (let this_handler_id = handler_unique_id t
      in (this_handler_id,
          t\<lparr>handler_unique_id := handler_unique_id t + 1,
            alive_handlers := map_assign (<) this_handler_id this (alive_handlers t),
            handler_io_service := map_assign (<) this_handler_id io (handler_io_service t)\<rparr>))"

definition base_handler_destroy :: "u64 \<Rightarrow> ('h, 'io) handler_table \<Rightarrow> ('h, 'io) handler_table" where
  "base_handler_destroy this_handler_id t =
     t\<lparr>alive_handlers := map_erase (<) this_handler_id (alive_handlers t),
       handler_io_service := map_erase (<) this_handler_id (handler_io_service t)\<rparr>"

definition find_handler :: "u64 \<Rightarrow> ('h, 'io) handler_table \<Rightarrow> 'h option" where
  "find_handler handler_id t = map_find (<) handler_id (alive_handlers t)"

definition find_io_service :: "u64 \<Rightarrow> ('h, 'io) handler_table \<Rightarrow> 'io option" where
  "find_io_service handler_id t = map_find (<) handler_id (handler_io_service t)"

text \<open>The date of a response, formatted once per second; \<open>format_date\<close> is \<^verbatim>\<open>util::http_date\<close>, \<open>now\<close> is \<^verbatim>\<open>time(nullptr)\<close>.\<close>

definition http_date :: "(int \<Rightarrow> string) \<Rightarrow> int \<Rightarrow> int \<times> string \<Rightarrow> string \<times> int \<times> string" where
  "http_date format_date now cache =
     (let cache' = (if now \<noteq> fst cache then (now, format_date now) else cache) in (snd cache', cache'))"

lemma http_date_fresh:
  "snd cache = format_date (fst cache) \<Longrightarrow>
     fst (http_date format_date now cache) = format_date now
     \<and> snd (snd (http_date format_date now cache)) = format_date (fst (snd (http_date format_date now cache)))"
  by (simp add: http_date_def Let_def)

section \<open>Stale numbers\<close>

text \<open>The operations on the table, in any order: handlers are made and destroyed.\<close>

inductive table_step :: "('h, 'io) handler_table \<Rightarrow> ('h, 'io) handler_table \<Rightarrow> bool" where
  table_new: "handler_unique_id t \<noteq> - 1 \<Longrightarrow> table_step t (snd (base_handler_init h io t))"
| table_destroy: "table_step t (base_handler_destroy i t)"

definition table_inv :: "('h, 'io) handler_table \<Rightarrow> bool" where
  "table_inv t \<longleftrightarrow> map_ordered (<) (alive_handlers t) \<and> (\<forall>i. find_handler i t \<noteq> None \<longrightarrow> i < handler_unique_id t)"

lemma less_add_one: "(n :: u64) \<noteq> - 1 \<Longrightarrow> n < n + 1"
  using inc_less_eq_iff [of n "n + 1"] by simp

lemma table_step_inv:
  "table_step t t' \<Longrightarrow> table_inv t \<Longrightarrow> table_inv t' \<and> handler_unique_id t \<le> handler_unique_id t'
    \<and> (\<forall>i. find_handler i t' \<noteq> None \<longrightarrow> find_handler i t \<noteq> None \<or> i = handler_unique_id t)"
proof (induction rule: table_step.induct)
  case (table_new t h io)
  have "handler_unique_id t < handler_unique_id t + 1" by (rule less_add_one [OF table_new.hyps])
  then show ?case using table_new.prems
    by (auto simp: table_inv_def find_handler_def base_handler_init_def Let_def std_map.lookup_update
        lin.map_assign_ordered split: if_splits intro: less_trans)
next
  case (table_destroy t i)
  then show ?case
    by (auto simp: table_inv_def find_handler_def base_handler_destroy_def std_map.lookup_delete lin.map_erase_ordered
        split: if_splits)
qed

lemma table_steps_inv: "table_step\<^sup>*\<^sup>* t t' \<Longrightarrow> table_inv t \<Longrightarrow> table_inv t'"
  by (induction rule: rtranclp_induct) (auto dest: table_step_inv)

lemma table_inv_init: "table_inv handler_table_init"
  by (simp add: table_inv_def handler_table_init_def find_handler_def)

lemma gone_stays_gone:
  assumes "table_inv t" and "table_step\<^sup>*\<^sup>* t t'" and "i < handler_unique_id t" and "find_handler i t = None"
  shows "find_handler i t' = None"
proof -
  from assms(2) assms(1,3,4) have "find_handler i t' = None \<and> table_inv t' \<and> i < handler_unique_id t'"
  proof (induction rule: rtranclp_induct)
    case (step t1 t2)
    then have IH: "find_handler i t1 = None" "table_inv t1" "i < handler_unique_id t1" by simp_all
    from table_step_inv [OF step.hyps(2) IH(2)] IH show ?case by (metis less_le_not_le order_less_le_trans)
  qed simp
  then show ?thesis by simp
qed

lemma table_steps_number: "table_step\<^sup>*\<^sup>* t t' \<Longrightarrow> table_inv t \<Longrightarrow> handler_unique_id t \<le> handler_unique_id t'"
  by (induction rule: rtranclp_induct) (auto dest: table_step_inv table_steps_inv intro: order_trans)

lemma base_handler_init_finds: "table_inv t \<Longrightarrow> base_handler_init h io t = (i, t') \<Longrightarrow> find_handler i t' = Some h"
  by (auto simp: table_inv_def base_handler_init_def find_handler_def Let_def std_map.lookup_update)

lemma base_handler_destroy_erases: "table_inv t \<Longrightarrow> find_handler i (base_handler_destroy i t) = None"
  by (simp add: table_inv_def find_handler_def base_handler_destroy_def std_map.lookup_delete)

section \<open>Properties\<close>

text \<open>C36. The number of a destroyed handler stays dead. A handler made by \<^verbatim>\<open>base_handler\<close> is found under the number it got;
  and when, after any other handlers were made and destroyed, its destructor runs, no handler is found under that number
  any more, whatever handlers the thread makes and destroys from then on. So a response that arrives late from another thread
  never reaches a connection it was not meant for. A thread is taken to make fewer than \<open>2^64\<close> handlers: the counter does not
  wrap.\<close>

theorem stale_handler_not_found:
  assumes "table_step\<^sup>*\<^sup>* handler_table_init t0" and "handler_unique_id t0 \<noteq> - 1"
    and "base_handler_init h io t0 = (i, t1)" and "table_step\<^sup>*\<^sup>* t1 t2"
    and "table_step\<^sup>*\<^sup>* (base_handler_destroy i t2) t'"
  shows "find_handler i t1 = Some h \<and> find_handler i t' = None"
proof -
  have inv0: "table_inv t0" by (rule table_steps_inv [OF assms(1) table_inv_init])
  have t1: "t1 = snd (base_handler_init h io t0)" "i = handler_unique_id t0" "handler_unique_id t1 = handler_unique_id t0 + 1"
    using assms(3) by (auto simp: base_handler_init_def Let_def)
  have inv1: "table_inv t1" using table_step_inv [OF table_new [OF assms(2)] inv0] t1(1) by blast
  have inv2: "table_inv t2" by (rule table_steps_inv [OF assms(4) inv1])
  have "i < handler_unique_id t2"
    using table_steps_number [OF assms(4) inv1] less_add_one [OF assms(2)] t1(2,3) by simp
  then have "i < handler_unique_id (base_handler_destroy i t2)" by (simp add: base_handler_destroy_def)
  moreover have "table_inv (base_handler_destroy i t2)" using table_step_inv [OF table_destroy inv2] by blast
  ultimately have "find_handler i t' = None"
    using gone_stays_gone assms(5) base_handler_destroy_erases [OF inv2] by blast
  then show ?thesis using base_handler_init_finds [OF inv0 assms(3)] by blast
qed

theorem stale_handler_not_found_witness:
  "find_handler 0 (snd (base_handler_init ''b'' () (base_handler_destroy 0 (snd (base_handler_init ''a'' () handler_table_init))))) = None"
proof -
  let ?t0 = "handler_table_init :: (string, unit) handler_table"
  let ?t1 = "snd (base_handler_init ''a'' () ?t0)"
  let ?t2 = "base_handler_destroy 0 ?t1"
  let ?t3 = "snd (base_handler_init ''b'' () ?t2)"
  have "table_step ?t2 ?t3"
    by (rule table_new) (simp add: base_handler_destroy_def base_handler_init_def handler_table_init_def)
  then have "table_step\<^sup>*\<^sup>* ?t2 ?t3" by (rule r_into_rtranclp)
  moreover have "base_handler_init ''a'' () ?t0 = (0, ?t1)" by (simp add: base_handler_init_def handler_table_init_def)
  moreover have "handler_unique_id ?t0 \<noteq> - 1" by (simp add: handler_table_init_def)
  ultimately show ?thesis
    using stale_handler_not_found [of ?t0 "''a''" "()" 0 ?t1 ?t1 ?t3] by blast
qed

end
