(* ===== verification/Http1_Handler.thy ===== *)
theory Http1_Handler
  imports Config_Schema Serve_Mux Base_Handler
begin

text \<open>
  The HTTP/1 protocol handler of a connection (\<^verbatim>\<open>asio_server_http1_handler.cc\<close>, with the callback
  guard and the posted writes of \<^verbatim>\<open>asio_server_base_handler.cc\<close>): the callbacks of the request parser, the
  order in which responses become ready, and the text written to the connection's buffer.

  The parsers \<^verbatim>\<open>llhttp\<close> and \<^verbatim>\<open>http_parser_parse_url\<close> are third-party code: \<open>llhttp_execute\<close> is an argument that
  gives the callbacks a piece of input causes, in order, and the error code; \<open>parse_url\<close> gives the offsets
  and lengths of the parts of a URL. The application behind the multiplexer is the argument \<open>app\<close>, with
  a state of its own. A byte is a \<^typ>\<open>char\<close>.
\<close>

section \<open>The handler\<close>

text \<open>A stream identifier is an \<^verbatim>\<open>int32_t\<close>, the number of requests and the ready identifiers are \<^verbatim>\<open>uint32_t\<close>.
  \<open>h1_posted\<close> counts the calls of \<^verbatim>\<open>initiate_write\<close> that wait in the io service.\<close>

record http1_handler =
  h1_streams :: streams
  h1_request_count :: u32
  h1_schema :: string
  h1_host :: string
  h1_should_keep_alive :: bool
  h1_curr_header_name :: string
  h1_stream_ids_to_respond :: "u32 list"
  h1_inside_callback :: bool
  h1_write_signaled :: bool
  h1_posted :: nat
  h1_writefun :: bool

definition http1_handler_init :: http1_handler where
  "http1_handler_init = \<lparr>h1_streams = [], h1_request_count = 0, h1_schema = [], h1_host = [],
     h1_should_keep_alive = True, h1_curr_header_name = [], h1_stream_ids_to_respond = [],
     h1_inside_callback = False, h1_write_signaled = False, h1_posted = 0, h1_writefun = True\<rparr>"

definition enter_callback :: "http1_handler \<Rightarrow> http1_handler result" where
  "enter_callback h = (if h1_inside_callback h then Inl Assertion else Inr (h\<lparr>h1_inside_callback := True\<rparr>))"

definition leave_callback :: "http1_handler \<Rightarrow> http1_handler result" where
  "leave_callback h = (if h1_inside_callback h then Inr (h\<lparr>h1_inside_callback := False\<rparr>) else Inl Assertion)"

definition should_stop :: "http1_handler \<Rightarrow> bool" where
  "should_stop h \<longleftrightarrow> \<not> h1_should_keep_alive h"

definition signal_write :: "http1_handler \<Rightarrow> http1_handler" where
  "signal_write h =
     (if \<not> h1_inside_callback h \<and> \<not> h1_write_signaled h
      then h\<lparr>h1_write_signaled := True, h1_posted := h1_posted h + 1\<rparr> else h)"

text \<open>Whether the connection's write function is called.\<close>

definition initiate_write :: "http1_handler \<Rightarrow> bool \<times> http1_handler" where
  "initiate_write h = (h1_writefun h, h\<lparr>h1_write_signaled := False\<rparr>)"

definition reset_writefun :: "http1_handler \<Rightarrow> http1_handler" where
  "reset_writefun h = h\<lparr>h1_writefun := False\<rparr>"

definition h1_start_response :: "int \<Rightarrow> http1_handler \<Rightarrow> http1_handler" where
  "h1_start_response stream_id h =
     signal_write (h\<lparr>h1_stream_ids_to_respond :=
       set_insert (<) (word_of_int stream_id) (h1_stream_ids_to_respond h)\<rparr>)"

text \<open>The calls a response makes of its handler; trailers and stream errors are ignored in HTTP/1, and the
  close callback belongs to the application.\<close>

fun exec_call :: "int \<Rightarrow> handler_call \<Rightarrow> http1_handler \<Rightarrow> http1_handler" where
  "exec_call stream_id Start_Response h = h1_start_response stream_id h"
| "exec_call stream_id (Submit_Trailer t) h = h"
| "exec_call stream_id (Stream_Error e) h = h"
| "exec_call stream_id Resume h = signal_write h"
| "exec_call stream_id (Call_On_Close e) h = h"

definition update_stream :: "int \<Rightarrow> server_stream \<Rightarrow> http1_handler \<Rightarrow> http1_handler" where
  "update_stream stream_id s h = h\<lparr>h1_streams := map_assign (<) stream_id s (h1_streams h)\<rparr>"

text \<open>An operation on the response of an open stream, with the calls it makes.\<close>

definition respond :: "int \<Rightarrow> (asio_server_response \<Rightarrow> response_step) \<Rightarrow> http1_handler \<Rightarrow> http1_handler result" where
  "respond stream_id f h =
     (case find_stream stream_id (h1_streams h) of
        None \<Rightarrow> Inl Null_Pointer
      | Some s \<Rightarrow>
          let (r, calls) = f (st_response s)
          in Inr (fold (exec_call stream_id) calls (update_stream stream_id (s\<lparr>st_response := r\<rparr>) h)))"

text \<open>The destructor: the close callbacks of the streams still open.\<close>

definition http1_handler_destroy :: "http1_handler \<Rightarrow> (int \<times> handler_call) list" where
  "http1_handler_destroy h = concat (map (\<lambda>(stream_id, s). map (Pair stream_id)
     (snd (call_on_close NGHTTP2_INTERNAL_ERROR (st_response s)))) (h1_streams h))"

section \<open>Requests\<close>

fun run_action :: "int \<Rightarrow> app_action \<Rightarrow> http1_handler \<Rightarrow> http1_handler result" where
  "run_action stream_id (Answer f) h = respond stream_id (f 0) h"
| "run_action stream_id Close_Stream h = Inr (h\<lparr>h1_streams := close_stream stream_id (h1_streams h)\<rparr>)"
| "run_action stream_id Later h = Inr h"

definition call_on_request ::
    "('cb, 'w) application \<Rightarrow> 'cb serve_mux \<Rightarrow> int \<Rightarrow> server_stream \<Rightarrow> 'w \<times> http1_handler
      \<Rightarrow> ('w \<times> http1_handler) result" where
  "call_on_request app mux stream_id strm wh =
     rbind (mux_handler mux (st_request strm)) (\<lambda>cb.
       let meth = req_method (st_request strm)
       in rbind (case cb of
               App f \<Rightarrow> app f (st_request strm) stream_id (fst wh)
             | Redirect_Handler code uri \<Rightarrow> Inr (Answer (\<lambda>rv. redirect_handler rv code uri meth), fst wh)
             | Status_Handler code \<Rightarrow> Inr (Answer (\<lambda>rv. status_handler rv code meth), fst wh))
            (\<lambda>(act, w). rbind (run_action stream_id act (snd wh)) (\<lambda>h. Inr (w, h))))"

text \<open>The parts of a URL: offset and length, as \<^verbatim>\<open>http_parser_url\<close> has them for each field that is set.\<close>

record url_parts =
  uf_schema :: "(nat \<times> nat) option"
  uf_host :: "(nat \<times> nat) option"
  uf_port :: "nat option"
  uf_path :: "(nat \<times> nat) option"
  uf_query :: "(nat \<times> nat) option"

definition get_uri_field :: "string \<Rightarrow> (nat \<times> nat) option \<Rightarrow> string" where
  "get_uri_field data field = (case field of None \<Rightarrow> [] | Some (off, len) \<Rightarrow> take len (drop off data))"

definition tolower_char :: "char \<Rightarrow> char" where
  "tolower_char c = (if CHR ''A'' \<le> c \<and> c \<le> CHR ''Z'' then char_of (of_char c + 32 :: nat) else c)"

definition current_id :: "http1_handler \<Rightarrow> int" where
  "current_id h = sint (h1_request_count h)"

definition http1_msg_begincb :: "http1_handler \<Rightarrow> http1_handler result" where
  "http1_msg_begincb h =
     (let n = h1_request_count h + 1
      in rbind (create_stream (sint n) (h1_streams h)) (\<lambda>ss. Inr (h\<lparr>h1_request_count := n, h1_streams := ss\<rparr>)))"

text \<open>A callback that changes the request of the current stream, if there is one.\<close>

definition with_current :: "(asio_server_request \<Rightarrow> asio_server_request) \<Rightarrow> http1_handler \<Rightarrow> http1_handler" where
  "with_current f h =
     (case find_stream (current_id h) (h1_streams h) of
        None \<Rightarrow> h
      | Some s \<Rightarrow> update_stream (current_id h) (s\<lparr>st_request := f (st_request s)\<rparr>) h)"

definition http1_hdr_keycb :: "string \<Rightarrow> http1_handler \<Rightarrow> http1_handler" where
  "http1_hdr_keycb data h = h\<lparr>h1_curr_header_name := map tolower_char data\<rparr>"

definition http1_hdr_valcb :: "string \<Rightarrow> http1_handler \<Rightarrow> http1_handler" where
  "http1_hdr_valcb data h =
     with_current (\<lambda>req. req\<lparr>req_header := header_emplace (h1_curr_header_name h)
       \<lparr>hv_value = data, hv_sensitive = True\<rparr> (req_header req)\<rparr>) h"

definition http1_body_cb :: "string \<Rightarrow> http1_handler \<Rightarrow> http1_handler" where
  "http1_body_cb data h = with_current (\<lambda>req. req\<lparr>req_payload := req_payload req @ data\<rparr>) h"

definition url_into :: "url_parts \<Rightarrow> string \<Rightarrow> uri_ref \<Rightarrow> uri_ref" where
  "url_into u data uri =
     (let uri1 = (if uf_schema u \<noteq> None then uri\<lparr>uri_scheme := get_uri_field data (uf_schema u)\<rparr> else uri);
          uri2 = (if uf_host u \<noteq> None
                  then uri1\<lparr>uri_host := get_uri_field data (uf_host u)
                         @ (case uf_port u of None \<Rightarrow> [] | Some p \<Rightarrow> '':'' @ nat_dec p)\<rparr>
                  else uri1);
          raw = (if uf_path u \<noteq> None then get_uri_field data (uf_path u) else ''/'')
                @ (if uf_query u \<noteq> None then ''?'' @ get_uri_field data (uf_query u) else [])
      in uri2\<lparr>uri_raw_path := raw, uri_path := raw\<rparr>)"

definition http1_on_url_cb :: "(string \<Rightarrow> url_parts) \<Rightarrow> string \<Rightarrow> string \<Rightarrow> http1_handler \<Rightarrow> http1_handler" where
  "http1_on_url_cb parse_url meth data h =
     (case find_stream (current_id h) (h1_streams h) of
        None \<Rightarrow> h
      | Some s \<Rightarrow>
          let u = parse_url data;
              uri = url_into u data (req_uri (st_request s));
              h1 = (if uf_schema u \<noteq> None \<and> h1_schema h = [] then h\<lparr>h1_schema := uri_scheme uri\<rparr> else h);
              h2 = (if uf_host u \<noteq> None \<and> h1_host h1 = [] then h1\<lparr>h1_host := uri_host uri\<rparr> else h1)
          in with_current (\<lambda>req. req\<lparr>req_method := meth, req_uri := uri\<rparr>) h2)"

text \<open>The host and the scheme of a request whose URL had none.\<close>

definition complete_uri :: "H2Server_Config_Schema \<Rightarrow> asio_server_request \<Rightarrow> asio_server_request" where
  "complete_uri conf req =
     (let uri = req_uri req;
          uri1 = (if uri_host uri = []
                  then (case map_find (<) ''host'' (req_header req) of
                          Some v \<Rightarrow> uri\<lparr>uri_host := hv_value v\<rparr> | None \<Rightarrow> uri)
                  else uri);
          https = (cert_file conf \<noteq> [] \<and> private_key_file conf \<noteq> []);
          uri2 = (if uri_scheme uri1 = [] then uri1\<lparr>uri_scheme := if https then ''https'' else ''http''\<rparr> else uri1)
      in req\<lparr>req_uri := uri2\<rparr>)"

definition http1_msg_completecb ::
    "('cb, 'w) application \<Rightarrow> 'cb serve_mux \<Rightarrow> H2Server_Config_Schema \<Rightarrow> bool \<Rightarrow> 'w \<times> http1_handler
      \<Rightarrow> ('w \<times> http1_handler) result" where
  "http1_msg_completecb app mux conf keep_alive wh =
     (let h = with_current (complete_uri conf) ((snd wh)\<lparr>h1_should_keep_alive := keep_alive\<rparr>)
      in case find_stream (current_id h) (h1_streams h) of
           None \<Rightarrow> Inr (fst wh, h)
         | Some s \<Rightarrow> call_on_request app mux (current_id h) s (fst wh, h))"

section \<open>Reading\<close>

datatype llhttp_event =
    On_Message_Begin
  | On_Url string string
  | On_Header_Field string
  | On_Header_Value string
  | On_Headers_Complete
  | On_Body string
  | On_Message_Complete bool

fun run_event ::
    "('cb, 'w) application \<Rightarrow> 'cb serve_mux \<Rightarrow> H2Server_Config_Schema \<Rightarrow> (string \<Rightarrow> url_parts) \<Rightarrow> llhttp_event
      \<Rightarrow> 'w \<times> http1_handler \<Rightarrow> ('w \<times> http1_handler) result" where
  "run_event app mux conf parse_url On_Message_Begin (w, h) = rbind (http1_msg_begincb h) (\<lambda>h'. Inr (w, h'))"
| "run_event app mux conf parse_url (On_Url meth data) (w, h) = Inr (w, http1_on_url_cb parse_url meth data h)"
| "run_event app mux conf parse_url (On_Header_Field data) (w, h) = Inr (w, http1_hdr_keycb data h)"
| "run_event app mux conf parse_url (On_Header_Value data) (w, h) = Inr (w, http1_hdr_valcb data h)"
| "run_event app mux conf parse_url On_Headers_Complete (w, h) = Inr (w, h)"
| "run_event app mux conf parse_url (On_Body data) (w, h) = Inr (w, http1_body_cb data h)"
| "run_event app mux conf parse_url (On_Message_Complete keep_alive) (w, h) =
     http1_msg_completecb app mux conf keep_alive (w, h)"

fun run_events ::
    "('cb, 'w) application \<Rightarrow> 'cb serve_mux \<Rightarrow> H2Server_Config_Schema \<Rightarrow> (string \<Rightarrow> url_parts) \<Rightarrow> llhttp_event list
      \<Rightarrow> 'w \<times> http1_handler \<Rightarrow> ('w \<times> http1_handler) result" where
  "run_events app mux conf parse_url [] wh = Inr wh"
| "run_events app mux conf parse_url (e # es) wh =
     rbind (run_event app mux conf parse_url e wh) (run_events app mux conf parse_url es)"

text \<open>\<^verbatim>\<open>HPE_OK\<close> is 0. The result is the return value, the parser afterwards and the states.\<close>

definition on_read ::
    "('p \<Rightarrow> string \<Rightarrow> 'p \<times> llhttp_event list \<times> int) \<Rightarrow> ('cb, 'w) application \<Rightarrow> 'cb serve_mux
      \<Rightarrow> H2Server_Config_Schema \<Rightarrow> (string \<Rightarrow> url_parts) \<Rightarrow> string \<Rightarrow> nat \<Rightarrow> 'p \<Rightarrow> 'w \<times> http1_handler
      \<Rightarrow> (int \<times> 'p \<times> 'w \<times> http1_handler) result" where
  "on_read llhttp_execute app mux conf parse_url buffer len p wh =
     rbind (enter_callback (snd wh)) (\<lambda>h1.
       let (p', events, htperr) = llhttp_execute p (take len buffer)
       in rbind (run_events app mux conf parse_url events (fst wh, h1)) (\<lambda>(w, h2).
            rbind (leave_callback h2) (\<lambda>h3. Inr (if htperr = 0 then 0 else -1, p', w, h3))))"

section \<open>Writing\<close>

text \<open>\<^verbatim>\<open>get_consecutive_stream_ids_to_respond\<close>: the ready streams from the oldest open one on, without a gap.\<close>

fun take_run :: "u32 \<Rightarrow> u32 list \<Rightarrow> u32 list \<times> u32 list" where
  "take_run prev [] = ([], [])"
| "take_run prev (i # ids) =
     (if i - prev = 1 then (let (run, rest) = take_run i ids in (i # run, rest)) else ([], i # ids))"

definition get_consecutive_stream_ids_to_respond :: "http1_handler \<Rightarrow> u32 list \<times> http1_handler" where
  "get_consecutive_stream_ids_to_respond h =
     (case (h1_stream_ids_to_respond h, h1_streams h) of
        (i # ids, (k, s) # ss) \<Rightarrow>
          if i = word_of_int k
          then let (run, rest) = take_run i ids in (i # run, h\<lparr>h1_stream_ids_to_respond := rest\<rparr>)
          else ([], h)
      | _ \<Rightarrow> ([], h))"

text \<open>The buffer with the number of bytes already used. \<^verbatim>\<open>inc_buffer_size\<close> compares the size of the buffer, not
  what is left of it, with what the next item needs.\<close>

type_synonym out_buffer = "string \<times> nat"

definition inc_step :: nat where "inc_step = 16 * 1024"
definition crlf :: string where "crlf = [CHR 0x0D, CHR 0x0A]"

definition inc_buffer_size :: "nat \<Rightarrow> out_buffer \<Rightarrow> out_buffer" where
  "inc_buffer_size required_size ob =
     (if length (fst ob) < required_size
      then (fst ob @ replicate (required_size + inc_step) (CHR 0x00), snd ob) else ob)"

definition copy_n :: "string \<Rightarrow> out_buffer \<Rightarrow> out_buffer result" where
  "copy_n text ob =
     (if snd ob + length text \<le> length (fst ob)
      then Inr (overwrite (fst ob) (snd ob) text, snd ob + length text) else Inl Out_Of_Bounds)"

fun copy_all :: "string list \<Rightarrow> out_buffer \<Rightarrow> out_buffer result" where
  "copy_all [] ob = Inr ob"
| "copy_all (t # ts) ob = rbind (copy_n t ob) (copy_all ts)"

text \<open>An item: room for all its pieces is asked for, then they are copied one after the other.\<close>

definition write_item :: "string list \<Rightarrow> out_buffer \<Rightarrow> out_buffer result" where
  "write_item ts ob = copy_all ts (inc_buffer_size (length (concat ts)) ob)"

definition status_line :: "bool \<Rightarrow> asio_server_response \<Rightarrow> string list" where
  "status_line keep_alive res =
     [if keep_alive then ''HTTP/1.1'' else ''HTTP/1.0'', '' '', nat_dec (rp_status_code res), '' '',
      get_reason_phrase (rp_status_code res), crlf]"

definition length_line :: "asio_server_response \<Rightarrow> string list list" where
  "length_line res =
     (if map_find (<) ''content-length'' (rp_header res) = None \<and> rp_payload_size res \<noteq> 0
      then [[''content-length'', '':'', nat_dec (rp_payload_size res), crlf]] else [])"

definition header_line :: "string \<times> header_value \<Rightarrow> string list" where
  "header_line header = [fst header, '':'', hv_value (snd header), crlf]"

definition head_items :: "bool \<Rightarrow> asio_server_response \<Rightarrow> string list list" where
  "head_items keep_alive res =
     status_line keep_alive res # length_line res @ map header_line (rp_header res) @ [[crlf]]"

fun write_items :: "string list list \<Rightarrow> out_buffer \<Rightarrow> out_buffer result" where
  "write_items [] ob = Inr ob"
| "write_items (ts # tss) ob = rbind (write_item ts ob) (write_items tss)"

text \<open>\<^verbatim>\<open>res.call_read(at, buffer.size() - data_len, &data_flag)\<close> and the sum of its result. The body may be
  read in no piece, in which case the address is not used. The call of \<^verbatim>\<open>submit_trailer\<close> it may make does
  nothing in HTTP/1.\<close>

definition read_at :: "nat \<Rightarrow> out_buffer \<Rightarrow> u32 \<Rightarrow> asio_server_response
    \<Rightarrow> (out_buffer \<times> u32 \<times> asio_server_response) result" where
  "read_at at ob data_flag res =
     (if length (fst ob) < snd ob then Inl Out_Of_Bounds
      else let rd = call_read (length (fst ob) - snd ob) data_flag res
           in if rd_bytes rd \<noteq> [] \<and> length (fst ob) < at + length (rd_bytes rd) then Inl Out_Of_Bounds
              else Inr ((if rd_bytes rd = [] then fst ob else overwrite (fst ob) at (rd_bytes rd),
                         nat ((int (snd ob) + rd_ret rd) mod 2 ^ 64)), rd_flags rd, rd_response rd))"

text \<open>The loop of further reads; the address it passes is \<^verbatim>\<open>&buffer[data_len] + data_len\<close>. \<^term>\<open>None\<close> is a
  loop that never ends.\<close>

partial_function (option) read_loop :: "out_buffer \<Rightarrow> u32 \<Rightarrow> asio_server_response \<Rightarrow> out_buffer result option" where
  "read_loop ob data_flag res =
     (if and data_flag NGHTTP2_DATA_FLAG_EOF \<noteq> 0 then Some (Inr ob)
      else let ob1 = inc_buffer_size inc_step ob
           in case read_at (2 * snd ob1) ob1 data_flag res of
                Inl e \<Rightarrow> Some (Inl e)
              | Inr (ob2, data_flag2, res2) \<Rightarrow> read_loop ob2 data_flag2 res2)"

declare read_loop.simps [code]

definition write_body :: "string \<Rightarrow> asio_server_response \<Rightarrow> out_buffer \<Rightarrow> out_buffer result option" where
  "write_body meth res ob =
     (if expect_response_body_for meth (rp_status_code res) then
        (case read_at (snd ob) ob 0 res of
           Inl e \<Rightarrow> Some (Inl e)
         | Inr (ob1, data_flag, res1) \<Rightarrow>
             if and data_flag (word_of_int NGHTTP2_ERR_DEFERRED) = 0
             then read_loop ob1 data_flag res1 else Some (Inr ob1))
      else Some (Inr ob))"

definition write_response :: "bool \<Rightarrow> server_stream \<Rightarrow> out_buffer \<Rightarrow> out_buffer result option" where
  "write_response keep_alive strm ob =
     (case write_items (head_items keep_alive (st_response strm)) ob of
        Inl e \<Rightarrow> Some (Inl e)
      | Inr ob1 \<Rightarrow> write_body (req_method (st_request strm)) (st_response strm) ob1)"

fun write_streams :: "u32 list \<Rightarrow> out_buffer \<Rightarrow> http1_handler \<Rightarrow> (out_buffer \<times> http1_handler) result option" where
  "write_streams [] ob h = Some (Inr (ob, h))"
| "write_streams (stream_id # stream_ids) ob h =
     (case find_stream (sint stream_id) (h1_streams h) of
        None \<Rightarrow> Some (Inl Null_Pointer)
      | Some strm \<Rightarrow>
          (case write_response (h1_should_keep_alive h) strm ob of
             None \<Rightarrow> None
           | Some (Inl e) \<Rightarrow> Some (Inl e)
           | Some (Inr ob1) \<Rightarrow>
               write_streams stream_ids ob1
                 (h\<lparr>h1_streams := close_stream (sint stream_id) (h1_streams h)\<rparr>)))"

text \<open>The result: the return value, the buffer, its used length and the handler.\<close>

definition on_write :: "string \<Rightarrow> http1_handler \<Rightarrow> (int \<times> string \<times> nat \<times> http1_handler) result option" where
  "on_write buffer h =
     (case enter_callback h of
        Inl e \<Rightarrow> Some (Inl e)
      | Inr h1 \<Rightarrow>
          let (stream_ids, h2) = get_consecutive_stream_ids_to_respond h1
          in case write_streams stream_ids (buffer, 0) h2 of
               None \<Rightarrow> None
             | Some (Inl e) \<Rightarrow> Some (Inl e)
             | Some (Inr (ob, h3)) \<Rightarrow>
                 (case leave_callback h3 of
                    Inl e \<Rightarrow> Some (Inl e)
                  | Inr h4 \<Rightarrow> Some (Inr (0, fst ob, snd ob, h4))))"

section \<open>The text of a response\<close>

definition head_text :: "bool \<Rightarrow> asio_server_response \<Rightarrow> string" where
  "head_text keep_alive res =
     (if keep_alive then ''HTTP/1.1'' else ''HTTP/1.0'') @ '' '' @ nat_dec (rp_status_code res) @ '' ''
     @ get_reason_phrase (rp_status_code res) @ crlf
     @ (if map_find (<) ''content-length'' (rp_header res) = None \<and> rp_payload_size res \<noteq> 0
        then ''content-length:'' @ nat_dec (rp_payload_size res) @ crlf else [])
     @ concat (map (\<lambda>(name, v). name @ '':'' @ hv_value v @ crlf) (rp_header res)) @ crlf"

text \<open>The body of a response that has ended with a string none of which has been read.\<close>

definition body_data :: "asio_server_response \<Rightarrow> string option" where
  "body_data res = (case rp_generator res of
     Some (String_Generator data left) \<Rightarrow> if left = length data then Some data else None | _ \<Rightarrow> None)"

definition response_text :: "bool \<Rightarrow> server_stream \<Rightarrow> string" where
  "response_text keep_alive strm =
     head_text keep_alive (st_response strm)
     @ (if expect_response_body_for (req_method (st_request strm)) (rp_status_code (st_response strm))
        then (case body_data (st_response strm) of Some data \<Rightarrow> data | None \<Rightarrow> []) else [])"

lemma concat_header_lines:
  "concat (concat (map header_line hs)) = concat (map (\<lambda>(name, v). name @ '':'' @ hv_value v @ crlf) hs)"
  by (induction hs) (auto simp: header_line_def)

lemma head_items_text: "concat (concat (head_items keep_alive res)) = head_text keep_alive res"
  by (simp add: head_items_def head_text_def status_line_def length_line_def concat_header_lines)

section \<open>Writers\<close>

text \<open>The contract of a piece of code that writes a text: on a buffer of at least \<open>m\<close> bytes it appends the
  text when there is room for it and runs over the end when there is not.\<close>

definition writes :: "(out_buffer \<Rightarrow> out_buffer result) \<Rightarrow> string \<Rightarrow> nat \<Rightarrow> bool" where
  "writes W text m \<longleftrightarrow> (\<forall>buf used. m \<le> length buf \<longrightarrow> used \<le> length buf \<longrightarrow>
     W (buf, used) = (if used + length text \<le> length buf
                      then Inr (overwrite buf used text, used + length text) else Inl Out_Of_Bounds))"

lemma writes_nothing: "writes Inr [] 0"
  by (simp add: writes_def)

lemma writes_seq:
  assumes "writes W1 t1 m1" and "writes W2 t2 m2"
  shows "writes (\<lambda>ob. rbind (W1 ob) W2) (t1 @ t2) (max m1 m2)"
  unfolding writes_def
proof (intro allI impI)
  fix buf :: string and used
  assume "max m1 m2 \<le> length buf" and u: "used \<le> length buf"
  then have m: "m1 \<le> length buf" "m2 \<le> length buf" by simp_all
  show "rbind (W1 (buf, used)) W2 =
     (if used + length (t1 @ t2) \<le> length buf
      then Inr (overwrite buf used (t1 @ t2), used + length (t1 @ t2)) else Inl Out_Of_Bounds)"
  proof (cases "used + length t1 \<le> length buf")
    case True
    then have "W2 (overwrite buf used t1, used + length t1) =
        (if used + length t1 + length t2 \<le> length buf
         then Inr (overwrite (overwrite buf used t1) (used + length t1) t2, used + length t1 + length t2)
         else Inl Out_Of_Bounds)"
      using assms(2) m unfolding writes_def by simp
    then show ?thesis using assms(1) m u True unfolding writes_def by (simp add: overwrite_overwrite add.assoc)
  next
    case False
    then show ?thesis using assms(1) m u unfolding writes_def by simp
  qed
qed

lemma writes_copy_n: "writes (copy_n t) t 0"
  by (auto simp: writes_def copy_n_def)

lemma writes_copy_all: "writes (copy_all ts) (concat ts) 0"
proof (induction ts)
  case Nil
  then show ?case using writes_nothing by (simp add: writes_def)
next
  case (Cons t ts)
  then show ?case using writes_seq [OF writes_copy_n, of _ _ 0 t] by (simp add: writes_def)
qed

lemma writes_item: "writes (write_item ts) (concat ts) (length (concat ts))"
  using writes_copy_all [of ts] by (simp add: writes_def write_item_def inc_buffer_size_def)

text \<open>The longest item is all \<^verbatim>\<open>inc_buffer_size\<close> ever asks for.\<close>

definition longest_item :: "string list list \<Rightarrow> nat" where
  "longest_item tss = Max (insert 0 (set (map (\<lambda>ts. length (concat ts)) tss)))"

lemma longest_item_Cons: "longest_item (ts # tss) = max (length (concat ts)) (longest_item tss)"
  by (simp add: longest_item_def insert_commute [of 0])

lemma longest_item_le: "longest_item tss \<le> length (concat (concat tss))"
  by (induction tss) (auto simp: longest_item_Cons longest_item_def)

lemma writes_items: "writes (write_items tss) (concat (concat tss)) (longest_item tss)"
proof (induction tss)
  case Nil
  then show ?case using writes_nothing by (simp add: writes_def longest_item_def)
next
  case (Cons ts tss)
  then show ?case using writes_seq [OF writes_item Cons, of ts] by (simp add: writes_def longest_item_Cons)
qed

lemma writesD:
  "writes W text m \<Longrightarrow> m \<le> length buf \<Longrightarrow> used \<le> length buf \<Longrightarrow>
    W (buf, used) = (if used + length text \<le> length buf
      then Inr (overwrite buf used text, used + length text) else Inl Out_Of_Bounds)"
  by (simp add: writes_def)

section \<open>Reading the body\<close>

lemma eof_flags:
  "and (1 :: u32) NGHTTP2_DATA_FLAG_EOF \<noteq> 0" "and (3 :: u32) NGHTTP2_DATA_FLAG_EOF \<noteq> 0"
  "and (0 :: u32) NGHTTP2_DATA_FLAG_EOF = 0"
  "and (1 :: u32) (word_of_int NGHTTP2_ERR_DEFERRED) = 0" "and (3 :: u32) (word_of_int NGHTTP2_ERR_DEFERRED) = 0"
  "and (0 :: u32) (word_of_int NGHTTP2_ERR_DEFERRED) = 0"
  "or (0 :: u32) NGHTTP2_DATA_FLAG_EOF = 1" "or (1 :: u32) NGHTTP2_DATA_FLAG_NO_END_STREAM = 3"
  by (simp_all add: NGHTTP2_DATA_FLAG_EOF_def NGHTTP2_ERR_DEFERRED_def NGHTTP2_DATA_FLAG_NO_END_STREAM_def)

lemma body_dataD: "body_data res = Some data \<Longrightarrow> rp_generator res = Some (String_Generator data (length data))"
  by (auto simp: body_data_def split: option.splits generator.splits if_splits)

lemma call_read_all:
  assumes "rp_generator res = Some (String_Generator data left)" and "left \<le> length data" and "left \<le> len"
  shows "rd_bytes (call_read len 0 res) = drop (length data - left) data"
    and "rd_ret (call_read len 0 res) = int left"
    and "rd_flags (call_read len 0 res) \<in> {1, 3}"
  using assms
  by (simp_all add: call_read_def Let_def send_trailer_def eof_flags NGHTTP2_DATA_FLAG_EOF_def
      NGHTTP2_DATA_FLAG_NO_END_STREAM_def)

lemma call_read_part:
  assumes "rp_generator res = Some (String_Generator data left)" and "left \<le> length data" and "len < left"
  shows "call_read len 0 res = \<lparr>rd_ret = int len, rd_bytes = take len (drop (length data - left) data), rd_flags = 0,
    rd_response = res\<lparr>rp_generator := Some (String_Generator data (left - len))\<rparr>, rd_calls = []\<rparr>"
  using assms by (simp add: call_read_def Let_def eof_flags)

lemma write_body_fits:
  assumes "body_data res = Some data" and "used + length data \<le> length buf" and "length buf < 2 ^ 64"
    and "expect_response_body_for meth (rp_status_code res)"
  shows "write_body meth res (buf, used) = Some (Inr (overwrite buf used data, used + length data))"
proof -
  let ?rd = "call_read (length buf - used) 0 res"
  have g: "rp_generator res = Some (String_Generator data (length data))" by (rule body_dataD [OF assms(1)])
  have rd: "rd_bytes ?rd = data" "rd_ret ?rd = int (length data)" "rd_flags ?rd \<in> {1, 3}"
    using call_read_all [OF g, of "length buf - used"] assms(2) by auto
  have "(int used + int (length data)) mod 2 ^ 64 = int (used + length data)"
    using assms(2,3) by simp
  then have "read_at used (buf, used) 0 res = Inr ((overwrite buf used data, used + length data), rd_flags ?rd, rd_response ?rd)"
    using assms(2) rd by (simp add: read_at_def Let_def del: of_nat_add)
  moreover have "and (rd_flags ?rd) NGHTTP2_DATA_FLAG_EOF \<noteq> 0"
    and "and (rd_flags ?rd) (word_of_int NGHTTP2_ERR_DEFERRED) = 0"
    using rd(3) eof_flags by auto
  ultimately show ?thesis using assms(4) by (simp add: write_body_def read_loop.simps [of _ "rd_flags ?rd"])
qed

text \<open>A body of which some is left when the buffer is full: the next read asks for 0 bytes, and so on.\<close>

definition stuck :: "out_buffer \<Rightarrow> u32 \<Rightarrow> asio_server_response \<Rightarrow> bool" where
  "stuck ob data_flag res \<longleftrightarrow>
     (\<exists>data left. rp_generator res = Some (String_Generator data left) \<and> 0 < left \<and> left \<le> length data)
     \<and> data_flag = 0 \<and> snd ob = length (fst ob) \<and> inc_step \<le> length (fst ob) \<and> length (fst ob) < 2 ^ 64"

lemma stuck_read:
  assumes "stuck ob data_flag res"
  shows "read_at (2 * snd ob) (inc_buffer_size inc_step ob) data_flag res = Inr (ob, 0, res)"
proof -
  from assms obtain data left where g: "rp_generator res = Some (String_Generator data left)"
    and l: "0 < left" "left \<le> length data" and fl: "data_flag = 0" and ob: "snd ob = length (fst ob)"
    and big: "inc_step \<le> length (fst ob)" "length (fst ob) < 2 ^ 64"
    unfolding stuck_def by blast
  have "int (length (fst ob)) mod 2 ^ 64 = int (length (fst ob))" using big(2) by simp
  moreover have "res\<lparr>rp_generator := Some (String_Generator data left)\<rparr> = res" using g by simp
  ultimately show ?thesis
    using call_read_part [OF g l(2) l(1)] ob big fl
    by (simp add: read_at_def inc_buffer_size_def prod_eq_iff)
qed

lemma stuck_never_returns: "stuck ob data_flag res \<Longrightarrow> read_loop ob data_flag res = None"
proof -
  have "\<not> stuck ob data_flag res" if "read_loop ob data_flag res = Some y" for y
  proof (rule read_loop.raw_induct [OF _ that, of "\<lambda>ob data_flag res y. \<not> stuck ob data_flag res"])
    fix loop ob data_flag res y
    assume IH: "\<And>ob data_flag res y. loop ob data_flag res = Some y \<Longrightarrow> \<not> stuck ob data_flag res"
      and body: "(if and data_flag NGHTTP2_DATA_FLAG_EOF \<noteq> 0 then Some (Inr ob)
        else let ob1 = inc_buffer_size inc_step ob
             in case read_at (2 * snd ob1) ob1 data_flag res of
                  Inl e \<Rightarrow> Some (Inl e)
                | Inr (ob2, data_flag2, res2) \<Rightarrow> loop ob2 data_flag2 res2) = Some y"
    show "\<not> stuck ob data_flag res"
    proof
      assume s: "stuck ob data_flag res"
      then have "inc_buffer_size inc_step ob = ob" and "and data_flag NGHTTP2_DATA_FLAG_EOF = 0" and f: "data_flag = 0"
        using eof_flags by (simp_all add: stuck_def inc_buffer_size_def)
      with body stuck_read [OF s] have "loop ob 0 res = Some y" by simp
      with IH s f show False by blast
    qed
  qed
  then show "stuck ob data_flag res \<Longrightarrow> read_loop ob data_flag res = None"
    by (cases "read_loop ob data_flag res") blast+
qed

lemma write_body_hangs:
  assumes "body_data res = Some data" and "used \<le> length buf" and "length buf < used + length data"
    and "inc_step \<le> length buf" and "length buf < 2 ^ 64"
    and "expect_response_body_for meth (rp_status_code res)"
  shows "write_body meth res (buf, used) = None"
proof -
  let ?n = "length buf - used"
  let ?part = "overwrite buf used (take ?n data)"
  let ?res = "res\<lparr>rp_generator := Some (String_Generator data (length data - ?n))\<rparr>"
  have g: "rp_generator res = Some (String_Generator data (length data))" by (rule body_dataD [OF assms(1)])
  have "?n < length data" using assms(2,3) by simp
  then have rd: "call_read ?n 0 res = \<lparr>rd_ret = int ?n, rd_bytes = take ?n data, rd_flags = 0,
      rd_response = ?res, rd_calls = []\<rparr>"
    using call_read_part [OF g] by simp
  have l: "length (take ?n data) = ?n" using assms(2,3) by simp
  have "(int used + int ?n) mod 2 ^ 64 = int (length buf)" using assms(2,5) by simp
  then have "read_at used (buf, used) 0 res = Inr ((?part, length buf), 0, ?res)"
    using assms(2) rd l by (auto simp: read_at_def Let_def)
  moreover have "stuck (?part, length buf) 0 ?res"
    using assms \<open>?n < length data\<close> l by (simp add: stuck_def)
  ultimately show ?thesis using assms(6) stuck_never_returns eof_flags by (simp add: write_body_def)
qed

section \<open>Writing responses\<close>

text \<open>The application has given the response all of its body, or the response has none.\<close>

definition answered :: "server_stream \<Rightarrow> bool" where
  "answered strm \<longleftrightarrow>
     (expect_response_body_for (req_method (st_request strm)) (rp_status_code (st_response strm))
      \<longrightarrow> body_data (st_response strm) \<noteq> None)"

lemma write_head_fits:
  assumes "used + length (head_text k res) \<le> length buf"
  shows "write_items (head_items k res) (buf, used)
    = Inr (overwrite buf used (head_text k res), used + length (head_text k res))"
  using writesD [OF writes_items, of "head_items k res" buf used] longest_item_le [of "head_items k res"] assms
  by (simp add: head_items_text)

lemma write_head_overruns:
  assumes "longest_item (head_items k res) \<le> length buf" and "used \<le> length buf"
    and "length buf < used + length (head_text k res)"
  shows "write_items (head_items k res) (buf, used) = Inl Out_Of_Bounds"
  using writesD [OF writes_items assms(1,2)] assms(3) by (simp add: head_items_text)

lemma write_response_fits:
  assumes "answered strm" and "used + length (response_text k strm) \<le> length buf" and "length buf < 2 ^ 64"
  shows "write_response k strm (buf, used)
    = Some (Inr (overwrite buf used (response_text k strm), used + length (response_text k strm)))"
proof -
  let ?head = "head_text k (st_response strm)"
  have h: "used + length ?head \<le> length buf" using assms(2) by (simp add: response_text_def)
  show ?thesis
  proof (cases "expect_response_body_for (req_method (st_request strm)) (rp_status_code (st_response strm))")
    case True
    with assms(1) obtain data where d: "body_data (st_response strm) = Some data" by (auto simp: answered_def)
    with True assms(2) have t: "response_text k strm = ?head @ data"
      and l: "used + length ?head + length data \<le> length buf"
      by (simp_all add: response_text_def)
    have "write_body (req_method (st_request strm)) (st_response strm)
        (overwrite buf used ?head, used + length ?head)
      = Some (Inr (overwrite buf used (?head @ data), used + length ?head + length data))"
      using write_body_fits [OF d, of "used + length ?head" "overwrite buf used ?head"] l assms(3) True h
      by (simp add: overwrite_overwrite)
    then show ?thesis using h t by (simp add: write_response_def write_head_fits add.assoc)
  next
    case False
    then show ?thesis using h
      by (simp add: write_response_def write_head_fits write_body_def response_text_def)
  qed
qed

definition ready_text :: "http1_handler \<Rightarrow> u32 list \<Rightarrow> string" where
  "ready_text h ids = concat (map (\<lambda>i. response_text (h1_should_keep_alive h)
     (the (find_stream (sint i) (h1_streams h)))) ids)"

definition all_answered :: "http1_handler \<Rightarrow> u32 list \<Rightarrow> bool" where
  "all_answered h ids \<longleftrightarrow> (\<forall>i \<in> set ids. \<exists>s. find_stream (sint i) (h1_streams h) = Some s \<and> answered s)"

definition close_all :: "u32 list \<Rightarrow> http1_handler \<Rightarrow> http1_handler" where
  "close_all ids h = h\<lparr>h1_streams := fold (\<lambda>i. close_stream (sint i)) ids (h1_streams h)\<rparr>"

lemma find_close_stream:
  "find_stream i (close_stream j ss) = (if i = j then None else find_stream i ss)"
  by (simp add: find_stream_def close_stream_def lin.map_find_erase lin.equivalent_key)

lemma close_stream_other:
  assumes "j \<notin> set ids"
  shows "ready_text (h\<lparr>h1_streams := close_stream (sint j) (h1_streams h)\<rparr>) ids = ready_text h ids"
    and "all_answered (h\<lparr>h1_streams := close_stream (sint j) (h1_streams h)\<rparr>) ids \<longleftrightarrow> all_answered h ids"
proof -
  have "sint i \<noteq> sint j" if "i \<in> set ids" for i using that assms signed_word_eqI [of i j] by blast
  then have f: "find_stream (sint i) (close_stream (sint j) (h1_streams h)) = find_stream (sint i) (h1_streams h)"
    if "i \<in> set ids" for i using that by (simp add: find_close_stream)
  then show "ready_text (h\<lparr>h1_streams := close_stream (sint j) (h1_streams h)\<rparr>) ids = ready_text h ids"
    unfolding ready_text_def by (intro arg_cong [where f = concat] map_cong) simp_all
  show "all_answered (h\<lparr>h1_streams := close_stream (sint j) (h1_streams h)\<rparr>) ids \<longleftrightarrow> all_answered h ids"
    using f by (simp add: all_answered_def)
qed

lemma write_streams_fits:
  assumes "distinct ids" and "all_answered h ids" and "used + length (ready_text h ids) \<le> length buf"
    and "length buf < 2 ^ 64"
  shows "write_streams ids (buf, used) h
    = Some (Inr ((overwrite buf used (ready_text h ids), used + length (ready_text h ids)), close_all ids h))"
  using assms
proof (induction ids arbitrary: buf used h)
  case Nil
  then show ?case by (simp add: ready_text_def close_all_def)
next
  case (Cons i ids)
  let ?h = "h\<lparr>h1_streams := close_stream (sint i) (h1_streams h)\<rparr>"
  obtain s where s: "find_stream (sint i) (h1_streams h) = Some s" and a: "answered s"
    using Cons.prems(2) by (auto simp: all_answered_def)
  let ?t = "response_text (h1_should_keep_alive h) s"
  have t: "ready_text h (i # ids) = ?t @ ready_text h ids" using s by (simp add: ready_text_def)
  have i: "i \<notin> set ids" "distinct ids" using Cons.prems(1) by simp_all
  have w: "write_response (h1_should_keep_alive h) s (buf, used) = Some (Inr (overwrite buf used ?t, used + length ?t))"
    using a Cons.prems(3,4) t by (intro write_response_fits) simp_all
  have "all_answered ?h ids" using Cons.prems(2) close_stream_other [OF i(1)] by (simp add: all_answered_def)
  then have "write_streams ids (overwrite buf used ?t, used + length ?t) ?h =
      Some (Inr ((overwrite (overwrite buf used ?t) (used + length ?t) (ready_text h ids),
        used + length ?t + length (ready_text h ids)), close_all ids ?h))"
    using Cons.IH [OF i(2), of ?h "used + length ?t" "overwrite buf used ?t"] Cons.prems(3,4) t close_stream_other(1) [OF i(1)]
    by simp
  then show ?case using s w t Cons.prems(3)
    by (simp add: overwrite_overwrite add.assoc close_all_def)
qed

section \<open>The ready streams\<close>

lemma take_run_split: "take_run prev ids = (run, rest) \<Longrightarrow> ids = run @ rest"
  by (induction prev ids arbitrary: run rest rule: take_run.induct) (auto split: if_splits prod.splits)

lemma take_run_maximal:
  "take_run prev ids = (run, rest) \<Longrightarrow> rest \<noteq> [] \<Longrightarrow> hd rest \<noteq> last (prev # run) + 1"
  by (induction prev ids arbitrary: run rest rule: take_run.induct)
     (auto split: if_splits prod.splits simp: algebra_simps)

lemma take_run_consecutive:
  "take_run prev ids = (run, rest) \<Longrightarrow> j < length run \<Longrightarrow> run ! j = prev + of_nat (Suc j)"
proof (induction prev ids arbitrary: run rest j rule: take_run.induct)
  case (2 prev i ids)
  then obtain run' where r: "i - prev = 1" "take_run i ids = (run', rest)" "run = i # run'"
    by (auto split: if_splits prod.splits)
  then have i: "i = prev + 1" by (simp add: algebra_simps)
  show ?case
  proof (cases j)
    case (Suc j')
    then show ?thesis using "2.IH" [OF r(1,2), of j'] "2.prems"(2) r i by (simp add: algebra_simps)
  qed (use r i in simp)
qed simp

lemma get_consecutive_split:
  assumes "get_consecutive_stream_ids_to_respond h = (ids, h')"
  shows "h1_stream_ids_to_respond h = ids @ h1_stream_ids_to_respond h'"
    and "h' = h\<lparr>h1_stream_ids_to_respond := h1_stream_ids_to_respond h'\<rparr>"
  using assms take_run_split
  by (auto simp: get_consecutive_stream_ids_to_respond_def split: list.splits prod.splits if_splits)

end
