(* ===== verification/Http1_Order.thy ===== *)
theory Http1_Order
  imports Http1_Handler
begin

text \<open>
  The HTTP/1 handler over the life of a connection: a step relation for what can happen between two turns of
  the io service, its invariant, and the properties of the handler (order and text of the responses, what
  becomes of responses that do not fit the buffer, and of requests that arrive in pieces).
\<close>

section \<open>Pipelined requests\<close>

text \<open>What can happen to a handler between two turns of the io service: input is read, the application
  answers or closes a stream, the connection asks for output. A step is labelled with the write it makes, if it makes one: the
  handler before, the buffer it is given, the buffer and the length it gives back, and the handler after. The premise of a
  read bounds the number of requests on the connection, so that the identifiers stay positive.\<close>

type_synonym h1_write = "http1_handler \<times> string \<times> string \<times> nat \<times> http1_handler"

inductive h1_step ::
    "('p \<Rightarrow> string \<Rightarrow> 'p \<times> llhttp_event list \<times> int) \<Rightarrow> ('cb, 'w) application \<Rightarrow> 'cb serve_mux
      \<Rightarrow> H2Server_Config_Schema \<Rightarrow> (string \<Rightarrow> url_parts)
      \<Rightarrow> 'p \<times> 'w \<times> http1_handler \<Rightarrow> h1_write list \<Rightarrow> 'p \<times> 'w \<times> http1_handler \<Rightarrow> bool"
  for llhttp_execute app mux conf parse_url where
  step_read: "on_read llhttp_execute app mux conf parse_url buffer len p (w, h) = Inr (rv, p', w', h') \<Longrightarrow>
     uint (h1_request_count h) + int (length (fst (snd (llhttp_execute p (take len buffer))))) < 2 ^ 31 \<Longrightarrow>
     h1_step llhttp_execute app mux conf parse_url (p, w, h) [] (p', w', h')"
| step_respond: "respond stream_id f h = Inr h' \<Longrightarrow>
     h1_step llhttp_execute app mux conf parse_url (p, w, h) [] (p, w', h')"
| step_close: "h1_step llhttp_execute app mux conf parse_url (p, w, h) []
     (p, w', h\<lparr>h1_streams := close_stream stream_id (h1_streams h)\<rparr>)"
| step_write: "on_write buffer h = Some (Inr (rv, buffer', len, h')) \<Longrightarrow>
     h1_step llhttp_execute app mux conf parse_url (p, w, h) [(h, buffer, buffer', len, h')] (p, w, h')"
| step_initiate: "h1_step llhttp_execute app mux conf parse_url (p, w, h) [] (p, w, snd (initiate_write h))"
| step_reset: "h1_step llhttp_execute app mux conf parse_url (p, w, h) [] (p, w, reset_writefun h)"

inductive h1_run ::
    "('p \<Rightarrow> string \<Rightarrow> 'p \<times> llhttp_event list \<times> int) \<Rightarrow> ('cb, 'w) application \<Rightarrow> 'cb serve_mux
      \<Rightarrow> H2Server_Config_Schema \<Rightarrow> (string \<Rightarrow> url_parts)
      \<Rightarrow> 'p \<times> 'w \<times> http1_handler \<Rightarrow> h1_write list \<Rightarrow> 'p \<times> 'w \<times> http1_handler \<Rightarrow> bool"
  for llhttp_execute app mux conf parse_url where
  h1_stop: "h1_run llhttp_execute app mux conf parse_url s [] s"
| h1_more: "h1_run llhttp_execute app mux conf parse_url s0 made s \<Longrightarrow>
     h1_step llhttp_execute app mux conf parse_url s ws s' \<Longrightarrow>
     h1_run llhttp_execute app mux conf parse_url s0 (made @ ws) s'"

text \<open>What a write has emitted: the output \<open>ob'\<close> is \<open>ob\<close> with the responses of the streams \<open>ids\<close> appended, in this order, each by
  one call of \<open>write_response\<close>; and those streams, no others, are closed.\<close>

inductive wrote :: "bool \<Rightarrow> streams \<Rightarrow> u32 list \<Rightarrow> out_buffer \<Rightarrow> out_buffer \<Rightarrow> bool" for keep_alive ss where
  wrote_none: "wrote keep_alive ss [] ob ob"
| wrote_next: "find_stream (sint i) ss = Some strm \<Longrightarrow> write_response keep_alive strm ob = Some (Inr ob1) \<Longrightarrow>
     wrote keep_alive ss ids ob1 ob' \<Longrightarrow> wrote keep_alive ss (i # ids) ob ob'"

definition emits :: "u32 list \<Rightarrow> h1_write \<Rightarrow> bool" where
  "emits ids write \<longleftrightarrow>
     (case write of (h, buffer, buffer', len, h') \<Rightarrow>
        wrote (h1_should_keep_alive h) (h1_streams h) ids (buffer, 0) (buffer', len)
        \<and> h1_streams h' = filter (\<lambda>p. fst p \<notin> sint ` set ids) (h1_streams h))"

abbreviation open_ids :: "http1_handler \<Rightarrow> int set" where
  "open_ids h \<equiv> fst ` set (h1_streams h)"

text \<open>The invariant: identifiers are positive and at most the number of requests; what has been written is
  in order and older than everything still open.\<close>

definition h1_inv :: "u32 list \<Rightarrow> http1_handler \<Rightarrow> bool" where
  "h1_inv done h \<longleftrightarrow>
     map_ordered (<) (h1_streams h) \<and> set_ordered (<) (h1_stream_ids_to_respond h)
     \<and> uint (h1_request_count h) < 2 ^ 31
     \<and> (\<forall>k \<in> open_ids h. 0 < k \<and> k \<le> uint (h1_request_count h))
     \<and> set_ordered (<) done
     \<and> (\<forall>d \<in> set done. uint d \<le> uint (h1_request_count h) \<and> (\<forall>k \<in> open_ids h. uint d < k))"

text \<open>An operation that opens no stream and keeps the containers ordered.\<close>

definition opens_none :: "http1_handler \<Rightarrow> http1_handler \<Rightarrow> bool" where
  "opens_none h h' \<longleftrightarrow>
     (map_ordered (<) (h1_streams h) \<longrightarrow> map_ordered (<) (h1_streams h'))
     \<and> (set_ordered (<) (h1_stream_ids_to_respond h) \<longrightarrow> set_ordered (<) (h1_stream_ids_to_respond h'))
     \<and> open_ids h' \<subseteq> open_ids h \<and> h1_request_count h' = h1_request_count h"

lemma opens_none_inv:
  assumes "opens_none h h'" and "h1_inv done h"
  shows "h1_inv done h'"
proof -
  have sub: "open_ids h' \<subseteq> open_ids h" and c: "h1_request_count h' = h1_request_count h"
    using assms(1) by (simp_all add: opens_none_def)
  have "0 < k \<and> k \<le> uint (h1_request_count h) \<and> (\<forall>d \<in> set done. uint d < k)" if "k \<in> open_ids h'" for k
    using subsetD [OF sub that] assms(2) unfolding h1_inv_def by blast
  moreover have "\<forall>d \<in> set done. uint d \<le> uint (h1_request_count h)"
    using assms(2) unfolding h1_inv_def by blast
  ultimately show ?thesis using assms c unfolding h1_inv_def opens_none_def by simp
qed

lemma opens_none_refl [simp]: "opens_none h h"
  by (simp add: opens_none_def)

lemma opens_none_trans [trans]: "opens_none h h' \<Longrightarrow> opens_none h' h'' \<Longrightarrow> opens_none h h''"
  unfolding opens_none_def by (intro conjI) (blast, blast, blast, simp)

lemma find_stream_in: "find_stream i ss = Some s \<Longrightarrow> (i, s) \<in> set ss"
  unfolding find_stream_def
  by (induction ss) (auto simp: lin.equivalent_key split: if_splits)

lemma update_stream_opens_none:
  assumes "find_stream i (h1_streams h) = Some s"
  shows "opens_none h (update_stream i s' h)"
proof -
  have "i \<in> set (map fst (h1_streams h))" using find_stream_in [OF assms] by force
  then have "set (map fst (map_assign (<) i s' (h1_streams h))) \<subseteq> set (map fst (h1_streams h))"
    using lin.set_insert_subset [of i "map fst (h1_streams h)"] by (auto simp: lin.map_assign_fst)
  then have "open_ids (update_stream i s' h) \<subseteq> open_ids h" by (simp add: update_stream_def)
  then show ?thesis by (simp add: opens_none_def update_stream_def lin.map_assign_ordered)
qed

lemma close_stream_opens_none: "opens_none h (h\<lparr>h1_streams := close_stream i (h1_streams h)\<rparr>)"
  by (auto simp: opens_none_def close_stream_def lin.map_erase_ordered) (force simp: map_erase_def)

lemma signal_write_opens_none: "opens_none h (signal_write h)"
  by (simp add: opens_none_def signal_write_def)

lemma exec_call_opens_none: "opens_none h (exec_call i c h)"
proof (cases c)
  case Start_Response
  have "opens_none h (h\<lparr>h1_stream_ids_to_respond := set_insert (<) (word_of_int i) (h1_stream_ids_to_respond h)\<rparr>)"
    by (simp add: opens_none_def lin.set_insert_ordered)
  from opens_none_trans [OF this signal_write_opens_none] show ?thesis
    using Start_Response by (simp add: h1_start_response_def)
qed (simp_all add: signal_write_opens_none)

lemma exec_calls_opens_none: "opens_none h (fold (exec_call i) calls h)"
  by (induction calls arbitrary: h) (auto intro: opens_none_trans [OF exec_call_opens_none])

lemma respond_opens_none: "respond i f h = Inr h' \<Longrightarrow> opens_none h h'"
  using exec_calls_opens_none
  by (auto simp: respond_def Let_def split: option.splits prod.splits
      intro: opens_none_trans [OF update_stream_opens_none])

lemma run_action_opens_none: "run_action i act h = Inr h' \<Longrightarrow> opens_none h h'"
  using respond_opens_none close_stream_opens_none by (cases act) auto

lemma with_current_opens_none: "opens_none h (with_current f h)"
  using update_stream_opens_none by (auto simp: with_current_def split: option.splits)

lemma opens_none_field [simp]:
  "opens_none h (h'\<lparr>h1_should_keep_alive := b\<rparr>) = opens_none h h'" "opens_none h (h'\<lparr>h1_schema := x\<rparr>) = opens_none h h'"
  "opens_none h (h'\<lparr>h1_host := x\<rparr>) = opens_none h h'" "opens_none h (h'\<lparr>h1_curr_header_name := x\<rparr>) = opens_none h h'"
  "opens_none h (h'\<lparr>h1_inside_callback := b\<rparr>) = opens_none h h'"
  "opens_none h (h'\<lparr>h1_write_signaled := b\<rparr>) = opens_none h h'" "opens_none h (h'\<lparr>h1_writefun := b\<rparr>) = opens_none h h'"
  by (simp_all add: opens_none_def)

lemma call_on_request_opens_none: "call_on_request app mux i s (w, h) = Inr (w', h') \<Longrightarrow> opens_none h h'"
  by (auto simp: call_on_request_def Let_def case_prod_beta dest: run_action_opens_none)

lemma msg_complete_opens_none:
  assumes "http1_msg_completecb app mux conf k (w, h) = Inr (w', h')"
  shows "opens_none h h'"
proof -
  let ?h = "with_current (complete_uri conf) (h\<lparr>h1_should_keep_alive := k\<rparr>)"
  have "opens_none (h\<lparr>h1_should_keep_alive := k\<rparr>) ?h" by (rule with_current_opens_none)
  then have "opens_none h ?h" by (simp add: opens_none_def)
  moreover have "opens_none ?h h'"
    using assms call_on_request_opens_none
    by (auto simp: http1_msg_completecb_def Let_def split: option.splits)
  ultimately show ?thesis by (rule opens_none_trans)
qed

lemma on_url_opens_none: "opens_none h (http1_on_url_cb pu meth data h)"
proof -
  have "opens_none h h2 \<Longrightarrow> opens_none h (with_current f h2)" for f h2
    by (rule opens_none_trans [OF _ with_current_opens_none])
  then show ?thesis by (simp add: http1_on_url_cb_def Let_def split: option.splits)
qed

lemma run_event_opens_none:
  "run_event app mux conf pu e (w, h) = Inr (w', h') \<Longrightarrow> e \<noteq> On_Message_Begin \<Longrightarrow> opens_none h h'"
  using msg_complete_opens_none on_url_opens_none with_current_opens_none
  by (cases e) (auto simp: http1_hdr_keycb_def http1_hdr_valcb_def http1_body_cb_def)

lemma h1_inv_openD:
  assumes "h1_inv done h" and "k \<in> open_ids h"
  shows "0 < k" and "k \<le> uint (h1_request_count h)" and "k < 2 ^ 31" and "d \<in> set done \<Longrightarrow> uint d < k"
proof -
  show "0 < k" and le: "k \<le> uint (h1_request_count h)" and "d \<in> set done \<Longrightarrow> uint d < k"
    using assms unfolding h1_inv_def by blast+
  have "uint (h1_request_count h) < 2 ^ 31" using assms(1) unfolding h1_inv_def by blast
  with le show "k < 2 ^ 31" by (rule le_less_trans)
qed

lemma h1_inv_doneD: "h1_inv done h \<Longrightarrow> d \<in> set done \<Longrightarrow> uint d \<le> uint (h1_request_count h)"
  unfolding h1_inv_def by blast

lemma h1_invI:
  assumes "map_ordered (<) (h1_streams h)" and "set_ordered (<) (h1_stream_ids_to_respond h)"
    and "uint (h1_request_count h) < 2 ^ 31"
    and "\<And>k. k \<in> open_ids h \<Longrightarrow> 0 < k \<and> k \<le> uint (h1_request_count h)"
    and "set_ordered (<) done"
    and "\<And>d. d \<in> set done \<Longrightarrow> uint d \<le> uint (h1_request_count h)"
    and "\<And>d k. d \<in> set done \<Longrightarrow> k \<in> open_ids h \<Longrightarrow> uint d < k"
  shows "h1_inv done h"
  using assms unfolding h1_inv_def by blast

lemma msg_begin_inv:
  assumes "http1_msg_begincb h = Inr h'" and "h1_inv done h" and "uint (h1_request_count h) + 1 < 2 ^ 31"
  shows "h1_inv done h'" and "uint (h1_request_count h') = uint (h1_request_count h) + 1"
proof -
  let ?n = "h1_request_count h + 1"
  have n: "uint ?n = uint (h1_request_count h) + 1" using assms(3) by (intro uint_Suc) simp
  then have sn: "sint ?n = uint (h1_request_count h) + 1" using assms(3) by (subst sint_eq_uint) simp_all
  have h': "h' = h\<lparr>h1_request_count := ?n, h1_streams := map_insert (<) (sint ?n) asio_server_stream_init (h1_streams h)\<rparr>"
    using assms(1) by (auto simp: http1_msg_begincb_def create_stream_def Let_def split: if_splits)
  then show "uint (h1_request_count h') = uint (h1_request_count h) + 1" using n by simp
  have lt: "\<forall>p \<in> set (h1_streams h). fst p < sint ?n"
  proof
    fix p assume "p \<in> set (h1_streams h)"
    then have "fst p \<in> open_ids h" by (rule imageI)
    then show "fst p < sint ?n" using h1_inv_openD(2) [OF assms(2)] sn by fastforce
  qed
  have ids: "open_ids h' = insert (sint ?n) (open_ids h)"
    using h' lin.map_insert_append [OF lt] by simp
  have c: "h1_request_count h' = ?n" using h' by simp
  show "h1_inv done h'"
  proof (rule h1_invI)
    show "map_ordered (<) (h1_streams h')" "set_ordered (<) (h1_stream_ids_to_respond h')" "set_ordered (<) done"
      using assms(2) h' by (simp_all add: h1_inv_def lin.map_insert_ordered)
    show "uint (h1_request_count h') < 2 ^ 31" using assms(3) n c by simp
    show "0 < k \<and> k \<le> uint (h1_request_count h')" if "k \<in> open_ids h'" for k
    proof (cases "k \<in> open_ids h")
      case True
      then show ?thesis using h1_inv_openD(1,2) [OF assms(2) True] n c by simp
    next
      case False
      then show ?thesis using that ids sn n c uint_ge_0 [of "h1_request_count h"] by simp
    qed
    show d: "uint d \<le> uint (h1_request_count h')" if "d \<in> set done" for d
      using h1_inv_doneD [OF assms(2) that] n c by simp
    show "uint d < k" if "d \<in> set done" and "k \<in> open_ids h'" for d k
      using that ids h1_inv_openD(4) [OF assms(2), of k d] h1_inv_doneD [OF assms(2), of d] sn by auto
  qed
qed

lemma run_events_inv:
  "run_events app mux conf pu es (w, h) = Inr (w', h') \<Longrightarrow> h1_inv done h \<Longrightarrow>
    uint (h1_request_count h) + int (length es) < 2 ^ 31 \<Longrightarrow> h1_inv done h'"
proof (induction es arbitrary: w h)
  case (Cons e es)
  obtain w1 h1 where e: "run_event app mux conf pu e (w, h) = Inr (w1, h1)"
    and es: "run_events app mux conf pu es (w1, h1) = Inr (w', h')"
    using Cons.prems(1) by (auto simp: rbind_Inr_iff)
  show ?case
  proof (cases "e = On_Message_Begin")
    case True
    then have "http1_msg_begincb h = Inr h1" using e by auto
    then have "h1_inv done h1" "uint (h1_request_count h1) = uint (h1_request_count h) + 1"
      using Cons.prems by (auto intro: msg_begin_inv)
    then show ?thesis using Cons.IH [OF es] Cons.prems(3) by simp
  next
    case False
    then have o: "opens_none h h1" by (rule run_event_opens_none [OF e])
    then have "h1_request_count h1 = h1_request_count h" by (simp add: opens_none_def)
    then show ?thesis using Cons.IH [OF es opens_none_inv [OF o Cons.prems(2)]] Cons.prems(3) by simp
  qed
qed simp

lemma on_read_inv:
  assumes "on_read E app mux conf pu buffer len p (w, h) = Inr (rv, p', w', h')" and "h1_inv done h"
    and "uint (h1_request_count h) + int (length (fst (snd (E p (take len buffer))))) < 2 ^ 31"
  shows "h1_inv done h'"
proof -
  obtain q es err where E: "E p (take len buffer) = (q, es, err)" by (cases "E p (take len buffer)") auto
  then obtain h2 where r: "run_events app mux conf pu es (w, h\<lparr>h1_inside_callback := True\<rparr>) = Inr (w', h2)"
    and l: "leave_callback h2 = Inr h'"
    using assms(1) by (auto simp: on_read_def enter_callback_def split: if_splits)
  have "h1_inv done (h\<lparr>h1_inside_callback := True\<rparr>)" by (rule opens_none_inv [OF _ assms(2)]) simp
  then have "h1_inv done h2" using run_events_inv [OF r] assms(3) E by simp
  moreover have "opens_none h2 h'" using l by (auto simp: leave_callback_def split: if_splits)
  ultimately show ?thesis using opens_none_inv by blast
qed

lemma write_streams_closes:
  "write_streams ids ob h = Some (Inr (ob', h')) \<Longrightarrow>
     h' = close_all ids h \<and> (\<forall>i \<in> set ids. sint i \<in> open_ids h)"
proof (induction ids arbitrary: ob h)
  case Nil
  then show ?case by (simp add: close_all_def)
next
  case (Cons i ids)
  let ?h = "h\<lparr>h1_streams := close_stream (sint i) (h1_streams h)\<rparr>"
  obtain s ob1 where s: "find_stream (sint i) (h1_streams h) = Some s"
    and w: "write_streams ids ob1 ?h = Some (Inr (ob', h'))"
    using Cons.prems by (auto split: option.splits sum.splits)
  have "sint i \<in> open_ids h" using find_stream_in [OF s] by force
  moreover have "open_ids ?h \<subseteq> open_ids h" using close_stream_opens_none [of h "sint i"] by (simp add: opens_none_def)
  ultimately show ?case using Cons.IH [OF w] by (auto simp: close_all_def)
qed

lemma wrote_cong:
  "wrote k ss ids ob ob' \<Longrightarrow> (\<forall>i \<in> set ids. find_stream (sint i) ss' = find_stream (sint i) ss) \<Longrightarrow> wrote k ss' ids ob ob'"
  by (induction rule: wrote.induct) (auto intro: wrote.intros)

text \<open>The streams are closed while the others are still to be written; closing one does not touch the rest.\<close>

lemma write_streams_wrote:
  "write_streams ids ob h = Some (Inr (ob', h')) \<Longrightarrow> distinct ids \<Longrightarrow>
     wrote (h1_should_keep_alive h) (h1_streams h) ids ob ob'"
proof (induction ids arbitrary: ob h)
  case Nil
  then show ?case by (simp add: wrote_none)
next
  case (Cons i ids)
  let ?h = "h\<lparr>h1_streams := close_stream (sint i) (h1_streams h)\<rparr>"
  obtain s ob1 where s: "find_stream (sint i) (h1_streams h) = Some s"
    and r: "write_response (h1_should_keep_alive h) s ob = Some (Inr ob1)"
    and w: "write_streams ids ob1 ?h = Some (Inr (ob', h'))"
    using Cons.prems(1) by (auto split: option.splits sum.splits)
  have ne: "sint i \<noteq> sint j" if "j \<in> set ids" for j using that Cons.prems(2) signed_word_eqI [of i j] by auto
  have rest: "wrote (h1_should_keep_alive h) (h1_streams h) ids ob1 ob'"
  proof (rule wrote_cong)
    show "wrote (h1_should_keep_alive h) (h1_streams ?h) ids ob1 ob'" using Cons.IH [OF w] Cons.prems(2) by simp
    show "\<forall>j \<in> set ids. find_stream (sint j) (h1_streams h) = find_stream (sint j) (h1_streams ?h)"
      using ne by (simp add: find_close_stream not_sym)
  qed
  show ?case by (rule wrote_next [OF s r rest])
qed

lemma fold_close_filter: "fold (\<lambda>i. close_stream (sint i)) ids ss = filter (\<lambda>p. fst p \<notin> sint ` set ids) ss"
  by (induction ids arbitrary: ss)
     (auto simp: close_stream_def map_erase_def lin.equivalent_key intro!: filter_cong)

lemma open_ids_close_all: "open_ids (close_all ids h) = open_ids h - sint ` set ids"
proof (induction ids arbitrary: h)
  case Nil
  then show ?case by (simp add: close_all_def)
next
  case (Cons i ids)
  have "close_all (i # ids) h = close_all ids (h\<lparr>h1_streams := close_stream (sint i) (h1_streams h)\<rparr>)"
    by (simp add: close_all_def)
  moreover have "fst ` set (close_stream (sint i) (h1_streams h)) = open_ids h - {sint i}"
    by (force simp: close_stream_def map_erase_def lin.equivalent_key)
  ultimately show ?case using Cons by auto
qed

lemma close_all_opens_none: "opens_none h (close_all ids h)"
proof (induction ids arbitrary: h)
  case Nil
  then show ?case by (simp add: close_all_def)
next
  case (Cons i ids)
  have "close_all (i # ids) h = close_all ids (h\<lparr>h1_streams := close_stream (sint i) (h1_streams h)\<rparr>)"
    by (simp add: close_all_def)
  then show ?case using opens_none_trans [OF close_stream_opens_none Cons] by simp
qed

text \<open>The run that is written: successive numbers from the oldest open stream on.\<close>

lemma consecutive_uint:
  assumes "get_consecutive_stream_ids_to_respond h = (ids, h')" and "h1_inv done h"
    and "\<forall>i \<in> set ids. sint i \<in> open_ids h" and "j < length ids"
  shows "uint (ids ! j) = fst (hd (h1_streams h)) + int j" and "h1_streams h \<noteq> []"
proof -
  obtain i is' k st ss where c: "h1_stream_ids_to_respond h = i # is'" "h1_streams h = (k, st) # ss" "i = word_of_int k"
    using assms(1,4)
    by (auto simp: get_consecutive_stream_ids_to_respond_def split: list.splits prod.splits if_splits)
  obtain run rest where tr: "take_run i is' = (run, rest)" by (cases "take_run i is'")
  have ids: "ids = i # run" and i: "i = word_of_int (fst (hd (h1_streams h)))" and ne: "h1_streams h \<noteq> []"
    using assms(1) c tr by (simp_all add: get_consecutive_stream_ids_to_respond_def)
  note run = take_run_consecutive [OF tr]
  have b: "uint (ids ! j) < 2 ^ 31" if "j < length ids" for j
  proof -
    have o: "sint (ids ! j) \<in> open_ids h" using assms(3) nth_mem [OF that] by blast
    show ?thesis using h1_inv_openD(1,3) [OF assms(2) o] uint_eq_sint [of "ids ! j"] by simp
  qed
  have nth: "ids ! j = i + of_nat j" if "j < length ids" for j
    using that ids run [of "j - 1"] by (cases j) simp_all
  have "fst (hd (h1_streams h)) \<in> open_ids h" using ne by simp
  then have k: "0 < fst (hd (h1_streams h)) \<and> fst (hd (h1_streams h)) < 2 ^ 31"
    using h1_inv_openD(1,3) [OF assms(2)] by blast
  have "uint (ids ! j) = fst (hd (h1_streams h)) + int j" if "j < length ids" for j
    using that
  proof (induction j)
    case 0
    then show ?case using ids i k by (simp add: unsigned_of_int take_bit_int_eq_self)
  next
    case (Suc j)
    then have "ids ! Suc j = ids ! j + 1" using nth [of j] nth [of "Suc j"] by (simp add: ac_simps)
    then show ?case using Suc b [of j] uint_Suc [of "ids ! j"] by simp
  qed
  with assms(4) show "uint (ids ! j) = fst (hd (h1_streams h)) + int j" by blast
  show "h1_streams h \<noteq> []" by (rule ne)
qed

lemma oldest_open:
  assumes "map_ordered (<) (h1_streams h)" and "k \<in> open_ids h"
  shows "fst (hd (h1_streams h)) \<le> k"
  using assms by (cases "h1_streams h") force+

lemma written_before_open:
  assumes "get_consecutive_stream_ids_to_respond h = (ids, h')" and "h1_inv done h"
    and "\<forall>i \<in> set ids. sint i \<in> open_ids h" and "d \<in> set ids" and "k \<in> open_ids h - sint ` set ids"
  shows "uint d < k"
proof (rule ccontr)
  assume "\<not> uint d < k"
  obtain j where j: "j < length ids" "d = ids ! j" using assms(4) by (auto simp: in_set_conv_nth)
  note U = consecutive_uint [OF assms(1-3)]
  let ?k0 = "fst (hd (h1_streams h))"
  have "?k0 \<le> k" using oldest_open [of h k] assms(2,5) by (simp add: h1_inv_def)
  moreover have "k \<le> ?k0 + int j" using \<open>\<not> uint d < k\<close> U(1) [OF j(1)] j(2) by simp
  ultimately have m: "nat (k - ?k0) < length ids" and "k = ?k0 + int (nat (k - ?k0))" using j(1) by simp_all
  then have "uint (ids ! nat (k - ?k0)) = k" using U(1) [OF m] by simp
  moreover have "0 < sint (ids ! nat (k - ?k0))"
    using assms(3) nth_mem [OF m] h1_inv_openD(1) [OF assms(2)] by blast
  ultimately have "sint (ids ! nat (k - ?k0)) = k" using uint_eq_sint by metis
  then have "k \<in> sint ` set ids" using nth_mem [OF m] by (metis imageI)
  with assms(5) show False by blast
qed

lemma get_consecutive_inside:
  "get_consecutive_stream_ids_to_respond (h\<lparr>h1_inside_callback := b\<rparr>)
    = (let (ids, h') = get_consecutive_stream_ids_to_respond h in (ids, h'\<lparr>h1_inside_callback := b\<rparr>))"
  by (auto simp: get_consecutive_stream_ids_to_respond_def split: list.splits prod.splits)

lemma on_write_returns:
  assumes "on_write buffer h = Some (Inr (rv, buffer', len, h'))"
  obtains ids h1 where "get_consecutive_stream_ids_to_respond h = (ids, h1)"
    and "h' = close_all ids h1" and "\<forall>i \<in> set ids. sint i \<in> open_ids h"
    and "\<not> h1_inside_callback h" and "rv = 0"
    and "distinct ids \<longrightarrow> emits ids (h, buffer, buffer', len, h')"
proof -
  obtain ids h1 where g: "get_consecutive_stream_ids_to_respond h = (ids, h1)"
    by (cases "get_consecutive_stream_ids_to_respond h")
  have c: "\<not> h1_inside_callback h" using assms by (auto simp: on_write_def enter_callback_def)
  let ?h2 = "h1\<lparr>h1_inside_callback := True\<rparr>"
  have f: "h1_streams h1 = h1_streams h" "h1_inside_callback h1 = h1_inside_callback h"
      "h1_should_keep_alive h1 = h1_should_keep_alive h"
    by (subst get_consecutive_split(2) [OF g], simp)+
  obtain h3 where w: "write_streams ids (buffer, 0) ?h2 = Some (Inr ((buffer', len), h3))"
    and l: "leave_callback h3 = Inr h'" "rv = 0"
    using assms g c
    by (auto simp: on_write_def enter_callback_def get_consecutive_inside Let_def split: option.splits sum.splits)
  have h3: "h3 = close_all ids ?h2" and o: "\<forall>i \<in> set ids. sint i \<in> open_ids ?h2"
    using write_streams_closes [OF w] by simp_all
  have "h' = close_all ids h1" using l h3 f(2) c by (auto simp: leave_callback_def close_all_def split: if_splits)
  moreover have "\<forall>i \<in> set ids. sint i \<in> open_ids h" using o f by simp
  moreover have "distinct ids \<longrightarrow> emits ids (h, buffer, buffer', len, h')"
    using write_streams_wrote [OF w] \<open>h' = close_all ids h1\<close> f by (simp add: emits_def close_all_def fold_close_filter)
  ultimately show ?thesis using that g c l(2) by blast
qed

lemma on_write_inv:
  assumes "on_write buffer h = Some (Inr (rv, buffer', len, h'))" and inv: "h1_inv done h"
  shows "\<exists>ids. emits ids (h, buffer, buffer', len, h') \<and> h1_inv (done @ ids) h'"
proof -
  obtain ids h1 where g: "get_consecutive_stream_ids_to_respond h = (ids, h1)"
    and h': "h' = close_all ids h1" and o: "\<forall>i \<in> set ids. sint i \<in> open_ids h"
    and e: "distinct ids \<longrightarrow> emits ids (h, buffer, buffer', len, h')"
    by (rule on_write_returns [OF assms(1)]) blast
  note S = get_consecutive_split [OF g]
  have ord: "set_ordered (<) (ids @ h1_stream_ids_to_respond h1)" using inv S(1) by (simp add: h1_inv_def)
  have f: "h1_streams h1 = h1_streams h" "h1_request_count h1 = h1_request_count h"
    by (subst S(2), simp)+
  have oi: "open_ids h' = open_ids h - sint ` set ids" using h' f by (simp add: open_ids_close_all)
  have cnt: "h1_request_count h' = h1_request_count h" "h1_stream_ids_to_respond h' = h1_stream_ids_to_respond h1"
    using h' f by (simp_all add: close_all_def)
  have u: "uint i = sint i \<and> sint i \<le> uint (h1_request_count h)" if "i \<in> set ids" for i
    using h1_inv_openD(1,2) [OF inv, of "sint i"] o that uint_eq_sint [of i] by blast
  have "h1_inv (done @ ids) h'"
  proof (rule h1_invI)
    show "map_ordered (<) (h1_streams h')"
      using close_all_opens_none [of h1 ids] h' f inv by (simp add: opens_none_def h1_inv_def)
    show "set_ordered (<) (h1_stream_ids_to_respond h')" using ord cnt by (simp add: sorted_wrt_append)
    show "uint (h1_request_count h') < 2 ^ 31" using inv cnt by (simp add: h1_inv_def)
    show "0 < k \<and> k \<le> uint (h1_request_count h')" if "k \<in> open_ids h'" for k
      using that oi h1_inv_openD(1,2) [OF inv, of k] cnt by simp
    have "d < i" if "d \<in> set done" and "i \<in> set ids" for d i
      using h1_inv_openD(4) [OF inv _ that(1), of "sint i"] o u [OF that(2)] that(2) by (simp add: word_less_def)
    then show "set_ordered (<) (done @ ids)" using inv ord by (simp add: sorted_wrt_append h1_inv_def)
    show "uint d \<le> uint (h1_request_count h')" if "d \<in> set (done @ ids)" for d
      using that u [of d] h1_inv_doneD [OF inv, of d] cnt by auto
    show "uint d < k" if "d \<in> set (done @ ids)" and "k \<in> open_ids h'" for d k
      using that oi h1_inv_openD(4) [OF inv, of k d] written_before_open [OF g inv o, of d k] by auto
  qed
  moreover have "distinct ids" using ord by (simp add: strict_sorted_iff)
  ultimately show ?thesis using e by blast
qed

lemma h1_step_inv:
  "h1_step E app mux conf pu s ws s' \<Longrightarrow> h1_inv done (snd (snd s)) \<Longrightarrow>
     \<exists>written. list_all2 emits written ws \<and> h1_inv (done @ concat written) (snd (snd s'))"
proof (induction rule: h1_step.induct)
  case (step_read buffer len p w h rv p' w' h')
  then show ?case using on_read_inv by simp
next
  case (step_respond stream_id f h h' p w w')
  then show ?case using respond_opens_none opens_none_inv by simp blast
next
  case (step_close p w h w' stream_id)
  then show ?case using close_stream_opens_none opens_none_inv by simp blast
next
  case (step_write buffer h rv buffer' len h' p w)
  have "h1_inv done h" using step_write.prems by simp
  then obtain ids where "emits ids (h, buffer, buffer', len, h')" "h1_inv (done @ ids) h'"
    using on_write_inv [OF step_write.hyps] by blast
  then show ?case by (intro exI [of _ "[ids]"]) simp
next
  case (step_initiate p w h)
  then show ?case using opens_none_inv [of h "snd (initiate_write h)"] by (simp add: initiate_write_def)
next
  case (step_reset p w h)
  then show ?case using opens_none_inv [of h "reset_writefun h"] by (simp add: reset_writefun_def)
qed

lemma h1_run_inv:
  "h1_run E app mux conf pu s ws s' \<Longrightarrow> h1_inv [] (snd (snd s)) \<Longrightarrow>
     \<exists>written. list_all2 emits written ws \<and> h1_inv (concat written) (snd (snd s'))"
proof (induction rule: h1_run.induct)
  case (h1_stop s)
  then show ?case by (intro exI [of _ "[]"]) simp
next
  case (h1_more s0 made s ws s')
  then obtain written where w: "list_all2 emits written made" "h1_inv (concat written) (snd (snd s))" by blast
  from h1_step_inv [OF h1_more.hyps(2) w(2)] obtain more where
    "list_all2 emits more ws" "h1_inv (concat written @ concat more) (snd (snd s'))" by blast
  then show ?case using w(1) by (intro exI [of _ "written @ more"]) (simp add: list_all2_appendI)
qed

lemma h1_inv_init: "h1_inv [] http1_handler_init"
  by (simp add: h1_inv_def http1_handler_init_def)

section \<open>Properties\<close>

text \<open>C18. Pipelined responses come back in the order of their requests. However reads, answers of the
  application (in any order, at any time), closed streams and writes interleave on a connection that sees fewer than \<open>2^31\<close>
  requests, every write that returns has put into its buffer, one after the other, the responses of some streams and has
  closed these and no others; over all writes together the numbers of these streams increase, so each request is answered at most
  once and after those before it; and no stream still open is older than one already answered.\<close>

theorem http1_responses_in_order:
  assumes "h1_run llhttp_execute app mux conf parse_url (p, w, http1_handler_init) made (p', w', h)"
  shows "\<exists>written. list_all2 emits written made \<and> sorted_wrt (<) (concat written)
    \<and> (\<forall>d \<in> set (concat written). d \<le> h1_request_count h \<and> (\<forall>k \<in> fst ` set (h1_streams h). uint d < k))"
proof -
  from h1_run_inv [OF assms] h1_inv_init obtain written where
    "list_all2 emits written made" "h1_inv (concat written) h" by auto
  then show ?thesis unfolding h1_inv_def by (auto simp only: word_le_def)
qed

text \<open>Two requests for the root read together; the application answers the second one first.\<close>

definition two_requests :: "unit \<Rightarrow> string \<Rightarrow> unit \<times> llhttp_event list \<times> int" where
  "two_requests p input = ((), [On_Message_Begin, On_Url ''GET'' input, On_Message_Complete True,
     On_Message_Begin, On_Url ''GET'' input, On_Message_Complete True], 0)"

definition whole_path :: "string \<Rightarrow> url_parts" where
  "whole_path data = \<lparr>uf_schema = None, uf_host = None, uf_port = None, uf_path = Some (0, length data), uf_query = None\<rparr>"

definition answers_later :: "(unit, unit) application" where
  "answers_later = (\<lambda>cb req stream_id w. Inr (Later, w))"

abbreviation sample_mux :: "unit serve_mux" where
  "sample_mux \<equiv> snd (handle ''/'' (Some ()) [])"

abbreviation sample_conf :: H2Server_Config_Schema where
  "sample_conf \<equiv> H2Server_Config_Schema_init 0 0"

definition sample_read :: "(int \<times> unit \<times> unit \<times> http1_handler) result" where
  "sample_read = on_read two_requests answers_later sample_mux sample_conf whole_path ''/'' 1 () ((), http1_handler_init)"

definition hello :: "asio_server_response \<Rightarrow> response_step" where
  "hello r = then_do (write_head 0 ''GET'' 200 [] r) (end_string 0 ''GET'' ''hello'')"

definition sample_answered :: "int list \<Rightarrow> http1_handler" where
  "sample_answered ids = fold (\<lambda>i h. projr (respond i hello h)) ids (snd (snd (snd (projr sample_read))))"

definition sample_buffer :: string where
  "sample_buffer = replicate 100 (CHR ''.'')"

definition sample_write :: "(int \<times> string \<times> nat \<times> http1_handler) result option" where
  "sample_write = on_write sample_buffer (sample_answered [2, 1])"

lemma sample_answered_steps:
  "\<not> isl sample_read" "\<not> isl (respond 2 hello (sample_answered []))" "\<not> isl (respond 1 hello (sample_answered [2]))"
  by code_simp+

lemma sample_write_step: "sample_write \<noteq> None" "\<not> isl (the sample_write)"
  by code_simp+

lemma not_isl_projr: "\<not> isl r \<Longrightarrow> r = Inr (projr r)"
  by (cases r) simp_all

theorem http1_responses_in_order_witness:
  "\<exists>write h. h1_run two_requests answers_later sample_mux sample_conf whole_path ((), (), http1_handler_init) [write] ((), (), h)
    \<and> (\<exists>ids. emits ids write \<and> sorted_wrt (<) ids \<and> (\<forall>d \<in> set ids. d \<le> h1_request_count h))"
proof -
  let ?h0 = "sample_answered []" and ?h1 = "sample_answered [2]" and ?h2 = "sample_answered [2, 1]"
  let ?run = "h1_run two_requests answers_later sample_mux sample_conf whole_path ((), (), http1_handler_init)"
  obtain rv where "sample_read = Inr (rv, (), (), ?h0)"
    using not_isl_projr [OF sample_answered_steps(1)] by (cases "projr sample_read") (simp add: sample_answered_def)
  then have "h1_step two_requests answers_later sample_mux sample_conf whole_path ((), (), http1_handler_init) [] ((), (), ?h0)"
    unfolding sample_read_def by (rule step_read) (simp add: two_requests_def http1_handler_init_def)
  then have "?run ([] @ []) ((), (), ?h0)" by (rule h1_more [OF h1_stop])
  moreover have "respond 2 hello ?h0 = Inr ?h1" and "respond 1 hello ?h1 = Inr ?h2"
    using sample_answered_steps(2,3) by (simp_all add: sample_answered_def not_isl_projr)
  ultimately have "?run (([] @ []) @ [] @ []) ((), (), ?h2)" by (metis append_Nil h1_more step_respond)
  moreover obtain rv b len h where w: "on_write sample_buffer ?h2 = Some (Inr (rv, b, len, h))"
    using sample_write_step not_isl_projr [OF sample_write_step(2)] unfolding sample_write_def
    by (metis option.collapse prod_cases4)
  ultimately have r: "?run [(?h2, sample_buffer, b, len, h)] ((), (), h)" by (metis append_Nil h1_more step_write)
  from r http1_responses_in_order [OF r] show ?thesis
    by (intro exI [of _ "(?h2, sample_buffer, b, len, h)"] exI [of _ h]) (auto simp: list_all2_Cons2)
qed

lemma next_not_ready:
  assumes "get_consecutive_stream_ids_to_respond h = (ids, h')" and "ids \<noteq> []"
    and "set_ordered (<) (h1_stream_ids_to_respond h)"
  shows "last ids + 1 \<notin> set (h1_stream_ids_to_respond h')"
proof
  assume m: "last ids + 1 \<in> set (h1_stream_ids_to_respond h')"
  let ?rest = "h1_stream_ids_to_respond h'"
  obtain i is' run where c: "h1_stream_ids_to_respond h = i # is'" and t: "take_run i is' = (run, ?rest)" "ids = i # run"
    using assms(1,2)
    by (auto simp: get_consecutive_stream_ids_to_respond_def split: list.splits prod.splits if_splits)
  have o: "set_ordered (<) (ids @ ?rest)" using assms(3) get_consecutive_split(1) [OF assms(1)] by simp
  have ne: "?rest \<noteq> []" using m by auto
  then have "last ids < hd ?rest" using o assms(2) by (simp add: sorted_wrt_append)
  then have "last ids + 1 \<le> hd ?rest" by (rule inc_le)
  moreover have "hd ?rest \<le> last ids + 1" using o m ne by (cases ?rest) (auto simp: sorted_wrt_append)
  ultimately have "hd ?rest = last ids + 1" by simp
  moreover have "hd ?rest \<noteq> last ids + 1" using take_run_maximal [OF t(1) ne] t(2) by simp
  ultimately show False by contradiction
qed

text \<open>C19. One write takes every response that may be sent. When the ready streams at the front of the
  connection have been given their bodies and their responses fit the buffer, \<^verbatim>\<open>on_write\<close> returns, the
  buffer holds exactly the responses one after the other (status line, header fields, empty line, body),
  its length is reported, their streams are closed and no other, and the next request's response is not
  among those left ready.\<close>

theorem http1_writes_ready_responses:
  assumes "\<not> h1_inside_callback h" and "sorted_wrt (<) (h1_stream_ids_to_respond h)"
    and "get_consecutive_stream_ids_to_respond h = (ids, h1)" and "all_answered h ids"
    and "length (ready_text h ids) \<le> length buffer" and "length buffer < 2 ^ 64"
  shows "\<exists>buffer' h'. on_write buffer h = Some (Inr (0, buffer', length (ready_text h ids), h'))
    \<and> take (length (ready_text h ids)) buffer' = ready_text h ids
    \<and> h1_streams h' = filter (\<lambda>p. fst p \<notin> sint ` set ids) (h1_streams h)
    \<and> (ids \<noteq> [] \<longrightarrow> last ids + 1 \<notin> set (h1_stream_ids_to_respond h'))"
proof -
  let ?h2 = "h1\<lparr>h1_inside_callback := True\<rparr>"
  have f: "h1_streams h1 = h1_streams h" "h1_should_keep_alive h1 = h1_should_keep_alive h"
    by (subst get_consecutive_split(2) [OF assms(3)], simp)+
  have t: "ready_text ?h2 ids = ready_text h ids" "all_answered ?h2 ids"
    using f assms(4) by (simp_all add: ready_text_def all_answered_def)
  have "distinct ids" using assms(2) get_consecutive_split(1) [OF assms(3)] by (simp add: strict_sorted_iff)
  then have "write_streams ids (buffer, 0) ?h2
      = Some (Inr ((overwrite buffer 0 (ready_text h ids), length (ready_text h ids)), close_all ids ?h2))"
    using write_streams_fits [of ids ?h2 0 buffer] t assms(5,6) by simp
  then have "on_write buffer h = Some (Inr (0, overwrite buffer 0 (ready_text h ids), length (ready_text h ids),
      (close_all ids ?h2)\<lparr>h1_inside_callback := False\<rparr>))"
    using assms(1,3)
    by (simp add: on_write_def enter_callback_def leave_callback_def get_consecutive_inside close_all_def)
  moreover have "take (length (ready_text h ids)) (overwrite buffer 0 (ready_text h ids)) = ready_text h ids"
    using take_overwrite [of 0 "ready_text h ids" buffer] assms(5) by simp
  moreover have "h1_streams ((close_all ids ?h2)\<lparr>h1_inside_callback := False\<rparr>) = filter (\<lambda>p. fst p \<notin> sint ` set ids) (h1_streams h)"
    using f fold_close_filter by (simp add: close_all_def)
  moreover have "ids \<noteq> [] \<longrightarrow> last ids + 1 \<notin> set (h1_stream_ids_to_respond ((close_all ids ?h2)\<lparr>h1_inside_callback := False\<rparr>))"
    using next_not_ready [OF assms(3) _ assms(2)] by (simp add: close_all_def)
  ultimately show ?thesis by blast
qed

lemma sample_ready:
  "\<not> h1_inside_callback (sample_answered [2, 1])" "h1_stream_ids_to_respond (sample_answered [2, 1]) = [1, 2]"
  "fst (get_consecutive_stream_ids_to_respond (sample_answered [2, 1])) = [1, 2]"
  "h1_streams (sample_answered [2, 1]) \<noteq> []"
  "\<forall>i \<in> set [1, 2 :: u32]. case find_stream (sint i) (h1_streams (sample_answered [2, 1])) of
     Some s \<Rightarrow> body_data (st_response s) = Some ''hello'' | None \<Rightarrow> False"
  "length (ready_text (sample_answered [2, 1]) [1, 2]) = 84"
  by code_simp+

theorem http1_writes_ready_responses_witness:
  "\<exists>buffer' h'. on_write sample_buffer (sample_answered [2, 1]) = Some (Inr (0, buffer', 84, h'))
    \<and> take 84 buffer' = ready_text (sample_answered [2, 1]) [1, 2]"
proof -
  have "all_answered (sample_answered [2, 1]) [1, 2]"
    using sample_ready(5) by (auto simp: all_answered_def answered_def split: option.splits)
  then show ?thesis
    using http1_writes_ready_responses [of "sample_answered [2, 1]" "[1, 2]"
        "snd (get_consecutive_stream_ids_to_respond (sample_answered [2, 1]))" sample_buffer] sample_ready
    by (auto simp: sample_buffer_def prod_eq_iff)
qed

text \<open>What the first stream of a write does decides, whatever follows, when it does not succeed.\<close>

lemma on_write_first:
  assumes "\<not> h1_inside_callback h" and "get_consecutive_stream_ids_to_respond h = (i # ids, h1)"
    and "find_stream (sint i) (h1_streams h) = Some strm"
  shows "write_response (h1_should_keep_alive h) strm (buffer, 0) = None \<Longrightarrow> on_write buffer h = None"
    and "write_response (h1_should_keep_alive h) strm (buffer, 0) = Some (Inl e) \<Longrightarrow> on_write buffer h = Some (Inl e)"
proof -
  have f: "h1_streams h1 = h1_streams h" "h1_should_keep_alive h1 = h1_should_keep_alive h"
    by (subst get_consecutive_split(2) [OF assms(2)], simp)+
  show "write_response (h1_should_keep_alive h) strm (buffer, 0) = None \<Longrightarrow> on_write buffer h = None"
    and "write_response (h1_should_keep_alive h) strm (buffer, 0) = Some (Inl e) \<Longrightarrow> on_write buffer h = Some (Inl e)"
    using assms f by (simp_all add: on_write_def enter_callback_def get_consecutive_inside)
qed

text \<open>C32. A body that does not fit the buffer hangs the worker. When the head of the first ready response
  fits the connection's buffer (64 KB, never less than the 16 KB step) and its body does not fit behind it,
  \<^verbatim>\<open>on_write\<close> never returns: the buffer is not enlarged, because its size and not the room left is compared
  with the step, and every further read asks for 0 bytes.\<close>

theorem http1_large_body_never_returns:
  assumes "\<not> h1_inside_callback h" and "get_consecutive_stream_ids_to_respond h = (i # ids, h1)"
    and "find_stream (sint i) (h1_streams h) = Some strm"
    and "expect_response_body_for (req_method (st_request strm)) (rp_status_code (st_response strm))"
    and "body_data (st_response strm) = Some data"
    and "length (head_text (h1_should_keep_alive h) (st_response strm)) \<le> length buffer"
    and "length buffer < length (head_text (h1_should_keep_alive h) (st_response strm)) + length data"
    and "16 * 1024 \<le> length buffer" and "length buffer < 2 ^ 64"
  shows "on_write buffer h = None"
proof -
  let ?head = "head_text (h1_should_keep_alive h) (st_response strm)"
  have "write_body (req_method (st_request strm)) (st_response strm) (overwrite buffer 0 ?head, length ?head) = None"
    using assms by (intro write_body_hangs) (simp_all add: inc_step_def)
  then have "write_response (h1_should_keep_alive h) strm (buffer, 0) = None"
    using write_head_fits [of 0] assms(6) by (simp add: write_response_def)
  then show ?thesis by (rule on_write_first(1) [OF assms(1-3)])
qed

text \<open>A handler with one request and one answer of 70000 bytes.\<close>

definition answered_with :: "header_map \<Rightarrow> string \<Rightarrow> http1_handler" where
  "answered_with headers data = http1_handler_init\<lparr>h1_request_count := 1, h1_stream_ids_to_respond := [1],
     h1_streams := [(1, \<lparr>st_request = asio_server_request_init\<lparr>req_method := ''GET''\<rparr>,
       st_response = asio_server_response_init\<lparr>rp_header := headers, rp_state := BODY_STARTED,
         rp_generator := Some (string_generator data), rp_payload_size := length data\<rparr>\<rparr>)]\<rparr>"

lemma answered_with_ready:
  "\<not> h1_inside_callback (answered_with headers data)"
  "get_consecutive_stream_ids_to_respond (answered_with headers data)
    = ([1], (answered_with headers data)\<lparr>h1_stream_ids_to_respond := []\<rparr>)"
  by (simp_all add: answered_with_def http1_handler_init_def get_consecutive_stream_ids_to_respond_def)

lemma answered_with_stream:
  "find_stream (sint (1 :: u32)) (h1_streams (answered_with headers data)) = Some \<lparr>
     st_request = asio_server_request_init\<lparr>req_method := ''GET''\<rparr>,
     st_response = asio_server_response_init\<lparr>rp_header := headers, rp_state := BODY_STARTED,
       rp_generator := Some (string_generator data), rp_payload_size := length data\<rparr>\<rparr>"
  by (simp add: answered_with_def find_stream_def lin.equivalent_key)

lemma reason_200: "get_reason_phrase 200 = ''OK''" "nat_dec 200 = ''200''" "expect_response_body 200"
  by code_simp+

theorem http1_large_body_never_returns_witness:
  "on_write (replicate 65536 (CHR 0x00))
     (answered_with [(''content-length'', plain_value ''70000'')] (replicate 70000 (CHR ''x''))) = None"
  by (rule http1_large_body_never_returns [OF answered_with_ready answered_with_stream, where data = "replicate 70000 (CHR ''x'')"])
    (simp_all add: expect_response_body_for_def asio_server_response_init_def asio_server_request_init_def
      reason_200 body_data_def string_generator_def head_text_def plain_value_def crlf_def lin.equivalent_key)

text \<open>A head that does not fit the buffer is written past its end. When the status line and the header
  fields of the first ready response are together longer than the buffer, and each alone is not,
  \<^verbatim>\<open>on_write\<close> copies past the end of the buffer.\<close>

lemma http1_large_head_overruns:
  assumes "\<not> h1_inside_callback h" and "get_consecutive_stream_ids_to_respond h = (i # ids, h1)"
    and "find_stream (sint i) (h1_streams h) = Some strm"
    and "\<forall>item \<in> set (head_items (h1_should_keep_alive h) (st_response strm)). length (concat item) \<le> length buffer"
    and "length buffer < length (head_text (h1_should_keep_alive h) (st_response strm))"
  shows "on_write buffer h = Some (Inl Out_Of_Bounds)"
proof -
  have "longest_item (head_items (h1_should_keep_alive h) (st_response strm)) \<le> length buffer"
    using assms(4) by (auto simp: longest_item_def)
  then have "write_response (h1_should_keep_alive h) strm (buffer, 0) = Some (Inl Out_Of_Bounds)"
    using write_head_overruns [of _ _ buffer 0] assms(5) by (simp add: write_response_def)
  then show ?thesis by (rule on_write_first(2) [OF assms(1-3)])
qed

lemma http1_large_head_overruns_witness:
  "on_write (replicate 65536 (CHR 0x00))
     (answered_with [(''a'', plain_value (replicate 40000 (CHR ''x''))), (''b'', plain_value (replicate 40000 (CHR ''x'')))] [])
   = Some (Inl Out_Of_Bounds)"
  by (rule http1_large_head_overruns [OF answered_with_ready answered_with_stream])
    (simp_all add: asio_server_response_init_def reason_200 head_text_def head_items_def status_line_def length_line_def
      header_line_def plain_value_def crlf_def)

text \<open>A header field that arrives in two pieces is not put together. The parser may call back several times
  for one name or value; the handler keeps only the last piece of a name and stores every piece of a value as a
  field of its own.\<close>

lemma http1_split_header_field:
  assumes "find_stream (sint (h1_request_count h)) (h1_streams h) = Some strm"
    and "map_ordered (<) (h1_streams h)"
  shows "\<exists>h' strm'. run_events app mux conf parse_url
      [On_Header_Field name1, On_Header_Field name2, On_Header_Value value1, On_Header_Value value2] (w, h) = Inr (w, h')
    \<and> find_stream (sint (h1_request_count h)) (h1_streams h') = Some strm'
    \<and> req_header (st_request strm')
        = header_emplace (map tolower_char name2) \<lparr>hv_value = value2, hv_sensitive = True\<rparr>
           (header_emplace (map tolower_char name2) \<lparr>hv_value = value1, hv_sensitive = True\<rparr> (req_header (st_request strm)))"
proof -
  have "map_find (<) k (map_assign (<) k v m) = Some v" if "map_ordered (<) m" for k :: int and v :: server_stream and m
    using std_map.lookup_update [OF that] by simp
  then show ?thesis
    using assms lin.map_assign_ordered [OF assms(2)]
    by (simp add: http1_hdr_keycb_def http1_hdr_valcb_def with_current_def current_id_def update_stream_def find_stream_def)
qed

lemma http1_split_header_field_witness:
  "\<exists>h' strm'. run_events answers_later [] sample_conf whole_path
      [On_Header_Field ''Content-'', On_Header_Field ''Type'', On_Header_Value ''text/'', On_Header_Value ''html'']
      ((), answered_with [] []) = Inr ((), h')
    \<and> find_stream 1 (h1_streams h') = Some strm'
    \<and> req_header (st_request strm')
        = [(''type'', \<lparr>hv_value = ''text/'', hv_sensitive = True\<rparr>), (''type'', \<lparr>hv_value = ''html'', hv_sensitive = True\<rparr>)]"
proof -
  have c: "h1_request_count (answered_with [] []) = 1" by (simp add: answered_with_def)
  have o: "map_ordered (<) (h1_streams (answered_with [] []))" by (simp add: answered_with_def)
  have l: "map tolower_char ''Type'' = ''type''" by code_simp
  note f = answered_with_stream [of "[]" "[]", folded c]
  from http1_split_header_field [OF f o, of answers_later "[]" sample_conf whole_path "''Content-''" "''Type''"
      "''text/''" "''html''" "()"]
  show ?thesis by (simp only: c l) (simp add: asio_server_request_init_def)
qed

text \<open>The query of an HTTP/1 request is taken for a part of its path: the multiplexer cleans it and
  answers a request whose query has a doubled slash with a redirect to a path in which the question mark is
  escaped, so that the query is gone. Nothing registered at the multiplexer matters.\<close>

lemma http1_query_is_path:
  "mux_handler mux (asio_server_request_init\<lparr>req_method := ''GET'',
      req_uri := url_into \<lparr>uf_schema = None, uf_host = None, uf_port = None, uf_path = Some (0, 2), uf_query = Some (3, 6)\<rparr>
        ''/a?u=b//c'' empty_uri\<rparr>)
   = Inr (Redirect_Handler 301 ''/a%3Fu=b/c'')"
proof -
  let ?uri = "url_into \<lparr>uf_schema = None, uf_host = None, uf_port = None, uf_path = Some (0, 2), uf_query = Some (3, 6)\<rparr>
        ''/a?u=b//c'' empty_uri"
  have "uri_path ?uri = ''/a?u=b//c''" "uri_raw_query ?uri = []" by code_simp+
  moreover have "path_join [] [] ''/a?u=b//c'' [] = Inr ''/a?u=b/c''" by code_simp
  moreover have "percent_encode_path ''/a?u=b/c'' = ''/a%3Fu=b/c''" by code_simp
  ultimately show ?thesis by (simp add: mux_handler_def Let_def)
qed

end
