(* ===== verification/Dispatch.thy ===== *)
theory Dispatch
  imports Server Http1_Handler
begin

text \<open>
  The application behind the multiplexer (\<^verbatim>\<open>asio_util.cc\<close>): the callback that answers a request from the
  configuration, the sending of a response, the responses that are customised by Lua on another thread, the
  counters and the figures of the statistics thread, the instances of the server and the installation of
  request processors.

  A worker thread keeps its state in a record; what the source declares \<^verbatim>\<open>static thread_local\<close> is part of
  it. The draws of the weighted choice (\<open>sel\<close>) and of the throttling (\<open>thr\<close>) and the time are
  arguments. Work posted to another io service is a value in a list, run later by a definition of its own.
\<close>

section \<open>Sending a response\<close>

definition insert_headers :: "(string \<times> string) list \<Rightarrow> header_map \<Rightarrow> header_map" where
  "insert_headers kvs hs = fold (\<lambda>kv. header_emplace (fst kv) (plain_value (snd kv))) kvs hs"

text \<open>The operations \<^verbatim>\<open>send_response\<close> performs on the response of an open stream.\<close>

definition send_ops :: "int \<Rightarrow> u32 \<Rightarrow> (string \<times> string) list \<Rightarrow> string \<Rightarrow> (string \<times> string) list \<Rightarrow> string
    \<Rightarrow> asio_server_response \<Rightarrow> response_step" where
  "send_ops rv status_code resp_headers resp_payload trailer_headers meth res =
     (let headers0 = insert_headers resp_headers [];
          headers = (if resp_payload \<noteq> [] \<and> map_find (<) ''content-length'' headers0 = None \<and> trailer_headers = []
                     then header_emplace ''content-length'' (plain_value (nat_dec (length resp_payload))) headers0
                     else headers0);
          head = write_head rv meth (unat status_code) headers res
      in if trailer_headers = [] then then_do head (end_string rv meth resp_payload)
         else then_do (then_do head (send_data_no_eos rv meth resp_payload))
                (write_trailer (insert_headers trailer_headers [])))"

text \<open>\<open>alive\<close> says whether the handler still exists, \<open>strm\<close> is the stream found there. The result is what
  happens to the stream and the counter of responses sent.\<close>

definition send_response :: "bool \<Rightarrow> server_stream option \<Rightarrow> u32 \<Rightarrow> (string \<times> string) list \<Rightarrow> string
    \<Rightarrow> (string \<times> string) list \<Rightarrow> u64 \<Rightarrow> app_action \<times> u64" where
  "send_response alive strm status_code resp_headers resp_payload trailer_headers matchedResponsesSent =
     (if \<not> alive then (Later, matchedResponsesSent)
      else if status_code = 0 then (Close_Stream, matchedResponsesSent)
      else case strm of
             None \<Rightarrow> (Later, matchedResponsesSent)
           | Some s \<Rightarrow>
               (Answer (\<lambda>rv. send_ops rv status_code resp_headers resp_payload trailer_headers (req_method (st_request s))),
                matchedResponsesSent + 1))"

definition atoi :: "string \<Rightarrow> u32" where
  "atoi s = (case strtol_dec (c_str s) of
       None \<Rightarrow> 0 | Some v \<Rightarrow> word_of_int (max (- (2 ^ 63)) (min (2 ^ 63 - 1) v)))"

text \<open>The status code a response ends up with, and its headers without the pseudo header.\<close>

definition take_status :: "u32 \<Rightarrow> (string \<times> string) list \<Rightarrow> u32 \<times> (string \<times> string) list" where
  "take_status status_code resp_headers =
     ((case map_find (<) lua_status resp_headers of Some v \<Rightarrow> atoi v | None \<Rightarrow> status_code),
      map_erase (<) lua_status resp_headers)"

section \<open>The state of a worker thread\<close>

text \<open>A response to be customised on the offload threads, and one to be sent on its own thread.\<close>

record offload_job =
  oj_req_index :: nat
  oj_resp_index :: nat
  oj_response :: H2Server_Response
  oj_req_headers :: "(string \<times> string) list"
  oj_req_payload :: string
  oj_resp_headers :: "(string \<times> string) list"
  oj_trailers :: "(string \<times> string) list"
  oj_resp_payload :: string
  oj_stream_id :: int

record send_job =
  sj_req_index :: nat
  sj_resp_index :: nat
  sj_status_code :: u32
  sj_resp_headers :: "(string \<times> string) list"
  sj_resp_payload :: string
  sj_trailers :: "(string \<times> string) list"
  sj_stream_id :: int

record response_statistics =
  response_sent :: u64
  response_throttled :: u64

record worker =
  wk_services :: services
  wk_trailer_headers :: "(string \<times> string) list"
  wk_scaled_throttle_ratio :: "nat option"
  wk_rng :: rng
  wk_reqReceived :: u64
  wk_unMatchedResponses :: u64
  wk_stats :: "nat \<Rightarrow> nat \<Rightarrow> response_statistics"
  wk_offload :: "offload_job list"
  wk_processed :: "(nat \<times> int \<times> (string \<times> string) list \<times> string) list"

definition no_statistics :: response_statistics where
  "no_statistics = \<lparr>response_sent = 0, response_throttled = 0\<rparr>"

definition worker_init :: "services \<Rightarrow> rng \<Rightarrow> worker" where
  "worker_init svs g = \<lparr>wk_services = svs, wk_trailer_headers = [], wk_scaled_throttle_ratio = None, wk_rng = g,
     wk_reqReceived = 0, wk_unMatchedResponses = 0, wk_stats = (\<lambda>i j. no_statistics), wk_offload = [], wk_processed = []\<rparr>"

definition update_stats :: "nat \<Rightarrow> nat \<Rightarrow> (response_statistics \<Rightarrow> response_statistics) \<Rightarrow> worker \<Rightarrow> worker" where
  "update_stats i j f w = w\<lparr>wk_stats := (wk_stats w)(i := (wk_stats w i)(j := f (wk_stats w i j)))\<rparr>"

text \<open>The Lua state of a response is reached through a pointer into the services.\<close>

definition store_response :: "nat \<Rightarrow> nat \<Rightarrow> H2Server_Response \<Rightarrow> services \<Rightarrow> services" where
  "store_response req_index resp_index r svs =
     map (\<lambda>(q, g). (q, if request_index q = req_index then g\<lparr>responses := (responses g)[resp_index := r]\<rparr> else g)) svs"

section \<open>The callback of the server\<close>

definition not_found :: string where
  "not_found = ''no matched entry found'' @ crlf"

definition not_found_headers :: header_map where
  "not_found_headers = header_emplace ''content-length'' (plain_value (nat_dec (length not_found)))
     (header_emplace ''reason'' (plain_value ''no match found'') [])"

definition send_matched :: "asio_server_request \<Rightarrow> nat \<Rightarrow> nat \<Rightarrow> u32 \<Rightarrow> (string \<times> string) list \<Rightarrow> string \<Rightarrow> worker
    \<Rightarrow> app_action \<times> worker" where
  "send_matched req req_index resp_index status_code headers payload w =
     (let (act, sent) = send_response True (Some \<lparr>st_request = req, st_response = asio_server_response_init\<rparr>)
            status_code headers payload (wk_trailer_headers w) (response_sent (wk_stats w req_index resp_index))
      in (act, update_stats req_index resp_index (\<lambda>s. s\<lparr>response_sent := sent\<rparr>) w))"

definition answer_from ::
    "lib \<Rightarrow> lua_lib \<Rightarrow> nat \<Rightarrow> nat \<Rightarrow> asio_server_request \<Rightarrow> int \<Rightarrow> H2Server_Request_Message
      \<Rightarrow> nat \<Rightarrow> H2Server_Response \<times> nat \<Rightarrow> worker \<Rightarrow> (app_action \<times> worker) result" where
  "answer_from L U now thr req stream_id msg req_index matched w0 =
     (let (matched_response, resp_index) = matched;
          (throttled, scaled) = is_response_throttled matched_response (wk_scaled_throttle_ratio w0) thr;
          w1 = w0\<lparr>wk_scaled_throttle_ratio := scaled\<rparr>
      in if throttled
         then Inr (Close_Stream, update_stats req_index resp_index (\<lambda>s. s\<lparr>response_throttled := response_throttled s + 1\<rparr>) w1)
         else
           rbind (produce_headers L now matched_response (msg, wk_rng w1)) (\<lambda>(response_headers, st1).
           rbind (produce_payload L now matched_response st1) (\<lambda>(response_payload, st2).
             let w2 = w1\<lparr>wk_rng := snd st2\<rparr>; status_code = rs_status_code matched_response
             in if luaState matched_response = None
                then Inr (send_matched req req_index resp_index status_code response_headers response_payload w2)
                else if lua_offload matched_response
                then Inr (Later, w2\<lparr>wk_offload := wk_offload w2 @ [\<lparr>oj_req_index = req_index, oj_resp_index = resp_index,
                       oj_response = matched_response, oj_req_headers = msg_headers (fst st2),
                       oj_req_payload = req_payload req, oj_resp_headers = response_headers,
                       oj_trailers = wk_trailer_headers w2, oj_resp_payload = response_payload,
                       oj_stream_id = stream_id\<rparr>]\<rparr>)
                else
                  rbind (update_response_with_lua U matched_response (msg_headers (fst st2)) (req_payload req)
                           response_headers (wk_trailer_headers w2) response_payload) (\<lambda>(lo, r').
                    let w3 = w2\<lparr>wk_trailer_headers := lo_trailers lo,
                               wk_services := store_response req_index resp_index r' (wk_services w2)\<rparr>;
                        (status_code', headers') = take_status status_code (lo_headers lo)
                    in Inr (send_matched req req_index resp_index status_code' headers' (lo_body lo) w3)))))"

definition dispatch ::
    "lib \<Rightarrow> lua_lib \<Rightarrow> nat \<Rightarrow> u64 \<Rightarrow> nat \<Rightarrow> asio_server_request \<Rightarrow> int \<Rightarrow> worker \<Rightarrow> (app_action \<times> worker) result" where
  "dispatch L U now sel thr req stream_id w =
     (let w0 = w\<lparr>wk_reqReceived := wk_reqReceived w + 1\<rparr>
      in rbind (get_matched_request L (wk_services w0) (H2Server_Request_Message_init req)) (\<lambda>(sv, matched_request_index, msg).
           case sv of
             Some (q, g) \<Rightarrow>
               (case request_processor g of
                  Some p \<Rightarrow> Inr (Later, w0\<lparr>wk_processed := wk_processed w0 @ [(p, stream_id, msg_headers msg, req_payload req)]\<rparr>)
                | None \<Rightarrow>
                    rbind (get_response_to_return g sel) (\<lambda>matched.
                      answer_from L U now thr req stream_id msg (nat matched_request_index) matched w0))
           | None \<Rightarrow>
               Inr (Answer (\<lambda>rv res. then_do (write_head rv (req_method req) 404 not_found_headers res)
                      (end_string rv (req_method req) not_found)),
                    w0\<lparr>wk_unMatchedResponses := wk_unMatchedResponses w0 + 1\<rparr>)))"

section \<open>Customisation on another thread\<close>

text \<open>\<^verbatim>\<open>update_response_with_lua\<close> of \<^verbatim>\<open>asio_util.cc\<close>, run in the strand of its response: the Lua state of the response
  as it is then. \<^term>\<open>None\<close> for a worker whose io service is not known; the trailers are never passed on.\<close>

definition run_offload :: "lua_lib \<Rightarrow> bool \<Rightarrow> H2Server_Response \<Rightarrow> offload_job \<Rightarrow> (send_job option \<times> H2Server_Response) result" where
  "run_offload U ios r j =
     rbind (update_response_with_lua U r (oj_req_headers j) (oj_req_payload j) (oj_resp_headers j) (oj_trailers j)
              (oj_resp_payload j)) (\<lambda>(lo, r').
       let (status_code, headers) = take_status (rs_status_code r) (lo_headers lo)
       in Inr (if ios then Some \<lparr>sj_req_index = oj_req_index j, sj_resp_index = oj_resp_index j, sj_status_code = status_code,
                 sj_resp_headers = headers, sj_resp_payload = lo_body lo, sj_trailers = [], sj_stream_id = oj_stream_id j\<rparr>
               else None, r'))"

definition run_send :: "bool \<Rightarrow> server_stream option \<Rightarrow> send_job \<Rightarrow> worker \<Rightarrow> app_action \<times> worker" where
  "run_send alive strm j w =
     (let (act, sent) = send_response alive strm (sj_status_code j) (sj_resp_headers j) (sj_resp_payload j) (sj_trailers j)
            (response_sent (wk_stats w (sj_req_index j) (sj_resp_index j)))
      in (act, update_stats (sj_req_index j) (sj_resp_index j) (\<lambda>s. s\<lparr>response_sent := sent\<rparr>) w))"

text \<open>\<^verbatim>\<open>send_response_from_another_thread\<close>, for an embedding program; the counter is one of its own.
  \<^verbatim>\<open>resp_headers[status]\<close> is the empty string when there is none, and the status 0.\<close>

definition send_response_from_another_thread ::
    "bool \<Rightarrow> int \<Rightarrow> (string \<times> string) list \<Rightarrow> string \<Rightarrow> (string \<times> string) list \<Rightarrow> send_job option" where
  "send_response_from_another_thread target stream_id resp_headers resp_payload trailer_headers =
     (if \<not> target then None
      else let (status_code, headers) = take_status 0 resp_headers
           in Some \<lparr>sj_req_index = 0, sj_resp_index = 0, sj_status_code = status_code, sj_resp_headers = headers,
                    sj_resp_payload = resp_payload, sj_trailers = trailer_headers, sj_stream_id = stream_id\<rparr>)"

section \<open>Statistics\<close>

definition get_req_name_max_size :: "H2Server_Config_Schema \<Rightarrow> nat" where
  "get_req_name_max_size c = fold (\<lambda>sv width. if width < length (rm_name (sv_request sv))
     then length (rm_name (sv_request sv)) else width) (service c) (length ''req-name'')"

definition get_resp_name_max_size :: "H2Server_Config_Schema \<Rightarrow> nat" where
  "get_resp_name_max_size c = fold (\<lambda>sv width. fold (\<lambda>r width. if width < length (sr_name r)
     then length (sr_name r) else width) (sv_responses sv) width) (service c) (length ''resp-name'')"

text \<open>\<^verbatim>\<open>std::accumulate(first, last, 0)\<close> over counters: the initial value makes the accumulator an \<^verbatim>\<open>int\<close>,
  widened for each addition and cut again.\<close>

definition accumulate_step :: "u64 \<Rightarrow> u32 \<Rightarrow> u32" where
  "accumulate_step x acc = ucast ((scast acc :: u64) + x)"

definition accumulate :: "u64 list \<Rightarrow> u64" where
  "accumulate xs = scast (fold accumulate_step xs 0)"

record statistics_totals =
  resp_sent_till_now :: "u64 list list"
  resp_throttled_till_now :: "u64 list list"
  total_req_received_till_now :: u64
  total_resp_sent_till_now :: u64
  total_resp_throttled_till_now :: u64
  total_unmatched_responses_till_now :: u64

text \<open>One round of the thread: \<open>stats\<close> holds the counters of a service, a response, a worker.\<close>

definition statistics_round :: "u64 list \<Rightarrow> u64 list \<Rightarrow> response_statistics list list list \<Rightarrow> statistics_totals" where
  "statistics_round received unmatched stats =
     (let sent = map (map (\<lambda>ws. accumulate (map response_sent ws))) stats;
          throttled = map (map (\<lambda>ws. accumulate (map response_throttled ws))) stats
      in \<lparr>resp_sent_till_now = sent, resp_throttled_till_now = throttled,
          total_req_received_till_now = accumulate received,
          total_resp_sent_till_now = fold (+) (concat sent) 0,
          total_resp_throttled_till_now = fold (+) (concat throttled) 0,
          total_unmatched_responses_till_now = accumulate unmatched\<rparr>)"

text \<open>Whether a round prints anything, and the rate it prints: the difference per second over the milliseconds
  since the last printed round. A duration of 0 divides by zero.\<close>

definition statistics_changed :: "statistics_totals \<Rightarrow> statistics_totals \<Rightarrow> bool" where
  "statistics_changed before now \<longleftrightarrow>
     \<not> (total_req_received_till_now now - total_req_received_till_now before = 0
        \<and> total_resp_sent_till_now now + total_resp_throttled_till_now now
           - total_resp_sent_till_now before - total_resp_throttled_till_now before = 0)"

definition rate :: "u64 \<Rightarrow> u64 \<Rightarrow> u64 \<Rightarrow> u64 result" where
  "rate now before period_duration =
     (if period_duration = 0 then Inl Assertion else Inr ((now - before) * 1000 div period_duration))"

section \<open>Instances\<close>

type_synonym instances = "(string \<times> services list) list"

definition get_H2Server_match_Instances :: "string \<Rightarrow> instances \<Rightarrow> services list \<times> instances" where
  "get_H2Server_match_Instances thread_id m =
     (let m' = (if map_find (<) thread_id m = None then map_insert (<) thread_id [] m else m)
      in ((case map_find (<) thread_id m' of Some v \<Rightarrow> v | None \<Rightarrow> []), m'))"

text \<open>\<open>built\<close> is the server constructed from the configuration.\<close>

definition init_H2Server_match_Instances :: "nat \<Rightarrow> services \<Rightarrow> string \<Rightarrow> instances \<Rightarrow> instances" where
  "init_H2Server_match_Instances number_of_instances built thread_id m =
     (let (match_instances, m') = get_H2Server_match_Instances thread_id m
      in if match_instances = [] then map_assign (<) thread_id (replicate number_of_instances built) m' else m')"

text \<open>The number of worker threads; \<open>hardware\<close> is \<^verbatim>\<open>std::thread::hardware_concurrency()\<close>, 0 when unknown.\<close>

definition worker_threads :: "u32 \<Rightarrow> nat \<Rightarrow> nat" where
  "worker_threads configured hardware =
     (let n = unat configured; n1 = (if n = 0 then hardware else n) in if n1 = 0 then 1 else n1)"

text \<open>Whether the offload threads are created.\<close>

definition needs_offload :: "services \<Rightarrow> bool" where
  "needs_offload svs \<longleftrightarrow> list_ex (\<lambda>(q, g). list_ex lua_offload (responses g)) svs"

definition install_request_callback :: "string \<Rightarrow> nat \<Rightarrow> string \<Rightarrow> nat \<Rightarrow> instances \<Rightarrow> instances" where
  "install_request_callback thread_id server_thread_index name p m =
     (let (vec, m') = get_H2Server_match_Instances thread_id m
      in if length vec \<le> server_thread_index then m'
         else map_assign (<) thread_id
                (vec[server_thread_index := map (\<lambda>(q, g). (q, if rq_name q = name then set_request_processor p g else g))
                       (vec ! server_thread_index)]) m')"

section \<open>What a sent response is\<close>

lemma header_emplace_find:
  assumes "sorted_wrt (\<lambda>x y. \<not> y < x) (map fst hs)"
  shows "map_find (<) (n :: string) (header_emplace m v hs)
    = (case map_find (<) n hs of Some u \<Rightarrow> Some u | None \<Rightarrow> if n = m then Some v else None)"
  using assms
proof (induction hs)
  case (Cons p hs)
  obtain a b where p: "p = (a, b)" by (cases p)
  show ?case
  proof (cases "m < a")
    case True
    have "\<forall>q \<in> set (p # hs). m < fst q" using True Cons.prems p by fastforce
    then have "map_find (<) m (p # hs) = None" by (auto simp: map_find_None_iff equivalent_def)
    then show ?thesis using True p by (auto simp: lin.equivalent_key split: option.splits)
  next
    case False
    then show ?thesis using Cons p by (auto simp: lin.equivalent_key split: option.splits)
  qed
qed (simp add: lin.equivalent_key)

lemma header_emplace_ordered:
  "sorted_wrt (\<lambda>x y. \<not> y < x) (map fst hs) \<Longrightarrow> sorted_wrt (\<lambda>x y. \<not> y < x) (map fst (header_emplace m v hs))"
  by (rule lin.multimap_insert_ordered)

lemma insert_headers_ordered:
  "sorted_wrt (\<lambda>x y. \<not> y < x) (map fst hs) \<Longrightarrow> sorted_wrt (\<lambda>x y. \<not> y < x) (map fst (insert_headers kvs hs))"
  by (induction kvs arbitrary: hs) (simp_all add: insert_headers_def header_emplace_ordered)

lemma insert_headers_find:
  assumes "sorted_wrt (\<lambda>x y. \<not> y < x) (map fst hs)"
  shows "map_find (<) n (insert_headers kvs hs)
    = (case map_find (<) n hs of Some u \<Rightarrow> Some u | None \<Rightarrow> map_option plain_value (map_find (<) n kvs))"
  using assms
proof (induction kvs arbitrary: hs)
  case Nil
  then show ?case by (auto simp: insert_headers_def split: option.splits)
next
  case (Cons kv kvs)
  have "insert_headers (kv # kvs) hs = insert_headers kvs (header_emplace (fst kv) (plain_value (snd kv)) hs)"
    by (simp add: insert_headers_def)
  then show ?case using Cons.IH [OF header_emplace_ordered [OF Cons.prems]]
    by (cases kv) (auto simp: header_emplace_find [OF Cons.prems] lin.equivalent_key split: option.splits)
qed

text \<open>The header a response is sent with: its fields, and the length of a body that has no length yet.\<close>

definition sent_header :: "(string \<times> string) list \<Rightarrow> string \<Rightarrow> string \<Rightarrow> string option" where
  "sent_header headers payload n =
     (case map_find (<) n headers of
        Some v \<Rightarrow> Some v
      | None \<Rightarrow> if n = ''content-length'' \<and> payload \<noteq> [] then Some (nat_dec (length payload)) else None)"

lemma send_ops_plain:
  assumes res: "res = fst (send_ops rv code headers payload [] meth asio_server_response_init)"
  shows "rp_status_code res = unat code"
    and "map_find (<) n (rp_header res) = map_option plain_value (sent_header headers payload n)"
    and "rp_trailers res = []"
    and "answered \<lparr>st_request = req\<lparr>req_method := meth\<rparr>, st_response = res\<rparr>"
    and "expect_response_body_for meth (unat code) \<Longrightarrow> body_data res = Some payload"
    and "starts (snd (send_ops rv code headers payload [] meth asio_server_response_init)) = 1"
proof -
  let ?base = "insert_headers headers []"
  let ?full = "if payload \<noteq> [] \<and> map_find (<) ''content-length'' ?base = None
    then header_emplace ''content-length'' (plain_value (nat_dec (length payload))) ?base else ?base"
  have r: "rp_status_code res = unat code \<and> rp_header res = ?full \<and> rp_trailers res = []
      \<and> (expect_response_body_for meth (unat code) \<longrightarrow> rp_generator res = Some (string_generator payload))"
    unfolding res send_ops_def
    by (simp add: then_do_def write_head_def start_response_def end_string_def end_with_def
        asio_server_response_init_def Let_def)
  then show "rp_status_code res = unat code" and "rp_trailers res = []" by blast+
  from r show b: "expect_response_body_for meth (unat code) \<Longrightarrow> body_data res = Some payload"
    by (simp add: body_data_def string_generator_def)
  then show "answered \<lparr>st_request = req\<lparr>req_method := meth\<rparr>, st_response = res\<rparr>"
    using r by (simp add: answered_def)
  have o: "sorted_wrt (\<lambda>x y. \<not> y < x) (map fst ?base)" by (simp add: insert_headers_ordered)
  have f: "map_find (<) m ?base = map_option plain_value (map_find (<) m headers)" for m
    by (simp add: insert_headers_find)
  show "map_find (<) n (rp_header res) = map_option plain_value (sent_header headers payload n)"
    using r by (auto simp: header_emplace_find [OF o] f sent_header_def split: option.splits)
  show "starts (snd (send_ops rv code headers payload [] meth asio_server_response_init)) = 1"
    unfolding send_ops_def
    by (simp add: then_do_def write_head_def start_response_def end_string_def end_with_def
        asio_server_response_init_def Let_def)
qed

lemma map_assign_nonempty: "map_assign (<) k v m \<noteq> []"
  by (cases m) (auto simp: map_assign.simps split: if_splits)

lemma fold_assign_nonempty: "kvs \<noteq> [] \<Longrightarrow> fold (\<lambda>(k, v). map_assign (<) k v) kvs m \<noteq> []"
proof (induction kvs arbitrary: m)
  case (Cons kv kvs)
  then show ?case by (cases kvs) (auto simp: map_assign_nonempty split: prod.splits)
qed simp

section \<open>Properties\<close>

lemma update_stats_same [simp]: "wk_stats (update_stats i j f w) i j = f (wk_stats w i j)"
  by (simp add: update_stats_def)

text \<open>The answer to a matched request, and the worker afterwards.\<close>

lemma dispatch_sends:
  assumes "get_matched_request L (wk_services w) (H2Server_Request_Message_init req) = Inr (Some (q, g), idx, msg)"
    and "request_processor g = None" and "get_response_to_return g sel = Inr (r, j)"
    and "\<not> dbl_positive (throttle_ratio r)" and "luaState r = None" and "wk_trailer_headers w = []"
    and "produce_headers L now r (msg, wk_rng w) = Inr (headers, st1)"
    and "produce_payload L now r st1 = Inr (payload, st2)" and "rs_status_code r \<noteq> 0"
  shows "dispatch L U now sel thr req stream_id w
    = Inr (Answer (\<lambda>rv. send_ops rv (rs_status_code r) headers payload [] (req_method req)),
           update_stats (nat idx) j (\<lambda>s. s\<lparr>response_sent := response_sent (wk_stats w (nat idx) j) + 1\<rparr>)
             (w\<lparr>wk_reqReceived := wk_reqReceived w + 1, wk_rng := snd st2\<rparr>))"
  using assms
  by (simp add: dispatch_def answer_from_def is_response_throttled_def send_matched_def send_response_def Let_def)

text \<open>C33. A matched request is answered with what the configuration produces. When a service matches that has no request
  processor, its chosen response is not throttled, has no Lua script and a status other than 0, no trailers are left over on the
  thread, and its header fields and payload can be produced, the callback answers at once: the response has the configured
  status, exactly the produced header fields (with the length of the body when the configuration gives none) and, when the method
  and the status allow a body, the produced payload as its body; it is started exactly once and counted as sent.\<close>

theorem dispatch_answers_matched:
  assumes "get_matched_request L (wk_services w) (H2Server_Request_Message_init req) = Inr (Some (q, g), idx, msg)"
    and "request_processor g = None" and "get_response_to_return g sel = Inr (r, j)"
    and "\<not> dbl_positive (throttle_ratio r)" and "luaState r = None" and "wk_trailer_headers w = []"
    and "produce_headers L now r (msg, wk_rng w) = Inr (headers, st1)"
    and "produce_payload L now r st1 = Inr (payload, st2)" and "rs_status_code r \<noteq> 0"
  shows "\<exists>f w'. dispatch L U now sel thr req stream_id w = Inr (Answer f, w')
    \<and> rp_status_code (fst (f 0 asio_server_response_init)) = unat (rs_status_code r)
    \<and> (\<forall>n. map_find (<) n (rp_header (fst (f 0 asio_server_response_init)))
          = map_option plain_value (sent_header headers payload n))
    \<and> (expect_response_body_for (req_method req) (unat (rs_status_code r))
        \<longrightarrow> body_data (fst (f 0 asio_server_response_init)) = Some payload)
    \<and> answered \<lparr>st_request = req, st_response = fst (f 0 asio_server_response_init)\<rparr>
    \<and> starts (snd (f 0 asio_server_response_init)) = 1
    \<and> response_sent (wk_stats w' (nat idx) j) = response_sent (wk_stats w (nat idx) j) + 1"
proof -
  let ?f = "\<lambda>rv. send_ops rv (rs_status_code r) headers payload [] (req_method req)"
  let ?w = "update_stats (nat idx) j (\<lambda>s. s\<lparr>response_sent := response_sent (wk_stats w (nat idx) j) + 1\<rparr>)
        (w\<lparr>wk_reqReceived := wk_reqReceived w + 1, wk_rng := snd st2\<rparr>)"
  have "dispatch L U now sel thr req stream_id w = Inr (Answer ?f, ?w)"
    by (rule dispatch_sends [OF assms])
  moreover note S = send_ops_plain [where rv = 0 and code = "rs_status_code r" and headers = headers and payload = payload
      and meth = "req_method req", OF refl]
  moreover have "answered \<lparr>st_request = req, st_response = fst (?f 0 asio_server_response_init)\<rparr>"
    using S(4) [of req] by simp
  ultimately show ?thesis by (intro exI [of _ ?f] exI [of _ ?w] conjI allI impI) simp_all
qed

definition plain_response :: H2Server_Response where
  "plain_response = \<lparr>rs_status_code = 200, additonalHeaders = [], tokenizedPayload = [''hello''], payload_arguments = [],
     luaState = None, luaScript = [], lua_offload = False, throttle_ratio = Finite False 0 0, rs_name = ''r'',
     rs_weight = 100, response_index = 0\<rparr>"

definition plain_services :: services where
  "plain_services = [(\<lparr>match_rules = [], rq_name = ''q'', request_index = 0\<rparr>,
     \<lparr>responses = [plain_response], distribution_map = [(100, 0)], total_weight = 100, request_processor = None\<rparr>)]"

theorem dispatch_answers_matched_witness:
  "\<exists>f w'. dispatch plain_lib plain_lua 0 0 0 (asio_server_request_init\<lparr>req_method := ''GET''\<rparr>) 1
        (worker_init plain_services (sconst 0)) = Inr (Answer f, w')
    \<and> rp_status_code (fst (f 0 asio_server_response_init)) = 200
    \<and> body_data (fst (f 0 asio_server_response_init)) = Some ''hello''
    \<and> response_sent (wk_stats w' 0 0) = 1"
proof -
  let ?req = "asio_server_request_init\<lparr>req_method := ''GET''\<rparr>"
  let ?msg = "H2Server_Request_Message_init ?req"
  have e: "expect_response_body_for ''GET'' 200" by code_simp
  have m: "get_matched_request plain_lib (wk_services (worker_init plain_services (sconst 0))) ?msg
      = Inr (Some (hd plain_services), 0, ?msg)"
    by (simp add: get_matched_request_def plain_services_def worker_init_def request_match_def)
  show ?thesis
    using dispatch_answers_matched [OF m [unfolded plain_services_def list.sel(1)], where sel = 0 and r = plain_response and j = 0
        and now = 0 and headers = "[]" and payload = "''hello''" and U = plain_lua and thr = 0 and stream_id = 1] e
    by (force simp: get_response_to_return_def select_response_def plain_response_def dbl_positive_def worker_init_def
        produce_headers_def produce_payload_def no_statistics_def plain_services_def)
qed

text \<open>The trailers a Lua function leaves: with two tables as its results, the entries of the second.\<close>

lemma two_tables_trailers:
  assumes "luaState r = Some st" and "lua_callable U st"
    and "lua_customize U st (lua_call_of r rqh rqb rsh rsb) = Inr (LTable (string_entries hs), LTable (string_entries trs))"
    and "hs \<noteq> []" and "trs \<noteq> []"
    and "update_response_with_lua U r rqh rqb rsh tr rsb = Inr (lo, r')"
  shows "lo_trailers lo = fold (\<lambda>(k, v). map_assign (<) k v) trs []"
proof -
  have "fold (\<lambda>(k, v). map_assign (<) k v) kvs [] \<noteq> ([] :: (string \<times> string) list)" if "kvs \<in> {hs, trs}" for kvs
    using that assms(4,5) fold_assign_nonempty [of kvs] by blast
  then show ?thesis using assms(1-3,6)
    by (auto simp: update_response_with_lua_def lua_table_into_strings Let_def split: if_splits)
qed

text \<open>What a response without a script is sent with.\<close>

lemma plain_answer_trailers:
  assumes "answer_from L U now thr req sid msg i (r, j) w = Inr (Answer f, w')" and "luaState r = None"
    and "wk_trailer_headers w \<noteq> []"
  shows "rp_trailers (fst (f 0 asio_server_response_init)) = insert_headers (wk_trailer_headers w) []
    \<and> wk_trailer_headers w' = wk_trailer_headers w"
proof -
  obtain headers payload where
    "f = (\<lambda>rv. send_ops rv (rs_status_code r) headers payload (wk_trailer_headers w) (req_method req))"
    and "wk_trailer_headers w' = wk_trailer_headers w"
    using assms(1,2)
    by (auto simp: answer_from_def send_matched_def send_response_def update_stats_def Let_def
        split: if_splits prod.splits)
  then show ?thesis using assms(3)
    by (auto simp: send_ops_def then_do_def write_trailer_def send_trailer_def send_data_no_eos_def end_with_def write_head_def
        start_response_def asio_server_response_init_def Let_def split: prod.splits if_splits)
qed

lemma scripted_answer_trailers:
  assumes "answer_from L U now thr req sid msg i (r, j) w = Inr (Answer f, w')"
    and "luaState r = Some st" and "\<not> lua_offload r"
  shows "\<exists>rqh rsh rsb tr lo r'. update_response_with_lua U r rqh (req_payload req) rsh tr rsb = Inr (lo, r')
    \<and> wk_trailer_headers w' = lo_trailers lo"
proof -
  define w1 where "w1 = w\<lparr>wk_scaled_throttle_ratio := snd (is_response_throttled r (wk_scaled_throttle_ratio w) thr)\<rparr>"
  have "\<not> fst (is_response_throttled r (wk_scaled_throttle_ratio w) thr)"
    using assms(1) by (auto simp: answer_from_def Let_def split: prod.splits)
  note eq = assms(1) [unfolded answer_from_def Let_def case_prod_beta fst_conv snd_conv, folded w1_def, simplified this if_False]
  then obtain headers st1 payload st2 where p: "produce_headers L now r (msg, wk_rng w1) = Inr (headers, st1)"
    "produce_payload L now r st1 = Inr (payload, st2)" by auto
  define w2 where "w2 = w1\<lparr>wk_rng := snd st2\<rparr>"
  obtain lo r' where u: "update_response_with_lua U r (msg_headers (fst st2)) (req_payload req) headers (wk_trailer_headers w2) payload
      = Inr (lo, r')"
    using eq p assms(2,3) by (auto simp: w2_def)
  define w3 where "w3 = w2\<lparr>wk_trailer_headers := lo_trailers lo, wk_services := store_response i j r' (wk_services w2)\<rparr>"
  have "send_matched req i j (fst (take_status (rs_status_code r) (lo_headers lo))) (snd (take_status (rs_status_code r) (lo_headers lo)))
      (lo_body lo) w3 = (Answer f, w')"
    using eq p assms(2,3) u by (simp add: w3_def w2_def)
  then have "wk_trailer_headers w' = lo_trailers lo"
    by (auto simp: send_matched_def update_stats_def case_prod_beta Let_def w3_def)
  then show ?thesis using u by blast
qed

text \<open>C35. Trailers leak from one response to the next. A response has a Lua script that is run at once (not offloaded), whose
  function can be called and returns, whatever it is called with, two tables of strings, headers \<open>hs\<close> and trailers \<open>trs\<close>,
  neither empty. When a request has been answered with it, the next response of the thread that has no Lua script and is sent,
  for whatever request and connection, is sent with these trailers, which no configuration gave it, and they are still there
  for the one after.\<close>

theorem trailers_leak:
  assumes "luaState r1 = Some st" and "\<not> lua_offload r1" and "lua_callable U st"
    and "\<And>call. lua_customize U st call = Inr (LTable (string_entries hs), LTable (string_entries trs))"
    and "hs \<noteq> []" and "trs \<noteq> []"
    and "answer_from L U now1 thr1 req1 id1 msg1 i1 (r1, j1) w = Inr (Answer f1, w1)"
    and "luaState r2 = None" and "answer_from L U now2 thr2 req2 id2 msg2 i2 (r2, j2) w1 = Inr (Answer f2, w2)"
  shows "rp_trailers (fst (f2 0 asio_server_response_init)) = insert_headers (fold (\<lambda>(k, v). map_assign (<) k v) trs []) []
    \<and> wk_trailer_headers w2 = fold (\<lambda>(k, v). map_assign (<) k v) trs [] \<and> wk_trailer_headers w2 \<noteq> []"
proof -
  from scripted_answer_trailers [OF assms(7,1,2)] obtain rqh rsh rsb tr lo r' where
    u: "update_response_with_lua U r1 rqh (req_payload req1) rsh tr rsb = Inr (lo, r')" "wk_trailer_headers w1 = lo_trailers lo"
    by blast
  then have t: "wk_trailer_headers w1 = fold (\<lambda>(k, v). map_assign (<) k v) trs []"
    using two_tables_trailers [OF assms(1,3,4,5,6)] by simp
  then have "wk_trailer_headers w1 \<noteq> []" using fold_assign_nonempty [OF assms(6), of "[]"] by simp
  from plain_answer_trailers [OF assms(9,8) this] this show ?thesis using t by simp
qed

definition two_tables :: lua_lib where
  "two_tables = \<lparr>lua_callable = (\<lambda>st. True),
     lua_customize = (\<lambda>st call. Inr (LTable [(LString ''h'', LString ''1'')], LTable [(LString ''t'', LString ''2'')]))\<rparr>"

theorem trailers_leak_witness:
  "\<exists>f1 w1 f2 w2. answer_from plain_lib two_tables 0 0 asio_server_request_init 1 (H2Server_Request_Message_init asio_server_request_init)
        0 (plain_response\<lparr>luaState := Some ([], [])\<rparr>, 0) (worker_init plain_services (sconst 0)) = Inr (Answer f1, w1)
    \<and> answer_from plain_lib two_tables 0 0 asio_server_request_init 3 (H2Server_Request_Message_init asio_server_request_init)
        0 (plain_response, 0) w1 = Inr (Answer f2, w2)
    \<and> rp_trailers (fst (f2 0 asio_server_response_init)) = [(''t'', plain_value ''2'')]"
proof -
  let ?msg = "H2Server_Request_Message_init asio_server_request_init"
  let ?r1 = "plain_response\<lparr>luaState := Some ([], [])\<rparr>"
  let ?first = "answer_from plain_lib two_tables 0 0 asio_server_request_init 1 ?msg 0 (?r1, 0) (worker_init plain_services (sconst 0))"
  obtain f1 w1 where a: "?first = Inr (Answer f1, w1)"
    by (simp add: answer_from_def plain_response_def is_response_throttled_def dbl_positive_def produce_headers_def
        produce_payload_def worker_init_def update_response_with_lua_def two_tables_def send_matched_def update_stats_def
        take_status_def send_response_def Let_def lua_status_def lin.equivalent_key)
  obtain f2 w2 where b: "answer_from plain_lib two_tables 0 0 asio_server_request_init 3 ?msg 0 (plain_response, 0) w1 = Inr (Answer f2, w2)"
    by (simp add: answer_from_def plain_response_def is_response_throttled_def dbl_positive_def produce_headers_def
        produce_payload_def send_matched_def send_response_def Let_def)
  have "lua_customize two_tables ([], []) call = Inr (LTable (string_entries [(''h'', ''1'')]), LTable (string_entries [(''t'', ''2'')]))"
    for call by (simp add: two_tables_def string_entries_def)
  then have "rp_trailers (fst (f2 0 asio_server_response_init))
      = insert_headers (fold (\<lambda>(k, v). map_assign (<) k v) [(''t'', ''2'')] []) []"
    using trailers_leak [of ?r1 "([], [])" two_tables "[(''h'', ''1'')]" "[(''t'', ''2'')]", OF _ _ _ _ _ _ a _ b]
    by (simp add: plain_response_def two_tables_def string_entries_def)
  then show ?thesis using a b by (auto simp: insert_headers_def)
qed

text \<open>Counters other than the received requests.\<close>

abbreviation same_counters :: "worker \<Rightarrow> worker \<Rightarrow> bool" where
  "same_counters w w' \<equiv> wk_unMatchedResponses w' = wk_unMatchedResponses w \<and> wk_processed w' = wk_processed w"

definition counted :: "nat \<Rightarrow> nat \<Rightarrow> (response_statistics \<Rightarrow> response_statistics) \<Rightarrow> worker \<Rightarrow> worker \<Rightarrow> bool" where
  "counted i j f w w' \<longleftrightarrow> wk_stats w' = (wk_stats w)(i := (wk_stats w i)(j := f (wk_stats w i j)))"

lemma send_matched_outcome:
  assumes "send_matched req i j code headers payload w = (act, w')"
  shows "wk_reqReceived w' = wk_reqReceived w \<and> same_counters w w' \<and> wk_offload w' = wk_offload w
    \<and> ((\<exists>f. act = Answer f \<and> code \<noteq> 0 \<and> counted i j (\<lambda>s. s\<lparr>response_sent := response_sent s + 1\<rparr>) w w')
       \<or> (act = Close_Stream \<and> code = 0 \<and> wk_stats w' = wk_stats w))"
  using assms
  by (auto simp: send_matched_def send_response_def update_stats_def counted_def Let_def fun_upd_idem split: if_splits)

lemma answer_from_outcome:
  assumes "answer_from L U now thr req sid msg i (r, j) w = Inr (act, w')"
  shows "wk_reqReceived w' = wk_reqReceived w \<and> same_counters w w'
    \<and> ((\<exists>f. act = Answer f \<and> wk_offload w' = wk_offload w
            \<and> counted i j (\<lambda>s. s\<lparr>response_sent := response_sent s + 1\<rparr>) w w')
       \<or> (act = Close_Stream \<and> wk_offload w' = wk_offload w
            \<and> (counted i j (\<lambda>s. s\<lparr>response_throttled := response_throttled s + 1\<rparr>) w w' \<or> wk_stats w' = wk_stats w))
       \<or> (\<exists>job. act = Later \<and> wk_offload w' = wk_offload w @ [job] \<and> wk_stats w' = wk_stats w))"
proof (cases "fst (is_response_throttled r (wk_scaled_throttle_ratio w) thr)")
  case True
  then show ?thesis using assms
    by (auto simp: answer_from_def update_stats_def counted_def Let_def split: prod.splits)
next
  case False
  define w1 where "w1 = w\<lparr>wk_scaled_throttle_ratio := snd (is_response_throttled r (wk_scaled_throttle_ratio w) thr)\<rparr>"
  have f1: "wk_reqReceived w1 = wk_reqReceived w" "same_counters w w1" "wk_stats w1 = wk_stats w" "wk_offload w1 = wk_offload w"
    by (simp_all add: w1_def)
  obtain headers st1 payload st2 where p: "produce_headers L now r (msg, wk_rng w1) = Inr (headers, st1)"
    "produce_payload L now r st1 = Inr (payload, st2)"
    using assms False by (auto simp: answer_from_def Let_def w1_def split: prod.splits)
  define w2 where "w2 = w1\<lparr>wk_rng := snd st2\<rparr>"
  note eq = assms [unfolded answer_from_def Let_def case_prod_beta fst_conv snd_conv, folded w1_def]
  consider (plain) "luaState r = None" | (offload) "luaState r \<noteq> None" "lua_offload r"
    | (lua) "luaState r \<noteq> None" "\<not> lua_offload r" by blast
  then show ?thesis
  proof cases
    case plain
    then have "send_matched req i j (rs_status_code r) headers payload w2 = (act, w')"
      using eq False p by (simp add: w2_def)
    from send_matched_outcome [OF this] show ?thesis using f1 by (auto simp: counted_def w2_def)
  next
    case offload
    then show ?thesis using eq False p f1 by auto
  next
    case lua
    then obtain lo r' where u: "update_response_with_lua U r (msg_headers (fst st2)) (req_payload req) headers (wk_trailer_headers w2) payload
        = Inr (lo, r')"
      using eq False p by (auto simp: w2_def)
    define w3 where "w3 = w2\<lparr>wk_trailer_headers := lo_trailers lo, wk_services := store_response i j r' (wk_services w2)\<rparr>"
    have "send_matched req i j (fst (take_status (rs_status_code r) (lo_headers lo))) (snd (take_status (rs_status_code r) (lo_headers lo)))
        (lo_body lo) w3 = (act, w')"
      using eq False p lua u by (simp add: w3_def w2_def)
    from send_matched_outcome [OF this] show ?thesis using f1 by (auto simp: counted_def w3_def w2_def)
  qed
qed

text \<open>C34. Every request is accounted for. A request the callback handles is counted as received and ends in exactly
  one of these ways: no service matches and it is answered and counted as unmatched; it is handed to a request
  processor; its response is throttled, counted so and the stream closed; its response is sent at once and
  counted as sent; the configured or customised status is 0 and the stream is closed without being counted; or its
  response is queued for customisation on another thread. No other counter moves.\<close>

theorem dispatch_outcomes:
  assumes "dispatch L U now sel thr req stream_id w = Inr (act, w')"
  shows "wk_reqReceived w' = wk_reqReceived w + 1 \<and>
    ((\<exists>f. act = Answer f \<and> wk_unMatchedResponses w' = wk_unMatchedResponses w + 1 \<and> wk_stats w' = wk_stats w
        \<and> wk_offload w' = wk_offload w \<and> wk_processed w' = wk_processed w)
     \<or> (\<exists>e. act = Later \<and> wk_unMatchedResponses w' = wk_unMatchedResponses w \<and> wk_stats w' = wk_stats w
        \<and> wk_offload w' = wk_offload w \<and> wk_processed w' = wk_processed w @ [e])
     \<or> (same_counters w w' \<and>
        (\<exists>i j. (\<exists>f. act = Answer f \<and> wk_offload w' = wk_offload w
                  \<and> counted i j (\<lambda>s. s\<lparr>response_sent := response_sent s + 1\<rparr>) w w')
             \<or> (act = Close_Stream \<and> wk_offload w' = wk_offload w
                  \<and> (counted i j (\<lambda>s. s\<lparr>response_throttled := response_throttled s + 1\<rparr>) w w' \<or> wk_stats w' = wk_stats w))
             \<or> (\<exists>job. act = Later \<and> wk_offload w' = wk_offload w @ [job] \<and> wk_stats w' = wk_stats w))))"
proof -
  let ?w0 = "w\<lparr>wk_reqReceived := wk_reqReceived w + 1\<rparr>"
  obtain sv idx msg where m: "get_matched_request L (wk_services w) (H2Server_Request_Message_init req) = Inr (sv, idx, msg)"
    using assms by (auto simp: dispatch_def Let_def)
  show ?thesis
  proof (cases sv)
    case None
    then show ?thesis using assms m by (auto simp: dispatch_def Let_def)
  next
    case (Some s)
    obtain q g where s: "s = (q, g)" by (cases s)
    show ?thesis
    proof (cases "request_processor g")
      case None
      then obtain r j where "answer_from L U now thr req stream_id msg (nat idx) (r, j) ?w0 = Inr (act, w')"
        using assms m Some s by (auto simp: dispatch_def Let_def)
      from answer_from_outcome [OF this] show ?thesis by (auto simp: counted_def)
    next
      case (Some p)
      then show ?thesis using assms m \<open>sv = Some s\<close> s by (auto simp: dispatch_def Let_def)
    qed
  qed
qed

theorem dispatch_outcomes_witness:
  "\<exists>act w'. dispatch plain_lib plain_lua 0 0 0 asio_server_request_init 1 (worker_init [] (sconst 0)) = Inr (act, w')
    \<and> wk_reqReceived w' = 1 \<and> wk_unMatchedResponses w' = 1"
proof -
  have m: "get_matched_request plain_lib [] (H2Server_Request_Message_init asio_server_request_init)
      = Inr (None, - 1, H2Server_Request_Message_init asio_server_request_init)"
    by (simp add: get_matched_request_def)
  obtain act w' where d: "dispatch plain_lib plain_lua 0 0 0 asio_server_request_init 1 (worker_init [] (sconst 0)) = Inr (act, w')"
    and u: "wk_unMatchedResponses w' = 1"
    by (simp add: dispatch_def worker_init_def m)
  from dispatch_outcomes [OF d] have "wk_reqReceived w' = 1" by (simp add: worker_init_def)
  with d u show ?thesis by blast
qed

section \<open>The figures of the statistics\<close>

lemma ucast_add_scast: "(ucast ((scast (acc :: u32) :: u64) + x) :: u32) = acc + ucast x"
proof -
  have "(ucast (a + b) :: u32) = ucast a + ucast b" for a b :: u64
    by (simp add: word_uint_eq_iff unsigned_ucast_eq uint_word_ariths take_bit_eq_mod mod_simps mod_mod_cancel)
  moreover have "(ucast (scast acc :: u64) :: u32) = acc"
    by (rule bit_word_eqI) (simp add: bit_simps)
  ultimately show ?thesis by simp
qed

lemma accumulate_fold: "fold accumulate_step xs acc = acc + of_nat (\<Sum>x \<leftarrow> xs. unat x)"
proof (induction xs arbitrary: acc)
  case (Cons x xs)
  have "(ucast x :: u32) = of_nat (unat x)" by simp
  then show ?case using Cons by (simp add: accumulate_step_def ucast_add_scast add.assoc)
qed simp

text \<open>The statistics are right below \<open>2^31\<close> and wrong from there on. The sum of the counters of the workers is
  accumulated in an \<^verbatim>\<open>int\<close>: what is printed is the true sum as long as it is below \<open>2^31\<close>, in general the true sum cut
  to 32 bits and extended with its sign, so that a true sum from \<open>2^31\<close> up to \<open>2^32 - 1\<close> is printed as
  one near \<open>2^64\<close>.\<close>

lemma accumulate_wraps:
  "accumulate xs = scast (of_nat (\<Sum>x \<leftarrow> xs. unat x) :: u32)
   \<and> ((\<Sum>x \<leftarrow> xs. unat x) < 2 ^ 31 \<longrightarrow> unat (accumulate xs) = (\<Sum>x \<leftarrow> xs. unat x))
   \<and> (2 ^ 31 \<le> (\<Sum>x \<leftarrow> xs. unat x) \<and> (\<Sum>x \<leftarrow> xs. unat x) < 2 ^ 32 \<longrightarrow>
        unat (accumulate xs) = (\<Sum>x \<leftarrow> xs. unat x) + (2 ^ 64 - 2 ^ 32))"
proof (intro conjI impI)
  let ?s = "\<Sum>x \<leftarrow> xs. unat x"
  show eq: "accumulate xs = scast (of_nat ?s :: u32)" by (simp add: accumulate_def accumulate_fold)
  have u: "unat (of_nat ?s :: u32) = ?s" if "?s < 2 ^ 32"
    using that by (simp add: unsigned_of_nat take_bit_nat_eq_self)
  show "unat (accumulate xs) = ?s" if s: "?s < 2 ^ 31"
    using unat_scast_small [of "of_nat ?s"] u s eq by simp
  show "unat (accumulate xs) = ?s + (2 ^ 64 - 2 ^ 32)" if "2 ^ 31 \<le> ?s \<and> ?s < 2 ^ 32"
    using unat_scast_large [of "of_nat ?s"] u that eq by simp
qed

lemma accumulate_wraps_witness:
  "unat (accumulate [5, 7]) = 12 \<and> unat (accumulate [0x7FFFFFFF, 1]) = 2 ^ 31 + (2 ^ 64 - 2 ^ 32)"
  using accumulate_wraps [of "[5, 7]"] accumulate_wraps [of "[0x7FFFFFFF, 1]"] by simp

end
