(* ===== verification/Header_Token.thy ===== *)
theory Header_Token
  imports Maock_Prelude
begin

text \<open>
  Names as numbers (\<^verbatim>\<open>http2.cc\<close>): \<^verbatim>\<open>lookup_token\<close> for the header fields and \<^verbatim>\<open>lookup_method_token\<close> for the
  methods the code treats specially. Both are generated as nested switches, on the length of the name, on
  its last character, and then comparisons of what precedes it. A switch is a list of its cases; the locale
  \<open>name_switch\<close> says what makes such a switch a lookup of names, and is interpreted for both.
\<close>

section \<open>Nested switches\<close>

type_synonym 't name_cases = "(nat \<times> (char \<times> (string \<times> 't) list) list) list"

definition switch_name :: "'t name_cases \<Rightarrow> string \<Rightarrow> 't option" where
  "switch_name table name =
     (case map_of table (length name) of
        None \<Rightarrow> None
      | Some by_last \<Rightarrow>
          (case map_of by_last (last name) of
             None \<Rightarrow> None
           | Some comparisons \<Rightarrow> map_of comparisons (butlast name)))"

definition switch_names :: "'t name_cases \<Rightarrow> (string \<times> 't) list" where
  "switch_names table = concat (map (\<lambda>(n, by_last). concat (map (\<lambda>(c, comparisons).
     map (\<lambda>(p, t). (p @ [c], t)) comparisons) by_last)) table)"

text \<open>Every case is reached: no label occurs twice, and the labels agree with the names.\<close>

definition switch_ok :: "'t name_cases \<Rightarrow> bool" where
  "switch_ok table \<longleftrightarrow>
     distinct (map fst table)
     \<and> list_all (\<lambda>(n, by_last). distinct (map fst by_last)
         \<and> list_all (\<lambda>(c, comparisons). distinct (map fst comparisons)
             \<and> list_all (\<lambda>(p, t). Suc (length p) = n) comparisons) by_last) table"

locale name_switch =
  fixes table :: "'t name_cases"
  assumes ok: "switch_ok table"
begin

lemma case_in_table:
  assumes "(n, by_last) \<in> set table" and "(c, comparisons) \<in> set by_last" and "(p, t) \<in> set comparisons"
  shows "switch_name table (p @ [c]) = Some t"
proof -
  have "distinct (map fst table)" "distinct (map fst by_last)" "distinct (map fst comparisons)" "Suc (length p) = n"
    using ok assms unfolding switch_ok_def list_all_iff by fastforce+
  then show ?thesis using assms by (simp add: switch_name_def)
qed

theorem switch_name_iff: "switch_name table name = Some t \<longleftrightarrow> (name, t) \<in> set (switch_names table)"
proof
  assume "switch_name table name = Some t"
  then obtain by_last comparisons where "(length name, by_last) \<in> set table" "(last name, comparisons) \<in> set by_last"
    "(butlast name, t) \<in> set comparisons"
    by (auto simp: switch_name_def split: option.splits dest!: map_of_SomeD)
  moreover from this have "Suc (length (butlast name)) = length name"
    using ok unfolding switch_ok_def list_all_iff by fastforce
  then have "name = butlast name @ [last name]" by (cases "name = []") simp_all
  ultimately show "(name, t) \<in> set (switch_names table)" unfolding switch_names_def by force
next
  assume "(name, t) \<in> set (switch_names table)"
  then show "switch_name table name = Some t" unfolding switch_names_def by (auto intro: case_in_table)
qed

end

section \<open>Header fields\<close>

datatype header_token =
  HD__AUTHORITY | HD__HOST | HD__METHOD | HD__PATH | HD__PROTOCOL | HD__SCHEME | HD__STATUS
  | HD_ACCEPT_ENCODING | HD_ACCEPT_LANGUAGE | HD_ALT_SVC | HD_CACHE_CONTROL | HD_CONNECTION
  | HD_CONTENT_LENGTH | HD_CONTENT_TYPE | HD_COOKIE | HD_DATE | HD_EARLY_DATA | HD_EXPECT | HD_FORWARDED
  | HD_HOST | HD_HTTP2_SETTINGS | HD_IF_MODIFIED_SINCE | HD_KEEP_ALIVE | HD_LINK | HD_LOCATION
  | HD_PROXY_CONNECTION | HD_SEC_WEBSOCKET_ACCEPT | HD_SEC_WEBSOCKET_KEY | HD_SERVER | HD_TE | HD_TRAILER
  | HD_TRANSFER_ENCODING | HD_UPGRADE | HD_USER_AGENT | HD_VIA | HD_X_FORWARDED_FOR | HD_X_FORWARDED_PROTO

definition tokens_2_7 :: "header_token name_cases" where
  "tokens_2_7 =
    [(2, [(CHR ''e'', [(''t'', HD_TE)])]),
     (3, [(CHR ''a'', [(''vi'', HD_VIA)])]),
     (4, [(CHR ''e'', [(''dat'', HD_DATE)]),
        (CHR ''k'', [(''lin'', HD_LINK)]),
        (CHR ''t'', [(''hos'', HD_HOST)])]),
     (5, [(CHR ''h'', [('':pat'', HD__PATH)]),
        (CHR ''t'', [('':hos'', HD__HOST)])]),
     (6, [(CHR ''e'', [(''cooki'', HD_COOKIE)]),
        (CHR ''r'', [(''serve'', HD_SERVER)]),
        (CHR ''t'', [(''expec'', HD_EXPECT)])]),
     (7, [(CHR ''c'', [(''alt-sv'', HD_ALT_SVC)]),
        (CHR ''d'', [('':metho'', HD__METHOD)]),
        (CHR ''e'', [('':schem'', HD__SCHEME), (''upgrad'', HD_UPGRADE)]),
        (CHR ''r'', [(''traile'', HD_TRAILER)]),
        (CHR ''s'', [('':statu'', HD__STATUS)])])]"

definition tokens_8_14 :: "header_token name_cases" where
  "tokens_8_14 =
    [(8, [(CHR ''n'', [(''locatio'', HD_LOCATION)])]),
     (9, [(CHR ''d'', [(''forwarde'', HD_FORWARDED)]),
        (CHR ''l'', [('':protoco'', HD__PROTOCOL)])]),
     (10, [(CHR ''a'', [(''early-dat'', HD_EARLY_DATA)]),
        (CHR ''e'', [(''keep-aliv'', HD_KEEP_ALIVE)]),
        (CHR ''n'', [(''connectio'', HD_CONNECTION)]),
        (CHR ''t'', [(''user-agen'', HD_USER_AGENT)]),
        (CHR ''y'', [('':authorit'', HD__AUTHORITY)])]),
     (12, [(CHR ''e'', [(''content-typ'', HD_CONTENT_TYPE)])]),
     (13, [(CHR ''l'', [(''cache-contro'', HD_CACHE_CONTROL)])]),
     (14, [(CHR ''h'', [(''content-lengt'', HD_CONTENT_LENGTH)]),
        (CHR ''s'', [(''http2-setting'', HD_HTTP2_SETTINGS)])])]"

definition tokens_15_20 :: "header_token name_cases" where
  "tokens_15_20 =
    [(15, [(CHR ''e'', [(''accept-languag'', HD_ACCEPT_LANGUAGE)]),
        (CHR ''g'', [(''accept-encodin'', HD_ACCEPT_ENCODING)]),
        (CHR ''r'', [(''x-forwarded-fo'', HD_X_FORWARDED_FOR)])]),
     (16, [(CHR ''n'', [(''proxy-connectio'', HD_PROXY_CONNECTION)])]),
     (17, [(CHR ''e'', [(''if-modified-sinc'', HD_IF_MODIFIED_SINCE)]),
        (CHR ''g'', [(''transfer-encodin'', HD_TRANSFER_ENCODING)]),
        (CHR ''o'', [(''x-forwarded-prot'', HD_X_FORWARDED_PROTO)]),
        (CHR ''y'', [(''sec-websocket-ke'', HD_SEC_WEBSOCKET_KEY)])]),
     (20, [(CHR ''t'', [(''sec-websocket-accep'', HD_SEC_WEBSOCKET_ACCEPT)])])]"

text \<open>\<^term>\<open>None\<close> is the result -1.\<close>

definition lookup_token :: "string \<Rightarrow> header_token option" where
  "lookup_token name = switch_name (tokens_2_7 @ tokens_8_14 @ tokens_15_20) name"

section \<open>Methods\<close>

datatype http_method =
  HTTP_DELETE | HTTP_GET | HTTP_HEAD | HTTP_POST | HTTP_PUT | HTTP_CONNECT | HTTP_OPTIONS | HTTP_TRACE
  | HTTP_COPY | HTTP_LOCK | HTTP_MKCOL | HTTP_MOVE | HTTP_PROPFIND | HTTP_PROPPATCH | HTTP_SEARCH
  | HTTP_UNLOCK | HTTP_BIND | HTTP_REBIND | HTTP_UNBIND | HTTP_ACL | HTTP_REPORT | HTTP_MKACTIVITY
  | HTTP_CHECKOUT | HTTP_MERGE | HTTP_MSEARCH | HTTP_NOTIFY | HTTP_SUBSCRIBE | HTTP_UNSUBSCRIBE | HTTP_PATCH
  | HTTP_PURGE | HTTP_MKCALENDAR | HTTP_LINK | HTTP_UNLINK | HTTP_SOURCE

definition methods_3_5 :: "http_method name_cases" where
  "methods_3_5 =
    [(3, [(CHR ''L'', [(''AC'', HTTP_ACL)]),
        (CHR ''T'', [(''GE'', HTTP_GET), (''PU'', HTTP_PUT)])]),
     (4, [(CHR ''D'', [(''BIN'', HTTP_BIND), (''HEA'', HTTP_HEAD)]),
        (CHR ''E'', [(''MOV'', HTTP_MOVE)]),
        (CHR ''K'', [(''LIN'', HTTP_LINK), (''LOC'', HTTP_LOCK)]),
        (CHR ''T'', [(''POS'', HTTP_POST)]),
        (CHR ''Y'', [(''COP'', HTTP_COPY)])]),
     (5, [(CHR ''E'', [(''MERG'', HTTP_MERGE), (''PURG'', HTTP_PURGE), (''TRAC'', HTTP_TRACE)]),
        (CHR ''H'', [(''PATC'', HTTP_PATCH)]),
        (CHR ''L'', [(''MKCO'', HTTP_MKCOL)])])]"

definition methods_6_11 :: "http_method name_cases" where
  "methods_6_11 =
    [(6, [(CHR ''D'', [(''REBIN'', HTTP_REBIND), (''UNBIN'', HTTP_UNBIND)]),
        (CHR ''E'', [(''DELET'', HTTP_DELETE), (''SOURC'', HTTP_SOURCE)]),
        (CHR ''H'', [(''SEARC'', HTTP_SEARCH)]),
        (CHR ''K'', [(''UNLIN'', HTTP_UNLINK), (''UNLOC'', HTTP_UNLOCK)]),
        (CHR ''T'', [(''REPOR'', HTTP_REPORT)]),
        (CHR ''Y'', [(''NOTIF'', HTTP_NOTIFY)])]),
     (7, [(CHR ''H'', [(''MSEARC'', HTTP_MSEARCH)]),
        (CHR ''S'', [(''OPTION'', HTTP_OPTIONS)]),
        (CHR ''T'', [(''CONNEC'', HTTP_CONNECT)])]),
     (8, [(CHR ''D'', [(''PROPFIN'', HTTP_PROPFIND)]),
        (CHR ''T'', [(''CHECKOU'', HTTP_CHECKOUT)])]),
     (9, [(CHR ''E'', [(''SUBSCRIB'', HTTP_SUBSCRIBE)]),
        (CHR ''H'', [(''PROPPATC'', HTTP_PROPPATCH)])]),
     (10, [(CHR ''R'', [(''MKCALENDA'', HTTP_MKCALENDAR)]),
        (CHR ''Y'', [(''MKACTIVIT'', HTTP_MKACTIVITY)])]),
     (11, [(CHR ''E'', [(''UNSUBSCRIB'', HTTP_UNSUBSCRIBE)])])]"

definition lookup_method_token :: "string \<Rightarrow> http_method option" where
  "lookup_method_token name = switch_name (methods_3_5 @ methods_6_11) name"

text \<open>\<^verbatim>\<open>llhttp_method_name\<close>: the method names as they appear in a request (\<^verbatim>\<open>HTTP_METHOD_MAP\<close> of \<^verbatim>\<open>llhttp.h\<close>).\<close>

fun to_method_string :: "http_method \<Rightarrow> string" where
  "to_method_string HTTP_DELETE = ''DELETE''"
| "to_method_string HTTP_GET = ''GET''"
| "to_method_string HTTP_HEAD = ''HEAD''"
| "to_method_string HTTP_POST = ''POST''"
| "to_method_string HTTP_PUT = ''PUT''"
| "to_method_string HTTP_CONNECT = ''CONNECT''"
| "to_method_string HTTP_OPTIONS = ''OPTIONS''"
| "to_method_string HTTP_TRACE = ''TRACE''"
| "to_method_string HTTP_COPY = ''COPY''"
| "to_method_string HTTP_LOCK = ''LOCK''"
| "to_method_string HTTP_MKCOL = ''MKCOL''"
| "to_method_string HTTP_MOVE = ''MOVE''"
| "to_method_string HTTP_PROPFIND = ''PROPFIND''"
| "to_method_string HTTP_PROPPATCH = ''PROPPATCH''"
| "to_method_string HTTP_SEARCH = ''SEARCH''"
| "to_method_string HTTP_UNLOCK = ''UNLOCK''"
| "to_method_string HTTP_BIND = ''BIND''"
| "to_method_string HTTP_REBIND = ''REBIND''"
| "to_method_string HTTP_UNBIND = ''UNBIND''"
| "to_method_string HTTP_ACL = ''ACL''"
| "to_method_string HTTP_REPORT = ''REPORT''"
| "to_method_string HTTP_MKACTIVITY = ''MKACTIVITY''"
| "to_method_string HTTP_CHECKOUT = ''CHECKOUT''"
| "to_method_string HTTP_MERGE = ''MERGE''"
| "to_method_string HTTP_MSEARCH = ''M-SEARCH''"
| "to_method_string HTTP_NOTIFY = ''NOTIFY''"
| "to_method_string HTTP_SUBSCRIBE = ''SUBSCRIBE''"
| "to_method_string HTTP_UNSUBSCRIBE = ''UNSUBSCRIBE''"
| "to_method_string HTTP_PATCH = ''PATCH''"
| "to_method_string HTTP_PURGE = ''PURGE''"
| "to_method_string HTTP_MKCALENDAR = ''MKCALENDAR''"
| "to_method_string HTTP_LINK = ''LINK''"
| "to_method_string HTTP_UNLINK = ''UNLINK''"
| "to_method_string HTTP_SOURCE = ''SOURCE''"

section \<open>The names\<close>

text \<open>The name each enumerator stands for.\<close>

fun token_name :: "header_token \<Rightarrow> string" where
  "token_name HD__AUTHORITY = '':authority''"
| "token_name HD__HOST = '':host''"
| "token_name HD__METHOD = '':method''"
| "token_name HD__PATH = '':path''"
| "token_name HD__PROTOCOL = '':protocol''"
| "token_name HD__SCHEME = '':scheme''"
| "token_name HD__STATUS = '':status''"
| "token_name HD_ACCEPT_ENCODING = ''accept-encoding''"
| "token_name HD_ACCEPT_LANGUAGE = ''accept-language''"
| "token_name HD_ALT_SVC = ''alt-svc''"
| "token_name HD_CACHE_CONTROL = ''cache-control''"
| "token_name HD_CONNECTION = ''connection''"
| "token_name HD_CONTENT_LENGTH = ''content-length''"
| "token_name HD_CONTENT_TYPE = ''content-type''"
| "token_name HD_COOKIE = ''cookie''"
| "token_name HD_DATE = ''date''"
| "token_name HD_EARLY_DATA = ''early-data''"
| "token_name HD_EXPECT = ''expect''"
| "token_name HD_FORWARDED = ''forwarded''"
| "token_name HD_HOST = ''host''"
| "token_name HD_HTTP2_SETTINGS = ''http2-settings''"
| "token_name HD_IF_MODIFIED_SINCE = ''if-modified-since''"
| "token_name HD_KEEP_ALIVE = ''keep-alive''"
| "token_name HD_LINK = ''link''"
| "token_name HD_LOCATION = ''location''"
| "token_name HD_PROXY_CONNECTION = ''proxy-connection''"
| "token_name HD_SEC_WEBSOCKET_ACCEPT = ''sec-websocket-accept''"
| "token_name HD_SEC_WEBSOCKET_KEY = ''sec-websocket-key''"
| "token_name HD_SERVER = ''server''"
| "token_name HD_TE = ''te''"
| "token_name HD_TRAILER = ''trailer''"
| "token_name HD_TRANSFER_ENCODING = ''transfer-encoding''"
| "token_name HD_UPGRADE = ''upgrade''"
| "token_name HD_USER_AGENT = ''user-agent''"
| "token_name HD_VIA = ''via''"
| "token_name HD_X_FORWARDED_FOR = ''x-forwarded-for''"
| "token_name HD_X_FORWARDED_PROTO = ''x-forwarded-proto''"

interpretation hd: name_switch "tokens_2_7 @ tokens_8_14 @ tokens_15_20"
  by unfold_locales code_simp

interpretation mt: name_switch "methods_3_5 @ methods_6_11"
  by unfold_locales code_simp

lemma header_names: "list_all (\<lambda>(name, t). token_name t = name) (switch_names (tokens_2_7 @ tokens_8_14 @ tokens_15_20))"
  by code_simp

lemma method_names: "list_all (\<lambda>(name, t). name = (if t = HTTP_MSEARCH then ''MSEARCH'' else to_method_string t))
    (switch_names (methods_3_5 @ methods_6_11))"
  by code_simp

lemma token_name_listed: "(token_name t, t) \<in> set (switch_names (tokens_2_7 @ tokens_8_14 @ tokens_15_20))"
  by (cases t) (simp_all add: switch_names_def tokens_2_7_def tokens_8_14_def tokens_15_20_def)

lemma lookup_token_name: "lookup_token (token_name t) = Some t"
  using token_name_listed by (simp add: lookup_token_def hd.switch_name_iff)

lemma lookup_token_SomeD: "lookup_token name = Some t \<Longrightarrow> name = token_name t"
  using header_names by (auto simp: lookup_token_def hd.switch_name_iff list_all_iff)

text \<open>C31. The generated switch for header names is a lookup in the table of names: it recognises exactly the names
  of its enumerators, each as its own enumerator, and every other byte string, of any length, as none of them.\<close>

theorem lookup_token_correct: "lookup_token name = Some t \<longleftrightarrow> name = token_name t"
  by (auto simp: lookup_token_name dest: lookup_token_SomeD)

text \<open>The switch for methods recognises the names of \<^verbatim>\<open>llhttp\<close> with one exception: \<^verbatim>\<open>M-SEARCH\<close> is compared without its hyphen.\<close>

lemma lookup_method_token_correct:
  "lookup_method_token name = Some t \<longleftrightarrow> name = (if t = HTTP_MSEARCH then ''MSEARCH'' else to_method_string t)"
proof
  assume "lookup_method_token name = Some t"
  then have "(name, t) \<in> set (switch_names (methods_3_5 @ methods_6_11))"
    by (simp add: lookup_method_token_def mt.switch_name_iff)
  then show "name = (if t = HTTP_MSEARCH then ''MSEARCH'' else to_method_string t)"
    using method_names by (auto simp: list_all_iff)
next
  assume n: "name = (if t = HTTP_MSEARCH then ''MSEARCH'' else to_method_string t)"
  have "((if t = HTTP_MSEARCH then ''MSEARCH'' else to_method_string t), t) \<in> set (switch_names (methods_3_5 @ methods_6_11))"
    by (cases t) (simp_all add: switch_names_def methods_3_5_def methods_6_11_def)
  then show "lookup_method_token name = Some t" using n by (simp add: lookup_method_token_def mt.switch_name_iff)
qed

end
