(* ===== verification/Http2_Handler.thy ===== *)
theory Http2_Handler
  imports Config_Schema Serve_Mux Base_Handler Header_Token
begin

text \<open>
  The HTTP/2 protocol handler of a connection (\<^verbatim>\<open>asio_server_http2_handler.cc\<close> and \<^verbatim>\<open>.h\<close>): the callbacks of the
  nghttp2 session that assemble requests, the responses, trailers, errors and pushed streams submitted to it,
  and the transfer of its output to the connection's buffer.

  The session is third-party code. What the handler asks of it is logged in \<open>h2_calls\<close>, in order, and so are the
  answers to its requests for the body of a response (\<open>Body_Read\<close>: return value, bytes and flags); the
  argument \<open>session_rv\<close> gives the return value of a call after the earlier ones. What the session asks of the
  handler are values of \<open>session_event\<close>: receiving or sending a piece is an argument that gives the events it
  causes and its result, from the state of the session and the calls made so far.
\<close>

section \<open>Calls of the session\<close>

text \<open>A header field handed to the session.\<close>

record nghttp2_nv =
  nv_name :: string
  nv_value :: string
  nv_no_index :: bool

definition make_nv :: "string \<Rightarrow> string \<Rightarrow> bool \<Rightarrow> nghttp2_nv" where
  "make_nv name value no_index = \<lparr>nv_name = name, nv_value = value, nv_no_index = no_index\<rparr>"

definition make_nv_ls :: "string \<Rightarrow> string \<Rightarrow> nghttp2_nv" where
  "make_nv_ls name value = \<lparr>nv_name = name, nv_value = value, nv_no_index = False\<rparr>"

datatype settings_id = SETTINGS_HEADER_TABLE_SIZE | SETTINGS_MAX_CONCURRENT_STREAMS | SETTINGS_INITIAL_WINDOW_SIZE

datatype session_call =
    Callbacks_New
  | Option_New
  | Option_Set_Max_Deflate_Table_Size u64
  | Session_Server_New
  | Submit_Settings "(settings_id \<times> u32) list"
  | Set_Local_Window_Size int
  | Submit_Response int "nghttp2_nv list" bool
  | Submit_Trailer_Fields int "nghttp2_nv list"
  | Submit_Rst_Stream int u32
  | Submit_Push_Promise int "nghttp2_nv list"
  | Resume_Data int
  | Body_Read int int string u32

type_synonym session_rv = "session_call list \<Rightarrow> session_call \<Rightarrow> int"

section \<open>The handler\<close>

text \<open>\<open>h2_buf\<close> is what \<^verbatim>\<open>buf_\<close> and \<^verbatim>\<open>buflen_\<close> point to, output of the session that did not fit the last buffer.\<close>

record http2_handler =
  h2_streams :: streams
  h2_inside_callback :: bool
  h2_write_signaled :: bool
  h2_posted :: nat
  h2_writefun :: bool
  h2_buf :: "string option"
  h2_date :: "int \<times> string"
  h2_calls :: "session_call list"

definition http2_handler_init :: "int \<times> string \<Rightarrow> http2_handler" where
  "http2_handler_init date = \<lparr>h2_streams = [], h2_inside_callback = False, h2_write_signaled = False, h2_posted = 0,
     h2_writefun = True, h2_buf = None, h2_date = date, h2_calls = []\<rparr>"

definition http2_handler_destroy :: "http2_handler \<Rightarrow> (int \<times> handler_call) list" where
  "http2_handler_destroy h = concat (map (\<lambda>(stream_id, s). map (Pair stream_id)
     (snd (call_on_close NGHTTP2_INTERNAL_ERROR (st_response s)))) (h2_streams h))"

definition ask :: "session_call \<Rightarrow> http2_handler \<Rightarrow> http2_handler" where
  "ask c h = h\<lparr>h2_calls := h2_calls h @ [c]\<rparr>"

definition h2_signal_write :: "http2_handler \<Rightarrow> http2_handler" where
  "h2_signal_write h =
     (if \<not> h2_inside_callback h \<and> \<not> h2_write_signaled h
      then h\<lparr>h2_write_signaled := True, h2_posted := h2_posted h + 1\<rparr> else h)"

definition h2_initiate_write :: "http2_handler \<Rightarrow> bool \<times> http2_handler" where
  "h2_initiate_write h = (h2_writefun h, h\<lparr>h2_write_signaled := False\<rparr>)"

definition h2_reset_writefun :: "http2_handler \<Rightarrow> http2_handler" where
  "h2_reset_writefun h = h\<lparr>h2_writefun := False\<rparr>"

definition h2_enter_callback :: "http2_handler \<Rightarrow> http2_handler result" where
  "h2_enter_callback h = (if h2_inside_callback h then Inl Assertion else Inr (h\<lparr>h2_inside_callback := True\<rparr>))"

definition h2_leave_callback :: "http2_handler \<Rightarrow> http2_handler result" where
  "h2_leave_callback h = (if h2_inside_callback h then Inr (h\<lparr>h2_inside_callback := False\<rparr>) else Inl Assertion)"

text \<open>\<^verbatim>\<open>(1 << bits) - 1\<close> in an \<^verbatim>\<open>int\<close>; from 31 bits on the shift is undefined.\<close>

definition window_of_bits :: "u64 \<Rightarrow> u32 result" where
  "window_of_bits bits = (if 31 \<le> bits then Inl Assertion else Inr (push_bit (unat bits) 1 - 1))"

definition h2_settings :: "H2Server_Config_Schema \<Rightarrow> u32 \<Rightarrow> (settings_id \<times> u32) list" where
  "h2_settings conf window =
     [(SETTINGS_INITIAL_WINDOW_SIZE, window), (SETTINGS_MAX_CONCURRENT_STREAMS, max_concurrent_streams conf)]
     @ (if header_table_size conf \<noteq> 4096 then [(SETTINGS_HEADER_TABLE_SIZE, ucast (header_table_size conf))] else [])"

definition h2_start :: "session_rv \<Rightarrow> H2Server_Config_Schema \<Rightarrow> http2_handler \<Rightarrow> (int \<times> http2_handler) result" where
  "h2_start session_rv conf h =
     (let h1 = ask Callbacks_New h
      in if session_rv (h2_calls h) Callbacks_New \<noteq> 0 then Inr (- 1, h1)
         else if session_rv (h2_calls h1) Option_New \<noteq> 0 then Inl Assertion
         else let h2 = ask Option_New h1;
                  h3 = (if encoder_header_table_size conf \<noteq> 4096
                        then ask (Option_Set_Max_Deflate_Table_Size (encoder_header_table_size conf)) h2 else h2);
                  h4 = ask Session_Server_New h3
              in if session_rv (h2_calls h3) Session_Server_New \<noteq> 0 then Inr (- 1, h4)
                 else rbind (window_of_bits (window_bits conf)) (\<lambda>window.
                        rbind (window_of_bits (connection_window_bits conf)) (\<lambda>connection_window.
                          Inr (0, ask (Set_Local_Window_Size (uint connection_window))
                                    (ask (Submit_Settings (h2_settings conf window)) h4)))))"

section \<open>Responses\<close>

text \<open>The header fields of a response: status, date, and the fields of the application.\<close>

definition response_fields :: "string \<Rightarrow> asio_server_response \<Rightarrow> nghttp2_nv list" where
  "response_fields date res =
     make_nv_ls '':status'' (nat_dec (rp_status_code res)) # make_nv_ls ''date'' date
     # map (\<lambda>(name, v). make_nv name (hv_value v) (hv_sensitive v)) (rp_header res)"

definition trailer_fields :: "header_map \<Rightarrow> nghttp2_nv list" where
  "trailer_fields h = map (\<lambda>(name, v). make_nv name (hv_value v) (hv_sensitive v)) h"

text \<open>The session reads the body from the stream when the response has one.\<close>

definition response_call :: "string \<Rightarrow> int \<Rightarrow> string \<Rightarrow> asio_server_response \<Rightarrow> session_call" where
  "response_call date stream_id meth res =
     Submit_Response stream_id (response_fields date res) (expect_response_body_for meth (rp_status_code res))"

definition refresh_date :: "(int \<Rightarrow> string) \<Rightarrow> int \<Rightarrow> http2_handler \<Rightarrow> string \<times> http2_handler" where
  "refresh_date format_date now h =
     (let (text, cache) = http_date format_date now (h2_date h) in (text, h\<lparr>h2_date := cache\<rparr>))"

definition h2_start_response ::
    "session_rv \<Rightarrow> (int \<Rightarrow> string) \<Rightarrow> int \<Rightarrow> int \<Rightarrow> string \<Rightarrow> asio_server_response \<Rightarrow> http2_handler \<Rightarrow> int \<times> http2_handler" where
  "h2_start_response session_rv format_date now stream_id meth res h =
     (let (date, h1) = refresh_date format_date now h;
          c = response_call date stream_id meth res
      in if session_rv (h2_calls h1) c \<noteq> 0 then (- 1, ask c h1) else (0, h2_signal_write (ask c h1)))"

definition h2_submit_trailer :: "session_rv \<Rightarrow> int \<Rightarrow> header_map \<Rightarrow> http2_handler \<Rightarrow> int \<times> http2_handler" where
  "h2_submit_trailer session_rv stream_id t h =
     (let c = Submit_Trailer_Fields stream_id (trailer_fields t)
      in if session_rv (h2_calls h) c \<noteq> 0 then (- 1, ask c h) else (0, h2_signal_write (ask c h)))"

definition h2_stream_error :: "int \<Rightarrow> u32 \<Rightarrow> http2_handler \<Rightarrow> http2_handler" where
  "h2_stream_error stream_id error_code h = h2_signal_write (ask (Submit_Rst_Stream stream_id error_code) h)"

definition h2_resume :: "int \<Rightarrow> http2_handler \<Rightarrow> http2_handler" where
  "h2_resume stream_id h = h2_signal_write (ask (Resume_Data stream_id) h)"

text \<open>The calls a response makes of its handler. The header and the status of the response are fixed when it
  starts.\<close>

fun h2_exec_call :: "session_rv \<Rightarrow> (int \<Rightarrow> string) \<Rightarrow> int \<Rightarrow> int \<Rightarrow> string \<Rightarrow> asio_server_response
    \<Rightarrow> handler_call \<Rightarrow> http2_handler \<Rightarrow> http2_handler" where
  "h2_exec_call session_rv fd now stream_id meth res Start_Response h =
     snd (h2_start_response session_rv fd now stream_id meth res h)"
| "h2_exec_call session_rv fd now stream_id meth res (Submit_Trailer t) h = snd (h2_submit_trailer session_rv stream_id t h)"
| "h2_exec_call session_rv fd now stream_id meth res (Stream_Error e) h = h2_stream_error stream_id e h"
| "h2_exec_call session_rv fd now stream_id meth res Resume h = h2_resume stream_id h"
| "h2_exec_call session_rv fd now stream_id meth res (Call_On_Close e) h = h"

definition h2_update_stream :: "int \<Rightarrow> server_stream \<Rightarrow> http2_handler \<Rightarrow> http2_handler" where
  "h2_update_stream stream_id s h = h\<lparr>h2_streams := map_assign (<) stream_id s (h2_streams h)\<rparr>"

text \<open>An operation on the response of an open stream. Its argument is what \<^verbatim>\<open>start_response\<close> returns if the operation
  starts the response, which is then its first call.\<close>

definition h2_respond :: "session_rv \<Rightarrow> (int \<Rightarrow> string) \<Rightarrow> int \<Rightarrow> int \<Rightarrow> (int \<Rightarrow> asio_server_response \<Rightarrow> response_step)
    \<Rightarrow> http2_handler \<Rightarrow> http2_handler result" where
  "h2_respond session_rv fd now stream_id f h =
     (case find_stream stream_id (h2_streams h) of
        None \<Rightarrow> Inl Null_Pointer
      | Some s \<Rightarrow>
          let meth = req_method (st_request s);
              (res0, _) = f 0 (st_response s);
              rv = fst (h2_start_response session_rv fd now stream_id meth res0 h);
              (res, calls) = f rv (st_response s)
          in Inr (fold (h2_exec_call session_rv fd now stream_id meth res) calls
                    (h2_update_stream stream_id (s\<lparr>st_response := res\<rparr>) h)))"

fun h2_run_action :: "session_rv \<Rightarrow> (int \<Rightarrow> string) \<Rightarrow> int \<Rightarrow> int \<Rightarrow> app_action \<Rightarrow> http2_handler \<Rightarrow> http2_handler result" where
  "h2_run_action session_rv fd now stream_id (Answer f) h = h2_respond session_rv fd now stream_id f h"
| "h2_run_action session_rv fd now stream_id Close_Stream h = Inr (h\<lparr>h2_streams := close_stream stream_id (h2_streams h)\<rparr>)"
| "h2_run_action session_rv fd now stream_id Later h = Inr h"

definition h2_call_on_request ::
    "('cb, 'w) application \<Rightarrow> 'cb serve_mux \<Rightarrow> session_rv \<Rightarrow> (int \<Rightarrow> string) \<Rightarrow> int \<Rightarrow> int \<Rightarrow> server_stream
      \<Rightarrow> 'w \<times> http2_handler \<Rightarrow> ('w \<times> http2_handler) result" where
  "h2_call_on_request app mux session_rv fd now stream_id strm wh =
     rbind (mux_handler mux (st_request strm)) (\<lambda>cb.
       let meth = req_method (st_request strm)
       in rbind (case cb of
               App f \<Rightarrow> app f (st_request strm) stream_id (fst wh)
             | Redirect_Handler code uri \<Rightarrow> Inr (Answer (\<lambda>rv. redirect_handler rv code uri meth), fst wh)
             | Status_Handler code \<Rightarrow> Inr (Answer (\<lambda>rv. status_handler rv code meth), fst wh))
            (\<lambda>(act, w). rbind (h2_run_action session_rv fd now stream_id act (snd wh)) (\<lambda>h. Inr (w, h))))"

section \<open>Requests\<close>

definition split_path :: "string \<Rightarrow> uri_ref \<Rightarrow> uri_ref" where
  "split_path s uri =
     (let path = takeWhile (\<lambda>c. c \<noteq> CHR ''?'') s
      in uri\<lparr>uri_path := percent_decode path, uri_raw_path := path, uri_raw_query := drop (Suc (length path)) s\<rparr>)"

datatype frame_type = FRAME_DATA | FRAME_HEADERS | FRAME_PUSH_PROMISE | FRAME_OTHER

record nghttp2_frame =
  fr_type :: frame_type
  fr_stream_id :: int
  fr_end_stream :: bool
  fr_cat_request :: bool
  fr_promised_stream_id :: int

abbreviation request_head :: "nghttp2_frame \<Rightarrow> bool" where
  "request_head frame \<equiv> fr_type frame = FRAME_HEADERS \<and> fr_cat_request frame"

definition on_begin_headers_callback :: "nghttp2_frame \<Rightarrow> http2_handler \<Rightarrow> http2_handler result" where
  "on_begin_headers_callback frame h =
     (if \<not> request_head frame then Inr h
      else rbind (create_stream (fr_stream_id frame) (h2_streams h)) (\<lambda>ss. Inr (h\<lparr>h2_streams := ss\<rparr>)))"

text \<open>A field of the application's header, within a limit of 64 KB for all of them; \<^term>\<open>None\<close> when it is exceeded.\<close>

definition add_field :: "string \<Rightarrow> string \<Rightarrow> bool \<Rightarrow> asio_server_request \<Rightarrow> asio_server_request option" where
  "add_field name value no_index req =
     (if 64 * 1024 < req_header_buffer_size req + length name + length value then None
      else Some ((update_header_buffer_size (length name + length value) req)\<lparr>req_header :=
                   header_emplace name \<lparr>hv_value = value, hv_sensitive = no_index\<rparr> (req_header req)\<rparr>))"

definition on_header_field :: "string \<Rightarrow> string \<Rightarrow> bool \<Rightarrow> asio_server_request \<Rightarrow> asio_server_request option" where
  "on_header_field name value no_index req =
     (let uri = req_uri req
      in case lookup_token name of
           Some HD__METHOD \<Rightarrow> Some (req\<lparr>req_method := value\<rparr>)
         | Some HD__SCHEME \<Rightarrow> Some (req\<lparr>req_uri := uri\<lparr>uri_scheme := value\<rparr>\<rparr>)
         | Some HD__AUTHORITY \<Rightarrow> Some (req\<lparr>req_uri := uri\<lparr>uri_host := value\<rparr>\<rparr>)
         | Some HD__PATH \<Rightarrow> Some (req\<lparr>req_uri := split_path value uri\<rparr>)
         | Some HD_HOST \<Rightarrow>
             add_field name value no_index
               (if uri_host uri = [] then req\<lparr>req_uri := uri\<lparr>uri_host := value\<rparr>\<rparr> else req)
         | _ \<Rightarrow> add_field name value no_index req)"

text \<open>A field beyond the limit resets the stream; the host it may have set is kept.\<close>

definition on_header_callback :: "nghttp2_frame \<Rightarrow> string \<Rightarrow> string \<Rightarrow> bool \<Rightarrow> http2_handler \<Rightarrow> http2_handler" where
  "on_header_callback frame name value no_index h =
     (if \<not> request_head frame then h
      else case find_stream (fr_stream_id frame) (h2_streams h) of
             None \<Rightarrow> h
           | Some s \<Rightarrow>
               (case on_header_field name value no_index (st_request s) of
                  Some req \<Rightarrow> h2_update_stream (fr_stream_id frame) (s\<lparr>st_request := req\<rparr>) h
                | None \<Rightarrow>
                    let uri = req_uri (st_request s);
                        req = (if lookup_token name = Some HD_HOST \<and> uri_host uri = []
                               then (st_request s)\<lparr>req_uri := uri\<lparr>uri_host := value\<rparr>\<rparr> else st_request s)
                    in ask (Submit_Rst_Stream (fr_stream_id frame) NGHTTP2_INTERNAL_ERROR)
                         (h2_update_stream (fr_stream_id frame) (s\<lparr>st_request := req\<rparr>) h)))"

definition on_frame_recv_callback ::
    "('cb, 'w) application \<Rightarrow> 'cb serve_mux \<Rightarrow> session_rv \<Rightarrow> (int \<Rightarrow> string) \<Rightarrow> int \<Rightarrow> nghttp2_frame
      \<Rightarrow> 'w \<times> http2_handler \<Rightarrow> ('w \<times> http2_handler) result" where
  "on_frame_recv_callback app mux session_rv fd now frame wh =
     (case find_stream (fr_stream_id frame) (h2_streams (snd wh)) of
        None \<Rightarrow> Inr wh
      | Some s \<Rightarrow>
          if (fr_type frame = FRAME_DATA \<or> request_head frame) \<and> fr_end_stream frame
          then h2_call_on_request app mux session_rv fd now (fr_stream_id frame) s wh else Inr wh)"

definition on_data_chunk_recv_callback :: "int \<Rightarrow> string \<Rightarrow> http2_handler \<Rightarrow> http2_handler" where
  "on_data_chunk_recv_callback stream_id data h =
     (case find_stream stream_id (h2_streams h) of
        None \<Rightarrow> h
      | Some s \<Rightarrow> h2_update_stream stream_id
          (s\<lparr>st_request := (st_request s)\<lparr>req_payload := req_payload (st_request s) @ data\<rparr>\<rparr>) h)"

definition on_stream_close_callback :: "int \<Rightarrow> http2_handler \<Rightarrow> http2_handler" where
  "on_stream_close_callback stream_id h =
     (case find_stream stream_id (h2_streams h) of
        None \<Rightarrow> h
      | Some s \<Rightarrow> h\<lparr>h2_streams := close_stream stream_id (h2_streams h)\<rparr>)"

definition on_frame_send_callback ::
    "session_rv \<Rightarrow> (int \<Rightarrow> string) \<Rightarrow> int \<Rightarrow> nghttp2_frame \<Rightarrow> http2_handler \<Rightarrow> http2_handler result" where
  "on_frame_send_callback session_rv fd now frame h =
     (if fr_type frame \<noteq> FRAME_PUSH_PROMISE then Inr h
      else case find_stream (fr_promised_stream_id frame) (h2_streams h) of
             None \<Rightarrow> Inr h
           | Some s \<Rightarrow> h2_respond session_rv fd now (fr_promised_stream_id frame)
               (\<lambda>rv. push_promise_sent rv (req_method (st_request s))) h)"

definition on_frame_not_send_callback :: "nghttp2_frame \<Rightarrow> http2_handler \<Rightarrow> http2_handler" where
  "on_frame_not_send_callback frame h =
     (if fr_type frame \<noteq> FRAME_HEADERS then h
      else ask (Submit_Rst_Stream (fr_stream_id frame) NGHTTP2_INTERNAL_ERROR) h)"

text \<open>The read callback of a body: \<open>len\<close> bytes are asked for.\<close>

definition read_callback :: "session_rv \<Rightarrow> (int \<Rightarrow> string) \<Rightarrow> int \<Rightarrow> int \<Rightarrow> nat \<Rightarrow> http2_handler \<Rightarrow> http2_handler result" where
  "read_callback session_rv fd now stream_id len h =
     (case find_stream stream_id (h2_streams h) of
        None \<Rightarrow> Inl Null_Pointer
      | Some s \<Rightarrow>
          let rd = call_read len 0 (st_response s)
          in rbind (h2_respond session_rv fd now stream_id (\<lambda>_ _. (rd_response rd, rd_calls rd)) h) (\<lambda>h'.
               Inr (ask (Body_Read stream_id (rd_ret rd) (rd_bytes rd) (rd_flags rd)) h')))"

definition push_promise ::
    "session_rv \<Rightarrow> int \<Rightarrow> string \<Rightarrow> string \<Rightarrow> header_map \<Rightarrow> http2_handler \<Rightarrow> (int option \<times> http2_handler) result" where
  "push_promise session_rv stream_id meth raw_path_query hs h =
     (case find_stream stream_id (h2_streams h) of
        None \<Rightarrow> Inl Null_Pointer
      | Some s \<Rightarrow>
          let uri = req_uri (st_request s);
              c = Submit_Push_Promise stream_id
                    ([make_nv_ls '':method'' meth, make_nv_ls '':scheme'' (uri_scheme uri),
                      make_nv_ls '':authority'' (uri_host uri), make_nv_ls '':path'' raw_path_query] @ trailer_fields hs);
              rv = session_rv (h2_calls h) c;
              h1 = ask c h
          in if rv < 0 then Inr (None, h1)
             else rbind (create_stream rv (h2_streams h1)) (\<lambda>ss.
               let promised = \<lparr>st_request = asio_server_request_init\<lparr>req_header := hs, req_method := meth,
                     req_uri := split_path raw_path_query (empty_uri\<lparr>uri_scheme := uri_scheme uri, uri_host := uri_host uri\<rparr>)\<rparr>,
                     st_response = asio_server_response_init\<lparr>rp_pushed := True\<rparr>\<rparr>
               in Inr (Some rv, h2_signal_write (h2_update_stream rv promised (h1\<lparr>h2_streams := ss\<rparr>)))))"

section \<open>Receiving and sending\<close>

datatype session_event =
    On_Begin_Headers nghttp2_frame
  | On_Header nghttp2_frame string string bool
  | On_Frame_Recv nghttp2_frame
  | On_Data_Chunk_Recv int string
  | On_Stream_Close int u32
  | On_Frame_Send nghttp2_frame
  | On_Frame_Not_Send nghttp2_frame
  | On_Read_Body int nat

fun session_callback ::
    "('cb, 'w) application \<Rightarrow> 'cb serve_mux \<Rightarrow> session_rv \<Rightarrow> (int \<Rightarrow> string) \<Rightarrow> int \<Rightarrow> session_event
      \<Rightarrow> 'w \<times> http2_handler \<Rightarrow> ('w \<times> http2_handler) result" where
  "session_callback app mux session_rv fd now (On_Begin_Headers frame) (w, h) =
     rbind (on_begin_headers_callback frame h) (\<lambda>h'. Inr (w, h'))"
| "session_callback app mux session_rv fd now (On_Header frame name value no_index) (w, h) =
     Inr (w, on_header_callback frame name value no_index h)"
| "session_callback app mux session_rv fd now (On_Frame_Recv frame) (w, h) =
     on_frame_recv_callback app mux session_rv fd now frame (w, h)"
| "session_callback app mux session_rv fd now (On_Data_Chunk_Recv stream_id data) (w, h) =
     Inr (w, on_data_chunk_recv_callback stream_id data h)"
| "session_callback app mux session_rv fd now (On_Stream_Close stream_id error_code) (w, h) =
     Inr (w, on_stream_close_callback stream_id h)"
| "session_callback app mux session_rv fd now (On_Frame_Send frame) (w, h) =
     rbind (on_frame_send_callback session_rv fd now frame h) (\<lambda>h'. Inr (w, h'))"
| "session_callback app mux session_rv fd now (On_Frame_Not_Send frame) (w, h) =
     Inr (w, on_frame_not_send_callback frame h)"
| "session_callback app mux session_rv fd now (On_Read_Body stream_id len) (w, h) =
     rbind (read_callback session_rv fd now stream_id len h) (\<lambda>h'. Inr (w, h'))"

fun session_callbacks ::
    "('cb, 'w) application \<Rightarrow> 'cb serve_mux \<Rightarrow> session_rv \<Rightarrow> (int \<Rightarrow> string) \<Rightarrow> int \<Rightarrow> session_event list
      \<Rightarrow> 'w \<times> http2_handler \<Rightarrow> ('w \<times> http2_handler) result" where
  "session_callbacks app mux session_rv fd now [] wh = Inr wh"
| "session_callbacks app mux session_rv fd now (e # es) wh =
     rbind (session_callback app mux session_rv fd now e wh) (session_callbacks app mux session_rv fd now es)"

text \<open>\<^verbatim>\<open>on_read\<close>: \<open>mem_recv\<close> gives the session afterwards, its events and the return value.\<close>

type_synonym 's mem_recv = "'s \<Rightarrow> session_call list \<Rightarrow> string \<Rightarrow> 's \<times> session_event list \<times> int"

definition h2_on_read ::
    "'s mem_recv \<Rightarrow> ('cb, 'w) application \<Rightarrow> 'cb serve_mux
      \<Rightarrow> session_rv \<Rightarrow> (int \<Rightarrow> string) \<Rightarrow> int \<Rightarrow> string \<Rightarrow> nat \<Rightarrow> 's \<times> 'w \<times> http2_handler
      \<Rightarrow> (int \<times> 's \<times> 'w \<times> http2_handler) result" where
  "h2_on_read mem_recv app mux session_rv fd now buffer len x =
     (case x of (s, w, h) \<Rightarrow>
       rbind (h2_enter_callback h) (\<lambda>h1.
         let (s', events, rv) = mem_recv s (h2_calls h1) (take len buffer)
         in rbind (session_callbacks app mux session_rv fd now events (w, h1)) (\<lambda>(w', h2).
              rbind (h2_leave_callback h2) (\<lambda>h3. Inr (if rv < 0 then -1 else 0, s', w', h3)))))"

text \<open>\<^verbatim>\<open>nghttp2_session_mem_send\<close> with the callbacks it makes: a negative error code, or the next piece of output (which
  is empty when there is none). \<open>mem_send\<close> gives the events, and the result from what the handler did in them.\<close>

type_synonym 's mem_send = "'s \<Rightarrow> session_call list \<Rightarrow> session_event list \<times> (session_call list \<Rightarrow> 's \<times> (int + string))"

definition session_send ::
    "'s mem_send \<Rightarrow> ('cb, 'w) application \<Rightarrow> 'cb serve_mux
      \<Rightarrow> session_rv \<Rightarrow> (int \<Rightarrow> string) \<Rightarrow> int \<Rightarrow> 's \<times> 'w \<times> http2_handler
      \<Rightarrow> ((int + string) \<times> 's \<times> 'w \<times> http2_handler) result" where
  "session_send mem_send app mux session_rv fd now x =
     (case x of (s, w, h) \<Rightarrow>
       let (events, answer) = mem_send s (h2_calls h)
       in rbind (session_callbacks app mux session_rv fd now events (w, h)) (\<lambda>(w', h').
            let (s', out) = answer (h2_calls h') in Inr (out, s', w', h')))"

record send_outcome =
  so_ret :: int
  so_buffer :: string
  so_len :: nat
  so_pending :: "string option"

text \<open>The loop of \<^verbatim>\<open>on_write\<close>: pieces are copied as long as they fit; one that does not is kept for the next time.\<close>

function send_loop :: "('x \<Rightarrow> ((int + string) \<times> 'x) result) \<Rightarrow> string \<Rightarrow> nat \<Rightarrow> 'x \<Rightarrow> (send_outcome \<times> 'x) result" where
  "send_loop mem_send buffer len x =
     rbind (mem_send x) (\<lambda>(out, x').
       case out of
         Inl e \<Rightarrow> Inr (\<lparr>so_ret = - 1, so_buffer = buffer, so_len = len, so_pending = None\<rparr>, x')
       | Inr data \<Rightarrow>
           if data = [] then Inr (\<lparr>so_ret = 0, so_buffer = buffer, so_len = len, so_pending = None\<rparr>, x')
           else if length buffer < len + length data
           then Inr (\<lparr>so_ret = 0, so_buffer = buffer, so_len = len, so_pending = Some data\<rparr>, x')
           else send_loop mem_send (overwrite buffer len data) (len + length data) x')"
  by pat_completeness auto

termination
  by (relation "measure (\<lambda>(mem_send, buffer, len, x). length buffer - len)")
    (auto simp: neq_Nil_conv)

declare send_loop.simps [simp del]

definition h2_send :: "('x \<Rightarrow> ((int + string) \<times> 'x) result) \<Rightarrow> string \<Rightarrow> string option \<Rightarrow> 'x \<Rightarrow> (send_outcome \<times> 'x) result" where
  "h2_send mem_send buffer pending x =
     (case pending of
        None \<Rightarrow> send_loop mem_send buffer 0 x
      | Some data \<Rightarrow>
          if length buffer < length data then Inl Out_Of_Bounds
          else send_loop mem_send (overwrite buffer 0 data) (length data) x)"

definition h2_on_write ::
    "'s mem_send \<Rightarrow> ('cb, 'w) application \<Rightarrow> 'cb serve_mux
      \<Rightarrow> session_rv \<Rightarrow> (int \<Rightarrow> string) \<Rightarrow> int \<Rightarrow> string \<Rightarrow> 's \<times> 'w \<times> http2_handler
      \<Rightarrow> (int \<times> string \<times> nat \<times> 's \<times> 'w \<times> http2_handler) result" where
  "h2_on_write mem_send app mux session_rv fd now buffer x =
     (case x of (s, w, h) \<Rightarrow>
       rbind (h2_enter_callback h) (\<lambda>h1.
         rbind (h2_send (session_send mem_send app mux session_rv fd now) buffer (h2_buf h1) (s, w, h1\<lparr>h2_buf := None\<rparr>))
           (\<lambda>(out, s', w', h2).
              rbind (h2_leave_callback (h2\<lparr>h2_buf := so_pending out\<rparr>)) (\<lambda>h3.
                Inr (so_ret out, so_buffer out, so_len out, s', w', h3)))))"

text \<open>\<open>want_read\<close> and \<open>want_write\<close> are the session's.\<close>

definition h2_should_stop :: "bool \<Rightarrow> bool \<Rightarrow> bool" where
  "h2_should_stop want_read want_write \<longleftrightarrow> \<not> want_read \<and> \<not> want_write"

end
