(* ===== verification/Http2_Request.thy ===== *)
theory Http2_Request
  imports Http2_Handler
begin

text \<open>
  A request over HTTP/2: the callbacks for its header fields and its body, in the order the session makes them, put
  together the request that the peer sent, and hand it to the application when the stream ends.
\<close>

section \<open>The request of a header and a body\<close>

text \<open>A field: name, value and whether it is not to be indexed.\<close>

type_synonym field = "string \<times> string \<times> bool"

fun last_value :: "string \<Rightarrow> string \<Rightarrow> field list \<Rightarrow> string" where
  "last_value d name [] = d"
| "last_value d name ((n, v, b) # fs) = last_value (if n = name then v else d) name fs"

definition add_fields :: "field list \<Rightarrow> header_map \<Rightarrow> header_map" where
  "add_fields fs hs = fold (\<lambda>(n, v, b). header_emplace n \<lparr>hv_value = v, hv_sensitive = b\<rparr>) fs hs"

definition fields_bytes :: "field list \<Rightarrow> nat" where
  "fields_bytes fs = sum_list (map (\<lambda>(n, v, b). length n + length v) fs)"

definition pseudo_names :: "string list" where
  "pseudo_names = ['':method'', '':scheme'', '':authority'', '':path'']"

text \<open>The authority, or the first host that is given.\<close>

fun first_host :: "string \<Rightarrow> field list \<Rightarrow> string" where
  "first_host a [] = a"
| "first_host a ((n, v, b) # fs) = first_host (if n = ''host'' \<and> a = [] then v else a) fs"

definition sent_request :: "field list \<Rightarrow> field list \<Rightarrow> string list \<Rightarrow> asio_server_request" where
  "sent_request pseudo regular chunks =
     (let target = last_value [] '':path'' pseudo;
          path = takeWhile (\<lambda>c. c \<noteq> CHR ''?'') target
      in \<lparr>req_header = add_fields regular [],
          req_method = last_value [] '':method'' pseudo,
          req_uri = \<lparr>uri_scheme = last_value [] '':scheme'' pseudo,
                     uri_host = first_host (last_value [] '':authority'' pseudo) regular,
                     uri_path = percent_decode path, uri_raw_path = path,
                     uri_raw_query = drop (Suc (length path)) target, uri_fragment = []\<rparr>,
          req_header_buffer_size = fields_bytes regular,
          req_payload = concat chunks\<rparr>)"

section \<open>Fields\<close>

text \<open>The effect of a list of fields on the request of a stream.\<close>

fun take_fields :: "field list \<Rightarrow> asio_server_request \<Rightarrow> asio_server_request option" where
  "take_fields [] req = Some req"
| "take_fields ((n, v, b) # fs) req = Option.bind (on_header_field n v b req) (take_fields fs)"

lemma take_fields_append: "take_fields (fs @ gs) req = Option.bind (take_fields fs req) (take_fields gs)"
  by (induction fs req rule: take_fields.induct) (auto split: bind_splits)

text \<open>A request of which only the pseudo-header is known.\<close>

definition request_line :: "string \<Rightarrow> string \<Rightarrow> string \<Rightarrow> string \<Rightarrow> asio_server_request" where
  "request_line m sch a p = asio_server_request_init\<lparr>req_method := m,
     req_uri := split_path p (empty_uri\<lparr>uri_scheme := sch, uri_host := a\<rparr>)\<rparr>"

lemma request_line_init: "request_line [] [] [] [] = asio_server_request_init"
  by (simp add: request_line_def asio_server_request_init_def split_path_def empty_uri_def)

lemma pseudo_token:
  "lookup_token '':method'' = Some HD__METHOD" "lookup_token '':scheme'' = Some HD__SCHEME"
  "lookup_token '':authority'' = Some HD__AUTHORITY" "lookup_token '':path'' = Some HD__PATH"
  "lookup_token ''host'' = Some HD_HOST"
  using lookup_token_name [of HD__METHOD] lookup_token_name [of HD__SCHEME] lookup_token_name [of HD__AUTHORITY]
    lookup_token_name [of HD__PATH] lookup_token_name [of HD_HOST] by simp_all

lemma take_pseudo:
  "\<forall>f \<in> set fs. fst f \<in> set pseudo_names \<Longrightarrow>
     take_fields fs (request_line m sch a p) = Some (request_line (last_value m '':method'' fs)
       (last_value sch '':scheme'' fs) (last_value a '':authority'' fs) (last_value p '':path'' fs))"
proof (induction fs arbitrary: m sch a p)
  case (Cons f fs)
  obtain n v b where f: "f = (n, v, b)" by (cases f)
  have "on_header_field n v b (request_line m sch a p) = Some (request_line (if n = '':method'' then v else m)
      (if n = '':scheme'' then v else sch) (if n = '':authority'' then v else a) (if n = '':path'' then v else p))"
    using Cons.prems f
    by (auto simp: pseudo_names_def on_header_field_def pseudo_token request_line_def split_path_def empty_uri_def Let_def)
  then show ?case using Cons f by simp
qed simp

definition with_fields :: "field list \<Rightarrow> asio_server_request \<Rightarrow> asio_server_request" where
  "with_fields fs req = req\<lparr>req_header := add_fields fs (req_header req),
     req_uri := (req_uri req)\<lparr>uri_host := first_host (uri_host (req_uri req)) fs\<rparr>,
     req_header_buffer_size := req_header_buffer_size req + fields_bytes fs\<rparr>"

lemma on_regular_field:
  assumes "n \<notin> set pseudo_names"
  shows "on_header_field n v b req = add_field n v b
    (if n = ''host'' \<and> uri_host (req_uri req) = [] then req\<lparr>req_uri := (req_uri req)\<lparr>uri_host := v\<rparr>\<rparr> else req)"
proof (cases "lookup_token n")
  case None
  then have "n \<noteq> ''host''" using pseudo_token(5) by auto
  then show ?thesis using None by (simp add: on_header_field_def)
next
  case (Some t)
  then have "n = token_name t" by (rule lookup_token_SomeD)
  then show ?thesis using assms Some by (cases t) (simp_all add: on_header_field_def pseudo_names_def)
qed

lemma take_regular:
  "\<forall>f \<in> set fs. fst f \<notin> set pseudo_names \<Longrightarrow> req_header_buffer_size req + fields_bytes fs \<le> 64 * 1024 \<Longrightarrow>
     take_fields fs req = Some (with_fields fs req)"
proof (induction fs arbitrary: req)
  case (Cons f fs)
  obtain n v b where f: "f = (n, v, b)" by (cases f)
  have "on_header_field n v b req = Some (with_fields [f] req)"
    using on_regular_field [of n v b req] Cons.prems f
    by (auto simp: add_field_def update_header_buffer_size_def with_fields_def add_fields_def fields_bytes_def)
  moreover have "take_fields fs (with_fields [f] req) = Some (with_fields fs (with_fields [f] req))"
    by (rule Cons.IH) (use Cons.prems f in \<open>auto simp: with_fields_def fields_bytes_def\<close>)
  ultimately show ?case using f
    by (simp add: with_fields_def add_fields_def fields_bytes_def)
qed (simp add: with_fields_def add_fields_def fields_bytes_def)

lemma take_header:
  assumes "\<forall>f \<in> set pseudo. fst f \<in> set pseudo_names" and "\<forall>f \<in> set regular. fst f \<notin> set pseudo_names"
    and "fields_bytes regular \<le> 64 * 1024"
  shows "take_fields (pseudo @ regular) asio_server_request_init = Some (sent_request pseudo regular [])"
proof -
  let ?r = "request_line (last_value [] '':method'' pseudo) (last_value [] '':scheme'' pseudo)
      (last_value [] '':authority'' pseudo) (last_value [] '':path'' pseudo)"
  have "take_fields pseudo asio_server_request_init = Some ?r"
    using take_pseudo [OF assms(1), of "[]" "[]" "[]" "[]"] by (simp add: request_line_init)
  moreover have "take_fields regular ?r = Some (with_fields regular ?r)"
    by (rule take_regular) (use assms in \<open>simp_all add: request_line_def asio_server_request_init_def\<close>)
  moreover have "with_fields regular ?r = sent_request pseudo regular []"
    by (simp add: with_fields_def request_line_def sent_request_def split_path_def asio_server_request_init_def
        empty_uri_def Let_def)
  ultimately show ?thesis by (simp add: take_fields_append)
qed

section \<open>The callbacks of a request\<close>

definition data_frame :: "int \<Rightarrow> bool \<Rightarrow> nghttp2_frame" where
  "data_frame i end_stream = \<lparr>fr_type = FRAME_DATA, fr_stream_id = i, fr_end_stream = end_stream, fr_cat_request = False,
     fr_promised_stream_id = 0\<rparr>"

text \<open>The body comes in DATA frames, each of them in chunks; the last one ends the stream.\<close>

fun body_events :: "int \<Rightarrow> string list list \<Rightarrow> session_event list" where
  "body_events i [] = []"
| "body_events i (cs # css) =
     map (On_Data_Chunk_Recv i) cs @ On_Frame_Recv (data_frame i (css = [])) # body_events i css"

definition header_events :: "nghttp2_frame \<Rightarrow> field list \<Rightarrow> session_event list" where
  "header_events frame fs = map (\<lambda>(n, v, b). On_Header frame n v b) fs"

definition request_events :: "nghttp2_frame \<Rightarrow> field list \<Rightarrow> string list list \<Rightarrow> session_event list" where
  "request_events frame fs body =
     On_Begin_Headers frame # header_events frame fs @ On_Frame_Recv frame # body_events (fr_stream_id frame) body"

lemma session_callbacks_append:
  "session_callbacks app mux session_rv fd now (es @ es') wh
     = rbind (session_callbacks app mux session_rv fd now es wh) (session_callbacks app mux session_rv fd now es')"
proof (induction es arbitrary: wh)
  case (Cons e es)
  then show ?case by (cases "session_callback app mux session_rv fd now e wh") simp_all
qed simp

lemma update_stream_again [simp]: "h2_update_stream i s (h2_update_stream i s' h) = h2_update_stream i s h"
  by (simp add: h2_update_stream_def map_assign_again)

lemma find_updated_stream [simp]:
  "map_ordered (<) (h2_streams h) \<Longrightarrow> find_stream i (h2_streams (h2_update_stream i s h)) = Some s"
  by (simp add: find_stream_def h2_update_stream_def std_map.lookup_update)

lemma header_callbacks:
  assumes "request_head frame" and "map_ordered (<) (h2_streams h)"
  shows "take_fields fs (st_request s) = Some req \<Longrightarrow>
     session_callbacks app mux session_rv fd now (header_events frame fs) (w, h2_update_stream (fr_stream_id frame) s h)
       = Inr (w, h2_update_stream (fr_stream_id frame) (s\<lparr>st_request := req\<rparr>) h)"
proof (induction fs arbitrary: s)
  case (Cons f fs)
  obtain n v b where f: "f = (n, v, b)" by (cases f)
  obtain r1 where r1: "on_header_field n v b (st_request s) = Some r1" "take_fields fs r1 = Some req"
    using Cons.prems f by (auto simp: bind_eq_Some_conv)
  have "on_header_callback frame n v b (h2_update_stream (fr_stream_id frame) s h)
      = h2_update_stream (fr_stream_id frame) (s\<lparr>st_request := r1\<rparr>) h"
    using assms r1(1) by (simp add: on_header_callback_def)
  then show ?case using f Cons.IH [of "s\<lparr>st_request := r1\<rparr>"] r1(2) by (simp add: header_events_def)
qed (auto simp: header_events_def)

abbreviation append_payload :: "string \<Rightarrow> server_stream \<Rightarrow> server_stream" where
  "append_payload d s \<equiv> s\<lparr>st_request := (st_request s)\<lparr>req_payload := req_payload (st_request s) @ d\<rparr>\<rparr>"

lemma chunk_callbacks:
  assumes "map_ordered (<) (h2_streams h)"
  shows "session_callbacks app mux session_rv fd now (map (On_Data_Chunk_Recv i) cs) (w, h2_update_stream i s h)
       = Inr (w, h2_update_stream i (append_payload (concat cs) s) h)"
proof (induction cs arbitrary: s)
  case (Cons c cs)
  then show ?case using assms by (simp add: on_data_chunk_recv_callback_def)
qed simp

lemma body_callbacks:
  assumes "map_ordered (<) (h2_streams h)"
  shows "css \<noteq> [] \<Longrightarrow>
     session_callbacks app mux session_rv fd now (body_events i css) (w, h2_update_stream i s h)
       = (let s' = append_payload (concat (concat css)) s
          in h2_call_on_request app mux session_rv fd now i s' (w, h2_update_stream i s' h))"
proof (induction css arbitrary: s)
  case (Cons cs css)
  then show ?case using assms
    by (cases "h2_call_on_request app mux session_rv fd now i (append_payload (concat cs) s)
          (w, h2_update_stream i (append_payload (concat cs) s) h)")
      (auto simp: session_callbacks_append chunk_callbacks on_frame_recv_callback_def data_frame_def Let_def)
qed simp

section \<open>A whole request\<close>

lemma request_callbacks:
  assumes "request_head frame" and "fr_end_stream frame \<longleftrightarrow> body = []"
    and "map_ordered (<) (h2_streams h)" and "find_stream (fr_stream_id frame) (h2_streams h) = None"
    and "\<forall>f \<in> set pseudo. fst f \<in> set pseudo_names" and "\<forall>f \<in> set regular. fst f \<notin> set pseudo_names"
    and "fields_bytes regular \<le> 64 * 1024"
  shows "session_callbacks app mux session_rv fd now (request_events frame (pseudo @ regular) body) (w, h)
       = (let strm = \<lparr>st_request = sent_request pseudo regular (concat body), st_response = asio_server_response_init\<rparr>
          in h2_call_on_request app mux session_rv fd now (fr_stream_id frame) strm
               (w, h2_update_stream (fr_stream_id frame) strm h))"
proof -
  let ?i = "fr_stream_id frame"
  let ?s = "asio_server_stream_init\<lparr>st_request := sent_request pseudo regular []\<rparr>"
  have "on_begin_headers_callback frame h = Inr (h2_update_stream ?i asio_server_stream_init h)"
    using assms(1,3,4)
    by (simp add: on_begin_headers_callback_def create_stream_def find_stream_def map_insert_new h2_update_stream_def)
  moreover have "take_fields (pseudo @ regular) (st_request asio_server_stream_init) = Some (sent_request pseudo regular [])"
    using take_header [OF assms(5-7)] by (simp add: asio_server_stream_init_def)
  note header_callbacks [OF assms(1,3) this, of app mux session_rv fd now w]
  moreover have "append_payload (concat (concat body)) ?s
      = \<lparr>st_request = sent_request pseudo regular (concat body), st_response = asio_server_response_init\<rparr>"
    by (simp add: asio_server_stream_init_def sent_request_def Let_def)
  moreover have "body = [] \<Longrightarrow> ?s
      = \<lparr>st_request = sent_request pseudo regular (concat body), st_response = asio_server_response_init\<rparr>"
    by (simp add: asio_server_stream_init_def)
  ultimately show ?thesis
    using assms(1-3) body_callbacks [OF assms(3), of body app mux session_rv fd now ?i w ?s]
    by (cases "body = []"; cases "h2_call_on_request app mux session_rv fd now ?i ?s (w, h2_update_stream ?i ?s h)")
      (simp_all add: request_events_def session_callbacks_append on_frame_recv_callback_def Let_def)
qed

section \<open>Properties\<close>

text \<open>C20. A request over HTTP/2 reaches the application as it was sent. When the session reports a new stream, pseudo-header
  fields in any order, other fields of up to 64 KB, and a body in any DATA frames and chunks (or none), the application is called
  exactly once, at the end of the stream, with the method, scheme, authority (or host), path and query of the
  pseudo-header, the fields grouped by name in the order they came, and the chunks joined as payload.\<close>

theorem h2_request_as_sent:
  assumes "request_head frame" and "fr_end_stream frame \<longleftrightarrow> body = []"
    and "map_ordered (<) (h2_streams h)" and "find_stream (fr_stream_id frame) (h2_streams h) = None"
    and "\<forall>f \<in> set pseudo. fst f \<in> set pseudo_names" and "\<forall>f \<in> set regular. fst f \<notin> set pseudo_names"
    and "fields_bytes regular \<le> 64 * 1024"
  shows "session_callbacks app mux session_rv fd now (request_events frame (pseudo @ regular) body) (w, h)
       = (let strm = \<lparr>st_request = sent_request pseudo regular (concat body), st_response = asio_server_response_init\<rparr>
          in h2_call_on_request app mux session_rv fd now (fr_stream_id frame) strm
               (w, h2_update_stream (fr_stream_id frame) strm h))"
  by (rule request_callbacks [OF assms])

theorem h2_request_as_sent_witness:
  "session_callbacks (\<lambda>cb req i w. Inr (Later, w @ [req_payload req])) ([] :: unit serve_mux) (\<lambda>_ _. 0) (\<lambda>_. []) 0
     (request_events \<lparr>fr_type = FRAME_HEADERS, fr_stream_id = 1, fr_end_stream = False, fr_cat_request = True,
          fr_promised_stream_id = 0\<rparr>
        ([('':path'', ''/a?b=1'', False), ('':method'', ''POST'', False)] @ [(''host'', ''x'', False)]) [[''he'', ''l''], [''lo'']])
     ([] :: string list, http2_handler_init (0, []))
   = (let strm = \<lparr>st_request = sent_request [('':path'', ''/a?b=1'', False), ('':method'', ''POST'', False)]
            [(''host'', ''x'', False)] [''he'', ''l'', ''lo''], st_response = asio_server_response_init\<rparr>
      in h2_call_on_request (\<lambda>cb req i w. Inr (Later, w @ [req_payload req])) ([] :: unit serve_mux) (\<lambda>_ _. 0) (\<lambda>_. []) 0 1 strm
           ([], h2_update_stream 1 strm (http2_handler_init (0, []))))
   \<and> uri_host (req_uri (sent_request [('':path'', ''/a?b=1'', False), ('':method'', ''POST'', False)]
            [(''host'', ''x'', False)] [''he'', ''l'', ''lo''])) = ''x''"
proof
  let ?f = "\<lparr>fr_type = FRAME_HEADERS, fr_stream_id = 1, fr_end_stream = False, fr_cat_request = True, fr_promised_stream_id = 0\<rparr>"
  let ?p = "[('':path'', ''/a?b=1'', False), ('':method'', ''POST'', False)]"
  let ?h = "http2_handler_init (0, [])"
  have "map_ordered (<) (h2_streams ?h)" "find_stream (fr_stream_id ?f) (h2_streams ?h) = None"
    by (simp_all add: http2_handler_init_def find_stream_def)
  from h2_request_as_sent [OF _ _ this, of "[[''he'', ''l''], [''lo'']]" ?p "[(''host'', ''x'', False)]"
      "\<lambda>cb req i w. Inr (Later, w @ [req_payload req])" "[] :: unit serve_mux" "\<lambda>_ _. 0" "\<lambda>_. []" 0 "[]"]
  show "session_callbacks (\<lambda>cb req i w. Inr (Later, w @ [req_payload req])) ([] :: unit serve_mux) (\<lambda>_ _. 0) (\<lambda>_. []) 0
      (request_events ?f (?p @ [(''host'', ''x'', False)]) [[''he'', ''l''], [''lo'']]) ([] :: string list, ?h)
    = (let strm = \<lparr>st_request = sent_request ?p [(''host'', ''x'', False)] [''he'', ''l'', ''lo''],
            st_response = asio_server_response_init\<rparr>
       in h2_call_on_request (\<lambda>cb req i w. Inr (Later, w @ [req_payload req])) ([] :: unit serve_mux) (\<lambda>_ _. 0) (\<lambda>_. []) 0 1 strm
            ([], h2_update_stream 1 strm ?h))"
    by (simp add: pseudo_names_def fields_bytes_def)
qed (simp add: sent_request_def Let_def)

end
