(* ===== verification/Http2_Session.thy ===== *)
theory Http2_Session
  imports Http2_Handler
begin

text \<open>
  The HTTP/2 handler over the life of a connection: what reaches the socket is what the session produced, in order and
  within the buffer; the streams stay well-formed and the header of a request within its limit; a request is handed
  to the application as the peer sent it.
\<close>

section \<open>What the callbacks keep\<close>

text \<open>Nothing the handler does on behalf of the application or the session touches the piece of output kept back or
  the callback flag, and what it has asked of the session stays asked.\<close>

definition h2_keeps :: "http2_handler \<Rightarrow> http2_handler \<Rightarrow> bool" where
  "h2_keeps h h' \<longleftrightarrow> h2_buf h' = h2_buf h \<and> h2_inside_callback h' = h2_inside_callback h
     \<and> (\<exists>new. h2_calls h' = h2_calls h @ new)"

lemma h2_keeps_refl [simp]: "h2_keeps h h"
  by (simp add: h2_keeps_def)

lemma h2_keeps_trans: "h2_keeps h h' \<Longrightarrow> h2_keeps h' h'' \<Longrightarrow> h2_keeps h h''"
  by (auto simp: h2_keeps_def)

lemma h2_keeps_ask [simp]: "h2_keeps h (ask c h)"
  by (simp add: h2_keeps_def ask_def)

lemma h2_keeps_streams [simp]: "h2_keeps h (h2_streams_update f h)" "h2_keeps h (h2_update_stream i s h)"
  by (simp_all add: h2_keeps_def h2_update_stream_def)

lemma h2_keeps_signal [simp]: "h2_keeps h (h2_signal_write h)"
  by (simp add: h2_keeps_def h2_signal_write_def)

lemma h2_keeps_signal_ask [simp]: "h2_keeps h (h2_signal_write (ask c h))"
  by (rule h2_keeps_trans [of _ "ask c h"]) simp_all

lemma h2_keeps_start_response: "h2_keeps h (snd (h2_start_response session_rv fd now i meth res h))"
  by (auto simp: h2_keeps_def h2_start_response_def refresh_date_def h2_signal_write_def ask_def Let_def split: prod.splits)

lemma h2_keeps_submit_trailer: "h2_keeps h (snd (h2_submit_trailer session_rv i t h))"
  by (simp add: h2_submit_trailer_def Let_def)

lemma h2_keeps_exec_call: "h2_keeps h (h2_exec_call session_rv fd now i meth res c h)"
  by (cases c) (simp_all add: h2_keeps_start_response h2_keeps_submit_trailer h2_stream_error_def h2_resume_def)

lemma h2_keeps_exec_calls: "h2_keeps h (fold (h2_exec_call session_rv fd now i meth res) cs h)"
  by (induction cs arbitrary: h) (auto intro: h2_keeps_trans [OF h2_keeps_exec_call])

lemma h2_keeps_respond: "h2_respond session_rv fd now i f h = Inr h' \<Longrightarrow> h2_keeps h h'"
  by (auto simp: h2_respond_def Let_def split: option.splits prod.splits
      intro: h2_keeps_trans [OF h2_keeps_streams(2) h2_keeps_exec_calls])

lemma h2_keeps_run_action: "h2_run_action session_rv fd now i act h = Inr h' \<Longrightarrow> h2_keeps h h'"
  by (cases act) (auto intro: h2_keeps_respond)

lemma h2_keeps_call_on_request:
  "h2_call_on_request app mux session_rv fd now i s (w, h) = Inr (w', h') \<Longrightarrow> h2_keeps h h'"
  by (auto simp: h2_call_on_request_def Let_def intro: h2_keeps_run_action)

lemma h2_keeps_callback:
  assumes "session_callback app mux session_rv fd now e (w, h) = Inr (w', h')"
  shows "h2_keeps h h'"
proof (cases e)
  case (On_Begin_Headers frame)
  then show ?thesis using assms by (auto simp: on_begin_headers_callback_def split: if_splits)
next
  case (On_Header frame name v ni)
  then show ?thesis using assms by (auto simp: on_header_callback_def Let_def split: if_splits option.splits
        intro: h2_keeps_trans [OF h2_keeps_streams(2) h2_keeps_ask])
next
  case (On_Frame_Recv frame)
  then show ?thesis using assms by (auto simp: on_frame_recv_callback_def split: if_splits option.splits
        intro: h2_keeps_call_on_request)
next
  case (On_Data_Chunk_Recv i d)
  then show ?thesis using assms by (auto simp: on_data_chunk_recv_callback_def split: option.splits)
next
  case (On_Stream_Close i ec)
  then show ?thesis using assms by (auto simp: on_stream_close_callback_def split: option.splits)
next
  case (On_Frame_Send frame)
  then show ?thesis using assms by (auto simp: on_frame_send_callback_def split: if_splits option.splits
        intro: h2_keeps_respond)
next
  case (On_Frame_Not_Send frame)
  then show ?thesis using assms by (auto simp: on_frame_not_send_callback_def)
next
  case (On_Read_Body i n)
  then show ?thesis using assms by (auto simp: read_callback_def Let_def split: option.splits
        intro: h2_keeps_trans [OF h2_keeps_respond h2_keeps_ask])
qed

lemma h2_keeps_callbacks:
  "session_callbacks app mux session_rv fd now es (w, h) = Inr (w', h') \<Longrightarrow> h2_keeps h h'"
proof (induction es arbitrary: w h)
  case (Cons e es)
  then obtain w1 h1 where "session_callback app mux session_rv fd now e (w, h) = Inr (w1, h1)"
    "session_callbacks app mux session_rv fd now es (w1, h1) = Inr (w', h')" by auto
  then show ?case by (rule h2_keeps_trans [OF h2_keeps_callback Cons.IH])
qed simp

lemma h2_keeps_push_promise:
  "push_promise session_rv i meth path hs h = Inr (p, h') \<Longrightarrow> h2_keeps h h'"
  by (auto simp: push_promise_def Let_def split: option.splits if_splits
      intro!: h2_keeps_trans [OF _ h2_keeps_signal])
    (auto simp: h2_keeps_def h2_update_stream_def ask_def)

section \<open>Output\<close>

definition piece :: "string option \<Rightarrow> string" where
  "piece p = (case p of None \<Rightarrow> [] | Some data \<Rightarrow> data)"

lemma piece_simps [simp]: "piece None = []" "piece (Some data) = data"
  by (simp_all add: piece_def)

text \<open>A source of output whose state records every byte it has given out: what the loop of \<^verbatim>\<open>on_write\<close> guarantees of any
  of them.\<close>

locale recorded_output =
  fixes send :: "'x \<Rightarrow> ((int + string) \<times> 'x) result"
    and given :: "'x \<Rightarrow> string"
  assumes send_error: "send x = Inr (Inl e, x') \<Longrightarrow> given x' = given x"
    and send_piece: "send x = Inr (Inr data, x') \<Longrightarrow> given x' = given x @ data"
begin

lemma send_loop_in_order:
  assumes "send_loop send buffer len x = Inr (out, x')" and "len \<le> length buffer"
  shows "\<exists>new. given x' = given x @ new \<and> take len buffer @ new = take (so_len out) (so_buffer out) @ piece (so_pending out)
    \<and> so_len out \<le> length buffer \<and> length (so_buffer out) = length buffer"
  using assms
proof (induction "length buffer - len" arbitrary: buffer len x rule: less_induct)
  case less
  note eq = less.prems(1) [unfolded send_loop.simps [of send buffer len x]]
  obtain o1 x1 where m: "send x = Inr (o1, x1)" using eq by (cases "send x") auto
  show ?case
  proof (cases o1)
    case (Inl e)
    then show ?thesis using eq m less.prems(2) send_error [of x e] by auto
  next
    case (Inr data)
    note g = send_piece [of x data x1, unfolded m Inr, OF refl]
    consider "data = []" | "data \<noteq> []" "length buffer < len + length data" | "data \<noteq> []" "len + length data \<le> length buffer"
      by linarith
    then show ?thesis
    proof cases
      case 3
      let ?b = "overwrite buffer len data"
      have "send_loop send ?b (len + length data) x1 = Inr (out, x')" using eq m Inr 3 by simp
      moreover have "length ?b - (len + length data) < length buffer - len" using 3 by (auto simp: neq_Nil_conv)
      ultimately obtain new where "given x' = given x1 @ new"
        "take (len + length data) ?b @ new = take (so_len out) (so_buffer out) @ piece (so_pending out)"
        "so_len out \<le> length buffer" "length (so_buffer out) = length buffer"
        using less.hyps [of ?b "len + length data" x1] 3(2) by auto
      then show ?thesis using g take_overwrite [OF 3(2)] by (intro exI [of _ "data @ new"]) simp
    qed (use eq m Inr g less.prems(2) in auto)
  qed
qed

lemma send_in_order:
  assumes "h2_send send buffer pending x = Inr (out, x')"
  shows "\<exists>new. given x' = given x @ new \<and> piece pending @ new = take (so_len out) (so_buffer out) @ piece (so_pending out)
    \<and> so_len out \<le> length buffer"
proof (cases pending)
  case None
  then show ?thesis using send_loop_in_order [of buffer 0 x out x'] assms by (auto simp: h2_send_def)
next
  case (Some data)
  then have "length data \<le> length buffer"
    and "send_loop send (overwrite buffer 0 data) (length data) x = Inr (out, x')"
    using assms by (auto simp: h2_send_def split: if_splits)
  then show ?thesis using send_loop_in_order [of "overwrite buffer 0 data" "length data" x out x']
      take_overwrite [of 0 data buffer] Some by auto
qed

end

text \<open>A session that also records its output; receiving leaves the record alone.\<close>

definition recorded_send :: "'s mem_send \<Rightarrow> ('s \<times> string) mem_send" where
  "recorded_send mem_send sl calls =
     (let (events, answer) = mem_send (fst sl) calls
      in (events, \<lambda>calls'. let (s', out) = answer calls'
                           in ((s', snd sl @ (case out of Inl e \<Rightarrow> [] | Inr data \<Rightarrow> data)), out)))"

definition recorded_recv :: "'s mem_recv \<Rightarrow> ('s \<times> string) mem_recv" where
  "recorded_recv mem_recv sl calls data =
     (let (s', events, rv) = mem_recv (fst sl) calls data in ((s', snd sl), events, rv))"

interpretation rs: recorded_output "session_send (recorded_send mem_send) app mux session_rv fd now" "\<lambda>x. snd (fst x)"
  for mem_send :: "'s mem_send" and app :: "('cb, 'w) application" and mux session_rv fd now
  by unfold_locales (auto simp: session_send_def recorded_send_def Let_def split: prod.splits)

section \<open>Runs of a connection\<close>

text \<open>What happens to the handler of a connection, in any order: input and output, a posted write, a response completed later
  (by a timer or another thread) and a pushed stream. \<open>sent\<close> is what has been put into the buffers of the connection,
  which have \<open>n\<close> bytes.\<close>

inductive h2_run ::
    "'s mem_recv \<Rightarrow> 's mem_send \<Rightarrow> ('cb, 'w) application \<Rightarrow> 'cb serve_mux \<Rightarrow> session_rv \<Rightarrow> (int \<Rightarrow> string) \<Rightarrow> nat
      \<Rightarrow> 's \<Rightarrow> 's \<times> 'w \<times> http2_handler \<Rightarrow> string \<Rightarrow> bool"
  for mem_recv mem_send app mux session_rv fd n s0 where
  run_start: "h2_start session_rv conf (http2_handler_init date) = Inr (0, h) \<Longrightarrow>
     h2_run mem_recv mem_send app mux session_rv fd n s0 (s0, w, h) []"
| run_read: "h2_run mem_recv mem_send app mux session_rv fd n s0 x sent \<Longrightarrow>
     h2_on_read mem_recv app mux session_rv fd now buffer len x = Inr (rv, x') \<Longrightarrow>
     h2_run mem_recv mem_send app mux session_rv fd n s0 x' sent"
| run_write: "h2_run mem_recv mem_send app mux session_rv fd n s0 x sent \<Longrightarrow> length buffer = n \<Longrightarrow>
     h2_on_write mem_send app mux session_rv fd now buffer x = Inr (rv, buffer', len, x') \<Longrightarrow>
     h2_run mem_recv mem_send app mux session_rv fd n s0 x' (sent @ take len buffer')"
| run_posted: "h2_run mem_recv mem_send app mux session_rv fd n s0 (s, w, h) sent \<Longrightarrow>
     h2_run mem_recv mem_send app mux session_rv fd n s0 (s, w, snd (h2_initiate_write h)) sent"
| run_reset: "h2_run mem_recv mem_send app mux session_rv fd n s0 (s, w, h) sent \<Longrightarrow>
     h2_run mem_recv mem_send app mux session_rv fd n s0 (s, w, h2_reset_writefun h) sent"
| run_answer: "h2_run mem_recv mem_send app mux session_rv fd n s0 (s, w, h) sent \<Longrightarrow>
     h2_run_action session_rv fd now stream_id act h = Inr h' \<Longrightarrow>
     h2_run mem_recv mem_send app mux session_rv fd n s0 (s, w', h') sent"
| run_push: "h2_run mem_recv mem_send app mux session_rv fd n s0 (s, w, h) sent \<Longrightarrow>
     push_promise session_rv stream_id meth path hs h = Inr (p, h') \<Longrightarrow>
     h2_run mem_recv mem_send app mux session_rv fd n s0 (s, w, h') sent"

lemma h2_start_handler:
  "h2_start session_rv conf (http2_handler_init date) = Inr (0, h) \<Longrightarrow>
     h2_streams h = [] \<and> h2_buf h = None \<and> \<not> h2_inside_callback h"
  by (auto simp: h2_start_def http2_handler_init_def ask_def Let_def split: if_splits)

lemma h2_on_read_parts:
  assumes "h2_on_read mem_recv app mux session_rv fd now buffer len (s, w, h) = Inr (rv, s', w', h')"
  obtains events r h1 where "mem_recv s (h2_calls h) (take len buffer) = (s', events, r)"
    "session_callbacks app mux session_rv fd now events (w, h\<lparr>h2_inside_callback := True\<rparr>) = Inr (w', h1)"
    "h' = h1\<lparr>h2_inside_callback := False\<rparr>" "\<not> h2_inside_callback h"
  using assms by (cases "mem_recv s (h2_calls h) (take len buffer)")
    (auto simp: h2_on_read_def h2_enter_callback_def h2_leave_callback_def split: if_splits)

lemma h2_on_write_parts:
  assumes "h2_on_write mem_send app mux session_rv fd now buffer (s, w, h) = Inr (rv, buffer', len, s', w', h')"
  obtains out h1 where "h2_send (session_send mem_send app mux session_rv fd now) buffer (h2_buf h)
      (s, w, h\<lparr>h2_inside_callback := True, h2_buf := None\<rparr>) = Inr (out, s', w', h1)"
    "h' = h1\<lparr>h2_buf := so_pending out, h2_inside_callback := False\<rparr>" "\<not> h2_inside_callback h"
    "rv = so_ret out" "buffer' = so_buffer out" "len = so_len out"
  using assms by (auto simp: h2_on_write_def h2_enter_callback_def h2_leave_callback_def split: if_splits)

lemma run_output_in_order:
  assumes "h2_run (recorded_recv mem_recv) (recorded_send mem_send) app mux session_rv fd n (s0, []) x sent"
  shows "sent @ piece (h2_buf (snd (snd x))) = snd (fst x) \<and> \<not> h2_inside_callback (snd (snd x))"
  using assms
proof (induction rule: h2_run.induct)
  case (run_start conf date h w)
  then show ?case using h2_start_handler [OF run_start] by simp
next
  case (run_read x sent now buffer len rv x')
  obtain s w h s' w' h' where x: "x = (s, w, h)" "x' = (s', w', h')" by (cases x; cases x')
  from run_read.hyps(2) [unfolded x] show ?case
  proof (rule h2_on_read_parts)
    fix events r h1
    assume "recorded_recv mem_recv s (h2_calls h) (take len buffer) = (s', events, r)"
    and "session_callbacks app mux session_rv fd now events (w, h\<lparr>h2_inside_callback := True\<rparr>) = Inr (w', h1)"
    and "h' = h1\<lparr>h2_inside_callback := False\<rparr>"
    then show ?case using run_read.IH x h2_keeps_callbacks
      by (fastforce simp: recorded_recv_def h2_keeps_def Let_def split: prod.splits)
  qed
next
  case (run_write x sent buffer now rv buffer' len x')
  obtain s w h s' w' h' where x: "x = (s, w, h)" "x' = (s', w', h')" by (cases x; cases x')
  from run_write.hyps(3) [unfolded x] show ?case
  proof (rule h2_on_write_parts)
    fix out h1
    assume send: "h2_send (session_send (recorded_send mem_send) app mux session_rv fd now) buffer (h2_buf h)
        (s, w, h\<lparr>h2_inside_callback := True, h2_buf := None\<rparr>) = Inr (out, s', w', h1)"
    and d: "h' = h1\<lparr>h2_buf := so_pending out, h2_inside_callback := False\<rparr>" "buffer' = so_buffer out" "len = so_len out"
    from rs.send_in_order [OF send] obtain new where n: "snd s' = snd s @ new"
      "piece (h2_buf h) @ new = take len buffer' @ piece (so_pending out)" using d(2,3) by auto
    have "snd s' = sent @ piece (h2_buf h) @ new" using n(1) run_write.IH x by simp
    then show ?case using n(2) d(1) x by simp
  qed
next
  case (run_posted s w h sent)
  then show ?case by (simp add: h2_initiate_write_def)
next
  case (run_reset s w h sent)
  then show ?case by (simp add: h2_reset_writefun_def)
next
  case (run_answer s w h sent now stream_id act h' w')
  then show ?case using h2_keeps_run_action [OF run_answer.hyps(2)] by (simp add: h2_keeps_def)
next
  case (run_push s w h sent stream_id meth path hs p h')
  then show ?case using h2_keeps_push_promise [OF run_push.hyps(2)] by (simp add: h2_keeps_def)
qed

lemma send_loop_bounds:
  "send_loop mem_send buffer len x = Inr (out, x') \<Longrightarrow> len \<le> length buffer \<Longrightarrow>
     so_len out \<le> length buffer \<and> length (so_buffer out) = length buffer"
proof (induction mem_send buffer len x rule: send_loop.induct)
  case (1 mem_send buffer len x)
  note eq = "1.prems"(1) [unfolded send_loop.simps [of mem_send buffer len x]]
  obtain o1 x1 where m: "mem_send x = Inr (o1, x1)" using eq by (cases "mem_send x") auto
  show ?case using eq m "1.prems"(2) "1.IH" [OF m refl] by (auto split: sum.splits if_splits)
qed

text \<open>The states the session is in between the calls of \<^verbatim>\<open>nghttp2_session_mem_send\<close> that the loop makes from \<open>x\<close> on.\<close>

inductive sends_reach :: "('x \<Rightarrow> ((int + string) \<times> 'x) result) \<Rightarrow> 'x \<Rightarrow> 'x \<Rightarrow> bool" for mem_send where
  reach_start: "sends_reach mem_send x x"
| reach_send: "mem_send x = Inr (Inr data, x1) \<Longrightarrow> sends_reach mem_send x1 y \<Longrightarrow> sends_reach mem_send x y"

lemma send_loop_faults:
  "send_loop mem_send buffer len x = Inl e \<Longrightarrow> \<exists>y. sends_reach mem_send x y \<and> mem_send y = Inl e"
proof (induction mem_send buffer len x rule: send_loop.induct)
  case (1 mem_send buffer len x)
  note eq = "1.prems" [unfolded send_loop.simps [of mem_send buffer len x]]
  show ?case
  proof (cases "mem_send x")
    case (Inl f)
    then show ?thesis using eq by (intro exI [of _ x]) (simp add: reach_start)
  next
    case (Inr b)
    obtain o1 x1 where b: "b = (o1, x1)" by (cases b)
    then obtain data where "o1 = Inr data" using eq Inr by (auto split: sum.splits)
    then show ?thesis using eq "1.IH" [of b o1 x1 data] Inr b by (auto split: if_splits intro: reach_send)
  qed
qed

lemma send_loop_pending:
  "send_loop mem_send buffer len x = Inr (out, x') \<Longrightarrow> so_pending out = Some d \<Longrightarrow> \<exists>y y'. mem_send y = Inr (Inr d, y')"
proof (induction mem_send buffer len x rule: send_loop.induct)
  case (1 mem_send buffer len x)
  note eq = "1.prems"(1) [unfolded send_loop.simps [of mem_send buffer len x]]
  obtain o1 x1 where m: "mem_send x = Inr (o1, x1)" using eq by (cases "mem_send x") auto
  show ?case
  proof (cases o1)
    case (Inr data)
    then show ?thesis using eq m "1.prems"(2) "1.IH" [OF m refl Inr] by (cases "out") (auto split: if_splits)
  qed (use eq m "1.prems"(2) in auto)
qed

lemma send_loop_preserves:
  "send_loop mem_send buffer len x = Inr (out, x') \<Longrightarrow> (\<And>y r y'. mem_send y = Inr (r, y') \<Longrightarrow> I y \<Longrightarrow> I y') \<Longrightarrow> I x \<Longrightarrow> I x'"
proof (induction mem_send buffer len x rule: send_loop.induct)
  case (1 mem_send buffer len x)
  note eq = "1.prems"(1) [unfolded send_loop.simps [of mem_send buffer len x]]
  obtain o1 x1 where m: "mem_send x = Inr (o1, x1)" using eq by (cases "mem_send x") auto
  have "I x1" by (rule "1.prems"(2) [OF m "1.prems"(3)])
  then show ?case using eq m "1.IH" [OF m refl _ _ _ _ "1.prems"(2)] by (auto split: sum.splits if_splits)
qed

lemma h2_send_preserves:
  "h2_send mem_send buffer pending x = Inr (out, x') \<Longrightarrow> (\<And>y r y'. mem_send y = Inr (r, y') \<Longrightarrow> I y \<Longrightarrow> I y') \<Longrightarrow> I x \<Longrightarrow> I x'"
  by (auto simp: h2_send_def intro: send_loop_preserves [where I = I] split: option.splits if_splits)

lemma h2_send_bounds:
  "h2_send mem_send buffer pending x = Inr (out, x') \<Longrightarrow> so_len out \<le> length buffer \<and> length (so_buffer out) = length buffer"
  using send_loop_bounds [of mem_send buffer 0 x out x']
    send_loop_bounds [of mem_send "overwrite buffer 0 (piece pending)" "length (piece pending)" x out x']
  by (cases pending) (auto simp: h2_send_def split: if_splits)

lemma h2_send_faults:
  "h2_send mem_send buffer pending x = Inl e \<Longrightarrow>
     (\<exists>y. sends_reach mem_send x y \<and> mem_send y = Inl e) \<or> (e = Out_Of_Bounds \<and> length buffer < length (piece pending))"
  by (auto simp: h2_send_def dest: send_loop_faults split: option.splits if_splits)

lemma h2_send_pending:
  "h2_send mem_send buffer pending x = Inr (out, x') \<Longrightarrow> so_pending out = Some d \<Longrightarrow> \<exists>y y'. mem_send y = Inr (Inr d, y')"
  by (auto simp: h2_send_def intro: send_loop_pending split: option.splits if_splits)

text \<open>The pieces a session gives out have at most \<open>n\<close> bytes.\<close>

definition pieces_within :: "nat \<Rightarrow> 's mem_send \<Rightarrow> bool" where
  "pieces_within n mem_send \<longleftrightarrow>
     (\<forall>s calls calls' s' data. snd (mem_send s calls) calls' = (s', Inr data) \<longrightarrow> length data \<le> n)"

lemma pieces_withinD:
  "pieces_within n mem_send \<Longrightarrow> session_send mem_send app mux session_rv fd now y = Inr (Inr d, y') \<Longrightarrow> length d \<le> n"
  by (auto simp: session_send_def pieces_within_def Let_def split: prod.splits)
    (metis snd_conv surj_pair)

lemma run_idle:
  assumes "h2_run mem_recv mem_send app mux session_rv fd n s0 x sent"
  shows "(pieces_within n mem_send \<longrightarrow> length (piece (h2_buf (snd (snd x)))) \<le> n) \<and> \<not> h2_inside_callback (snd (snd x))"
  using assms
proof (induction rule: h2_run.induct)
  case (run_start conf date h w)
  then show ?case using h2_start_handler [OF run_start] by simp
next
  case (run_read x sent now buffer len rv x')
  obtain s w h s' w' h' where x: "x = (s, w, h)" "x' = (s', w', h')" by (cases x; cases x')
  from run_read.hyps(2) [unfolded x] show ?case
    by (rule h2_on_read_parts) (use run_read.IH x in \<open>auto simp: h2_keeps_def dest!: h2_keeps_callbacks\<close>)
next
  case (run_write x sent buffer now rv buffer' len x')
  obtain s w h s' w' h' where x: "x = (s, w, h)" "x' = (s', w', h')" by (cases x; cases x')
  from run_write.hyps(3) [unfolded x] obtain out h1 where send:
      "h2_send (session_send mem_send app mux session_rv fd now) buffer (h2_buf h)
        (s, w, h\<lparr>h2_inside_callback := True, h2_buf := None\<rparr>) = Inr (out, s', w', h1)"
    and d: "h' = h1\<lparr>h2_buf := so_pending out, h2_inside_callback := False\<rparr>"
    by (rule h2_on_write_parts)
  show ?case using h2_send_pending [OF send] pieces_withinD d x
    by (cases "so_pending out") auto
next
  case (run_posted s w h sent)
  then show ?case by (simp add: h2_initiate_write_def)
next
  case (run_reset s w h sent)
  then show ?case by (simp add: h2_reset_writefun_def)
next
  case (run_answer s w h sent now stream_id act h' w')
  then show ?case using h2_keeps_run_action [OF run_answer.hyps(2)] by (simp add: h2_keeps_def)
next
  case (run_push s w h sent stream_id meth path hs p h')
  then show ?case using h2_keeps_push_promise [OF run_push.hyps(2)] by (simp add: h2_keeps_def)
qed

lemma session_send_parts:
  assumes "session_send mem_send app mux session_rv fd now (s, w, h) = Inr (r, s', w', h')"
  obtains events where "session_callbacks app mux session_rv fd now events (w, h) = Inr (w', h')"
  using assms by (auto simp: session_send_def Let_def case_prod_beta)

lemma h2_send_keeps_inside:
  assumes "h2_send (session_send mem_send app mux session_rv fd now) buffer pending (s, w, h) = Inr (out, s', w', h')"
    and "h2_inside_callback h"
  shows "h2_inside_callback h'"
proof -
  have "h2_inside_callback (snd (snd (s', w', h')))"
    by (rule h2_send_preserves [OF assms(1), of "\<lambda>x. h2_inside_callback (snd (snd x))"])
      (use assms(2) in \<open>auto elim!: session_send_parts dest!: h2_keeps_callbacks simp: h2_keeps_def\<close>)
  then show ?thesis by simp
qed

lemma session_send_faults:
  "session_send mem_send app mux session_rv fd now (s, w, h) = Inl e \<Longrightarrow>
     session_callbacks app mux session_rv fd now (fst (mem_send s (h2_calls h))) (w, h) = Inl e"
  by (auto simp: session_send_def Let_def case_prod_beta rbind_Inl_iff)

section \<open>Well-formed streams\<close>

text \<open>The size of a header, and the streams of a connection: one for each number, in order; the header of one the peer opened
  (an odd number) is ordered by name and its size is on record, within the limit.\<close>

definition header_bytes :: "header_map \<Rightarrow> nat" where
  "header_bytes hs = sum_list (map (\<lambda>(name, v). length name + length (hv_value v)) hs)"

definition request_wf :: "asio_server_request \<Rightarrow> bool" where
  "request_wf req \<longleftrightarrow> sorted_wrt (\<lambda>a b. \<not> b < a) (map fst (req_header req))
     \<and> header_bytes (req_header req) = req_header_buffer_size req \<and> req_header_buffer_size req \<le> 64 * 1024"

definition h2_wf :: "http2_handler \<Rightarrow> bool" where
  "h2_wf h \<longleftrightarrow> map_ordered (<) (h2_streams h)
     \<and> (\<forall>(i, s) \<in> set (h2_streams h). odd i \<longrightarrow> request_wf (st_request s))"

lemma header_bytes_insert:
  "header_bytes (header_emplace name v hs) = length name + length (hv_value v) + header_bytes hs"
  by (induction hs) (auto simp: header_bytes_def)

lemma request_wf_init: "request_wf asio_server_request_init"
  by (simp add: request_wf_def asio_server_request_init_def header_bytes_def)

lemma request_wf_add_field: "add_field name value ni req = Some req' \<Longrightarrow> request_wf req \<Longrightarrow> request_wf req'"
  by (auto simp: add_field_def request_wf_def update_header_buffer_size_def header_bytes_insert lin.multimap_insert_ordered
      split: if_splits)

lemma request_wf_other [simp]:
  "request_wf (req\<lparr>req_method := m\<rparr>) = request_wf req" "request_wf (req\<lparr>req_uri := u\<rparr>) = request_wf req"
  "request_wf (req\<lparr>req_payload := p\<rparr>) = request_wf req"
  by (simp_all add: request_wf_def)

lemma request_wf_header_field: "on_header_field name value ni req = Some req' \<Longrightarrow> request_wf req \<Longrightarrow> request_wf req'"
  by (auto simp: on_header_field_def Let_def split: option.splits header_token.splits if_splits dest: request_wf_add_field)

lemma h2_wf_update_stream: "h2_wf h \<Longrightarrow> even i \<or> request_wf (st_request s) \<Longrightarrow> h2_wf (h2_update_stream i s h)"
  using set_map_assign_subset [of "(<)" i s "h2_streams h"]
  by (fastforce simp: h2_wf_def h2_update_stream_def lin.map_assign_ordered lin.equivalent_key)

lemma h2_wf_close: "h2_wf h \<Longrightarrow> h2_wf (h\<lparr>h2_streams := close_stream i (h2_streams h)\<rparr>)"
  by (auto simp: h2_wf_def close_stream_def lin.map_erase_ordered) (auto simp: map_erase_def)

lemma h2_wf_create:
  "h2_wf h \<Longrightarrow> create_stream i (h2_streams h) = Inr ss \<Longrightarrow> h2_wf (h\<lparr>h2_streams := ss\<rparr>)"
  using set_map_insert_subset [of "(<)" i asio_server_stream_init "h2_streams h"]
  by (fastforce simp: h2_wf_def create_stream_def lin.map_insert_ordered asio_server_stream_init_def request_wf_init
      split: if_splits)

lemma h2_wf_find: "h2_wf h \<Longrightarrow> find_stream i (h2_streams h) = Some s \<Longrightarrow> even i \<or> request_wf (st_request s)"
  by (auto simp: h2_wf_def find_stream_def dest!: map_find_member)

text \<open>Only the streams matter.\<close>

lemma h2_wf_streams: "h2_streams h' = h2_streams h \<Longrightarrow> h2_wf h' = h2_wf h"
  by (simp add: h2_wf_def)

lemma streams_ask [simp]: "h2_streams (ask c h) = h2_streams h"
  by (simp add: ask_def)

lemma streams_signal_write [simp]: "h2_streams (h2_signal_write h) = h2_streams h"
  by (simp add: h2_signal_write_def)

lemma streams_exec_call [simp]: "h2_streams (h2_exec_call session_rv fd now i meth res c h) = h2_streams h"
  by (cases c) (auto simp: h2_start_response_def refresh_date_def h2_submit_trailer_def h2_stream_error_def h2_resume_def
      Let_def split: prod.splits)

lemma streams_exec_calls [simp]: "h2_streams (fold (h2_exec_call session_rv fd now i meth res) cs h) = h2_streams h"
  by (induction cs arbitrary: h) simp_all

lemma h2_wf_ask [simp]: "h2_wf (ask c h) = h2_wf h"
  by (rule h2_wf_streams) simp

lemma h2_wf_signal_write [simp]: "h2_wf (h2_signal_write h) = h2_wf h"
  by (rule h2_wf_streams) simp

lemma h2_wf_exec_calls [simp]: "h2_wf (fold (h2_exec_call session_rv fd now i meth res) cs h) = h2_wf h"
  by (rule h2_wf_streams) simp

lemma h2_wf_flags [simp]: "h2_wf (h\<lparr>h2_inside_callback := b\<rparr>) = h2_wf h" "h2_wf (h\<lparr>h2_buf := p\<rparr>) = h2_wf h"
  "h2_wf (h\<lparr>h2_write_signaled := b\<rparr>) = h2_wf h" "h2_wf (h\<lparr>h2_writefun := b\<rparr>) = h2_wf h"
  by (rule h2_wf_streams, simp)+

lemma h2_wf_respond: "h2_respond session_rv fd now i f h = Inr h' \<Longrightarrow> h2_wf h \<Longrightarrow> h2_wf h'"
  using h2_wf_find [of h i]
  by (auto simp: h2_respond_def Let_def split: option.splits prod.splits intro!: h2_wf_update_stream)

lemma h2_wf_run_action: "h2_run_action session_rv fd now i act h = Inr h' \<Longrightarrow> h2_wf h \<Longrightarrow> h2_wf h'"
  by (cases act) (auto intro: h2_wf_respond h2_wf_close)

lemma h2_wf_call_on_request:
  "h2_call_on_request app mux session_rv fd now i s (w, h) = Inr (w', h') \<Longrightarrow> h2_wf h \<Longrightarrow> h2_wf h'"
  by (auto simp: h2_call_on_request_def Let_def intro: h2_wf_run_action)

lemma h2_wf_callback:
  assumes "session_callback app mux session_rv fd now e (w, h) = Inr (w', h')" and "h2_wf h"
  shows "h2_wf h'"
proof (cases e)
  case (On_Begin_Headers frame)
  then show ?thesis using assms by (auto simp: on_begin_headers_callback_def intro: h2_wf_create split: if_splits)
next
  case (On_Header frame name v ni)
  then show ?thesis using assms h2_wf_find [of h "fr_stream_id frame"]
    by (auto simp: on_header_callback_def Let_def split: if_splits option.splits
        intro!: h2_wf_update_stream dest: request_wf_header_field)
next
  case (On_Frame_Recv frame)
  then show ?thesis using assms by (auto simp: on_frame_recv_callback_def split: if_splits option.splits
        intro: h2_wf_call_on_request)
next
  case (On_Data_Chunk_Recv i d)
  then show ?thesis using assms by (auto simp: on_data_chunk_recv_callback_def split: option.splits
        intro!: h2_wf_update_stream dest: h2_wf_find)
next
  case (On_Stream_Close i ec)
  then show ?thesis using assms by (auto simp: on_stream_close_callback_def split: option.splits intro: h2_wf_close)
next
  case (On_Frame_Send frame)
  then show ?thesis using assms by (auto simp: on_frame_send_callback_def split: if_splits option.splits
        intro: h2_wf_respond)
next
  case (On_Frame_Not_Send frame)
  then show ?thesis using assms by (auto simp: on_frame_not_send_callback_def split: if_splits)
next
  case (On_Read_Body i n)
  then show ?thesis using assms by (auto simp: read_callback_def Let_def split: option.splits intro: h2_wf_respond)
qed

lemma h2_wf_callbacks:
  "session_callbacks app mux session_rv fd now es (w, h) = Inr (w', h') \<Longrightarrow> h2_wf h \<Longrightarrow> h2_wf h'"
proof (induction es arbitrary: w h)
  case (Cons e es)
  then obtain w1 h1 where c: "session_callback app mux session_rv fd now e (w, h) = Inr (w1, h1)"
    "session_callbacks app mux session_rv fd now es (w1, h1) = Inr (w', h')" by auto
  show ?case by (rule Cons.IH [OF c(2) h2_wf_callback [OF c(1) Cons.prems(2)]])
qed simp

text \<open>A promised stream has an even number, as the session chooses it.\<close>

definition promises_even :: "session_rv \<Rightarrow> bool" where
  "promises_even session_rv \<longleftrightarrow>
     (\<forall>calls i nva. 0 \<le> session_rv calls (Submit_Push_Promise i nva) \<longrightarrow> even (session_rv calls (Submit_Push_Promise i nva)))"

lemma h2_wf_push_promise:
  "push_promise session_rv i meth path hs h = Inr (p, h') \<Longrightarrow> promises_even session_rv \<Longrightarrow> h2_wf h \<Longrightarrow> h2_wf h'"
  by (auto simp: push_promise_def Let_def promises_even_def split: option.splits if_splits
      intro!: h2_wf_update_stream h2_wf_create)

lemma h2_wf_session_send:
  "session_send mem_send app mux session_rv fd now x = Inr (r, x') \<Longrightarrow> h2_wf (snd (snd x)) \<Longrightarrow> h2_wf (snd (snd x'))"
  by (cases x; cases x') (auto elim: session_send_parts intro: h2_wf_callbacks)

lemma run_wf:
  assumes "h2_run mem_recv mem_send app mux session_rv fd n s0 x sent" and "promises_even session_rv"
  shows "h2_wf (snd (snd x))"
  using assms(1)
proof (induction rule: h2_run.induct)
  case (run_start conf date h w)
  then show ?case using h2_start_handler [OF run_start] by (simp add: h2_wf_def)
next
  case (run_read x sent now buffer len rv x')
  obtain s w h s' w' h' where x: "x = (s, w, h)" "x' = (s', w', h')" by (cases x; cases x')
  from run_read.hyps(2) [unfolded x] show ?case
    by (rule h2_on_read_parts) (use run_read.IH x in \<open>auto dest: h2_wf_callbacks\<close>)
next
  case (run_write x sent buffer now rv buffer' len x')
  obtain s w h s' w' h' where x: "x = (s, w, h)" "x' = (s', w', h')" by (cases x; cases x')
  from run_write.hyps(3) [unfolded x] show ?case
  proof (rule h2_on_write_parts)
    fix out h1
    assume send: "h2_send (session_send mem_send app mux session_rv fd now) buffer (h2_buf h)
        (s, w, h\<lparr>h2_inside_callback := True, h2_buf := None\<rparr>) = Inr (out, s', w', h1)"
    and d: "h' = h1\<lparr>h2_buf := so_pending out, h2_inside_callback := False\<rparr>"
    have "h2_wf (snd (snd (s', w', h1)))"
      by (rule h2_send_preserves [OF send]) (use h2_wf_session_send run_write.IH x in auto)
    then show ?case using d x by simp
  qed
next
  case (run_posted s w h sent)
  then show ?case by (simp add: h2_initiate_write_def)
next
  case (run_reset s w h sent)
  then show ?case by (simp add: h2_reset_writefun_def)
next
  case (run_answer s w h sent now stream_id act h' w')
  then show ?case by (auto intro: h2_wf_run_action)
next
  case (run_push s w h sent stream_id meth path hs p h')
  then show ?case using assms(2) by (auto intro: h2_wf_push_promise)
qed

text \<open>A session with a queue of pieces to send, one that reads the same events whatever arrives, and an application that answers
  later.\<close>

fun queue_session :: "string list mem_send" where
  "queue_session q calls = ([], \<lambda>_. case q of [] \<Rightarrow> ([], Inr []) | d # ds \<Rightarrow> (ds, Inr d))"

definition scripted_recv :: "session_event list \<Rightarrow> 's mem_recv" where
  "scripted_recv events s calls data = (s, events, int (length data))"

definition later_app :: "(unit, unit) application" where
  "later_app cb req stream_id w = Inr (Later, w)"

abbreviation started_handler :: "http2_handler" where
  "started_handler \<equiv> snd (projr (h2_start (\<lambda>_ _. 0) (H2Server_Config_Schema_init 0 0) (http2_handler_init (0, []))))"

lemma start_default:
  "h2_start (\<lambda>_ _. 0) (H2Server_Config_Schema_init 0 0) (http2_handler_init (0, [])) = Inr (0, started_handler)"
  by (simp add: h2_start_def window_of_bits_def H2Server_Config_Schema_init_def Let_def)

lemma first_write:
  "\<exists>h. h2_on_write (recorded_send queue_session) later_app [] (\<lambda>_ _. 0) (\<lambda>_. []) 0 (replicate 8 (CHR ''.''))
     (([''hello '', ''world''], []), (), started_handler) = Inr (0, ''hello ..'', 6, ([], ''hello world''), (), h)"
proof -
  let ?w = "h2_on_write (recorded_send queue_session) later_app [] (\<lambda>_ _. 0) (\<lambda>_. []) 0 (replicate 8 (CHR ''.''))
     (([''hello '', ''world''], []), (), started_handler)"
  have "(case ?w of Inl _ \<Rightarrow> False
     | Inr (rv, b, len, x, u, h) \<Rightarrow> rv = 0 \<and> b = ''hello ..'' \<and> len = 6 \<and> x = ([], ''hello world''))"
    by code_simp
  then show ?thesis by (cases ?w) auto
qed

text \<open>A queue whose pieces are cut to eight bytes.\<close>

fun short_session :: "string list mem_send" where
  "short_session q calls = ([], \<lambda>_. case q of [] \<Rightarrow> ([], Inr []) | d # ds \<Rightarrow> (ds, Inr (take 8 d)))"

abbreviation get_frame :: nghttp2_frame where
  "get_frame \<equiv> \<lparr>fr_type = FRAME_HEADERS, fr_stream_id = 1, fr_end_stream = False, fr_cat_request = True, fr_promised_stream_id = 0\<rparr>"

abbreviation get_events :: "session_event list" where
  "get_events \<equiv> [On_Begin_Headers get_frame, On_Header get_frame '':method'' ''GET'' False, On_Header get_frame ''accept'' ''*/*'' False]"

section \<open>Properties of a connection\<close>

text \<open>What is written to an HTTP/2 connection is what its session produced. Whatever arrives, whatever the application
  answers and when, and however large the buffers are, the bytes put into the buffers so far followed by the piece kept
  back are exactly the bytes the session has given out, in order, none lost and none repeated.\<close>

lemma h2_output_in_order:
  assumes "h2_run (recorded_recv mem_recv) (recorded_send mem_send) app mux session_rv fd n (s0, []) ((s, given), w, h) sent"
  shows "sent @ piece (h2_buf h) = given"
  using run_output_in_order [OF assms] by simp

lemma h2_output_in_order_witness:
  "\<exists>h. h2_run (recorded_recv (scripted_recv [])) (recorded_send queue_session) later_app [] (\<lambda>_ _. 0) (\<lambda>_. []) 8
     ([''hello '', ''world''], []) (([], ''hello world''), (), h) ''hello '' \<and> ''hello '' @ piece (h2_buf h) = ''hello world''"
proof -
  from first_write obtain h where
    w: "h2_on_write (recorded_send queue_session) later_app [] (\<lambda>_ _. 0) (\<lambda>_. []) 0 (replicate 8 (CHR ''.''))
      (([''hello '', ''world''], []), (), started_handler) = Inr (0, ''hello ..'', 6, ([], ''hello world''), (), h)" ..
  have r: "h2_run (recorded_recv (scripted_recv [])) (recorded_send queue_session) later_app [] (\<lambda>_ _. 0) (\<lambda>_. []) 8
     ([''hello '', ''world''], []) (([], ''hello world''), (), h) ''hello ''"
    using run_write [OF run_start [OF start_default] _ w, where n = 8] by simp
  from r h2_output_in_order [OF r] show ?thesis by blast
qed

text \<open>C29. A write stays within the buffer of the connection. In every state a connection can reach, \<^verbatim>\<open>on_write\<close> puts at most as
  much into the buffer as fits. It fails only in two ways: a callback that the session makes during one of the
  \<^verbatim>\<open>nghttp2_session_mem_send\<close> calls of this write fails, with just that failure; or the piece kept back from the write before is longer
  than the buffer, which cannot be when the session gives out no piece longer than the buffer. So the guard against nested
  callbacks never trips.\<close>

theorem h2_write_within_buffer:
  assumes "h2_run mem_recv mem_send app mux session_rv fd n s0 (s, w, h) sent" and "length buffer = n"
  shows "(case h2_on_write mem_send app mux session_rv fd now buffer (s, w, h) of
           Inl e \<Rightarrow> (\<exists>s1 w1 h1. sends_reach (session_send mem_send app mux session_rv fd now)
                        (s, w, h\<lparr>h2_inside_callback := True, h2_buf := None\<rparr>) (s1, w1, h1)
                      \<and> session_callbacks app mux session_rv fd now (fst (mem_send s1 (h2_calls h1))) (w1, h1) = Inl e)
                    \<or> (e = Out_Of_Bounds \<and> n < length (piece (h2_buf h)))
         | Inr (rv, buffer', len, x') \<Rightarrow> len \<le> n \<and> length buffer' = n)
    \<and> (pieces_within n mem_send \<longrightarrow> length (piece (h2_buf h)) \<le> n)"
proof -
  let ?send = "session_send mem_send app mux session_rv fd now"
  let ?h = "h\<lparr>h2_inside_callback := True, h2_buf := None\<rparr>"
  have idle: "pieces_within n mem_send \<longrightarrow> length (piece (h2_buf h)) \<le> n" "\<not> h2_inside_callback h"
    using run_idle [OF assms(1)] by simp_all
  have start: "h2_on_write mem_send app mux session_rv fd now buffer (s, w, h)
      = rbind (h2_send ?send buffer (h2_buf h) (s, w, ?h))
          (\<lambda>(out, s', w', h2). rbind (h2_leave_callback (h2\<lparr>h2_buf := so_pending out\<rparr>)) (\<lambda>h3.
                Inr (so_ret out, so_buffer out, so_len out, s', w', h3)))"
    using idle(2) by (simp add: h2_on_write_def h2_enter_callback_def)
  show ?thesis
  proof (cases "h2_send ?send buffer (h2_buf h) (s, w, ?h)")
    case (Inl e)
    from h2_send_faults [OF Inl] show ?thesis
    proof (elim disjE exE conjE)
      fix y assume y: "sends_reach ?send (s, w, ?h) y" "?send y = Inl e"
      obtain s1 w1 h1 where "y = (s1, w1, h1)" by (cases y)
      then show ?thesis using y session_send_faults [of mem_send app mux session_rv fd now s1 w1 h1 e] idle(1)
        unfolding start Inl by auto
    qed (use start Inl idle(1) assms(2) in simp)
  next
    case (Inr r)
    obtain out s' w' h2 where r: "r = (out, s', w', h2)" by (cases r)
    have "h2_inside_callback h2" by (rule h2_send_keeps_inside [OF Inr [unfolded r]]) simp
    then show ?thesis using start Inr r h2_send_bounds [OF Inr [unfolded r]] assms(2) idle(1)
      by (simp add: h2_leave_callback_def)
  qed
qed

text \<open>The callbacks of a session that makes none do not fail, so its writes succeed.\<close>

theorem h2_write_within_buffer_witness:
  "\<exists>rv buffer' len x'. h2_on_write short_session later_app [] (\<lambda>_ _. 0) (\<lambda>_. []) 0 (replicate 8 (CHR ''.''))
       ([''hello '', ''world''], (), started_handler) = Inr (rv, buffer', len, x') \<and> len \<le> 8 \<and> length buffer' = 8"
proof -
  have run: "h2_run (scripted_recv []) short_session later_app [] (\<lambda>_ _. 0) (\<lambda>_. []) 8 [''hello '', ''world'']
     ([''hello '', ''world''], (), started_handler) []"
    by (rule run_start [OF start_default])
  have "pieces_within 8 short_session" by (simp add: pieces_within_def split: list.splits)
  moreover have "fst (short_session q calls) = []" for q calls by simp
  ultimately show ?thesis
    using h2_write_within_buffer [OF run, of "replicate 8 (CHR ''.'')" 0]
    by (auto split: sum.splits prod.splits)
qed

text \<open>C30. The streams of an HTTP/2 connection stay well-formed: in every state a connection can reach there is one stream for
  each number, and the request of each stream the peer opened has its header ordered by name, with the size
  on record being the true size of its names and values, at most 64 KB. Pushed streams, which have even numbers, copy the header
  they are given.\<close>

theorem h2_streams_well_formed:
  assumes "h2_run mem_recv mem_send app mux session_rv fd n s0 (s, w, h) sent" and "promises_even session_rv"
  shows "map_ordered (<) (h2_streams h)
    \<and> (\<forall>(i, strm) \<in> set (h2_streams h). odd i \<longrightarrow> sorted_wrt (\<lambda>a b. \<not> b < a) (map fst (req_header (st_request strm)))
      \<and> header_bytes (req_header (st_request strm)) = req_header_buffer_size (st_request strm)
      \<and> header_bytes (req_header (st_request strm)) \<le> 64 * 1024)"
  using run_wf [OF assms] by (auto simp: h2_wf_def request_wf_def)

lemma one_stream:
  "(case r of Inl _ \<Rightarrow> False | Inr (rv, q, u, h) \<Rightarrow> q = [] \<and> map fst (h2_streams h) = [1] \<and> P (snd (hd (h2_streams h))))
     \<Longrightarrow> \<exists>rv h strm. r = Inr (rv, [], (u :: unit), h) \<and> h2_streams h = [(1, strm)] \<and> P strm"
  by (cases r) (auto simp: map_eq_Cons_conv)

theorem h2_streams_well_formed_witness:
  "\<exists>h strm. h2_run (scripted_recv get_events) queue_session later_app [] (\<lambda>_ _. 0) (\<lambda>_. []) 8 [] ([], (), h) []
     \<and> h2_streams h = [(1, strm)] \<and> header_bytes (req_header (st_request strm)) = req_header_buffer_size (st_request strm)
     \<and> req_header (st_request strm) = [(''accept'', \<lparr>hv_value = ''*/*'', hv_sensitive = False\<rparr>)]"
proof -
  let ?r = "h2_on_read (scripted_recv get_events) later_app [] (\<lambda>_ _. 0) (\<lambda>_. []) 0 [] 0 ([] :: string list, (), started_handler)"
  have "(case ?r of Inl _ \<Rightarrow> False | Inr (rv, q, u, h) \<Rightarrow> q = [] \<and> map fst (h2_streams h) = [1]
      \<and> req_header (st_request (snd (hd (h2_streams h)))) = [(''accept'', \<lparr>hv_value = ''*/*'', hv_sensitive = False\<rparr>)])"
    by code_simp
  from one_stream [OF this] obtain rv h strm where r: "?r = Inr (rv, [], (), h)" and h: "h2_streams h = [(1, strm)]"
    and a: "req_header (st_request strm) = [(''accept'', \<lparr>hv_value = ''*/*'', hv_sensitive = False\<rparr>)]"
    by blast
  have run: "h2_run (scripted_recv get_events) queue_session later_app [] (\<lambda>_ _. 0) (\<lambda>_. []) 8 [] ([], (), h) []"
    by (rule run_read [OF run_start [OF start_default] r])
  from h2_streams_well_formed [OF run] h a run show ?thesis by (auto simp: promises_even_def)
qed

end
