(* ===== verification/Http2_Response.thy ===== *)
theory Http2_Response
  imports Dispatch Http2_Request Http2_Session
begin

text \<open>
  A response over HTTP/2: what the handler submits to the session when the application sends a response, and what the
  session reads as its body.
\<close>

section \<open>What the session reads\<close>

text \<open>The answers to reads of the given lengths, for a body of which \<open>data\<close> is left and trailers \<open>tr\<close>.\<close>

fun body_log :: "int \<Rightarrow> string \<Rightarrow> header_map \<Rightarrow> nat list \<Rightarrow> session_call list" where
  "body_log i data tr [] = []"
| "body_log i data tr (n # ns) =
     (if length data \<le> n
      then (if tr = [] then [Body_Read i (int (length data)) data NGHTTP2_DATA_FLAG_EOF]
            else [Submit_Trailer_Fields i (trailer_fields tr),
                  Body_Read i (int (length data)) data (or NGHTTP2_DATA_FLAG_EOF NGHTTP2_DATA_FLAG_NO_END_STREAM)])
           @ map (\<lambda>_. Body_Read i 0 [] NGHTTP2_DATA_FLAG_EOF) ns
      else Body_Read i (int n) (take n data) 0 # body_log i (drop n data) tr ns)"

fun bytes_read :: "session_call \<Rightarrow> string" where
  "bytes_read (Body_Read i ret bytes flags) = bytes"
| "bytes_read c = []"

lemma body_log_bytes: "concat (map bytes_read (body_log i data tr ns)) = take (sum_list ns) data"
proof (induction ns arbitrary: data)
  case (Cons n ns)
  have "concat (map (bytes_read \<circ> (\<lambda>_. Body_Read i 0 [] NGHTTP2_DATA_FLAG_EOF)) ns) = []"
    by (simp add: comp_def)
  then show ?case using Cons by (simp add: take_add)
qed simp

lemma calls_update_stream [simp]: "h2_calls (h2_update_stream i s h) = h2_calls h"
  by (simp add: h2_update_stream_def)

lemma calls_ask [simp]: "h2_calls (ask c h) = h2_calls h @ [c]"
  by (simp add: ask_def)

lemma calls_signal_write [simp]: "h2_calls (h2_signal_write h) = h2_calls h"
  by (simp add: h2_signal_write_def)

text \<open>A stream whose body is to be read.\<close>

definition reading :: "int \<Rightarrow> server_stream \<Rightarrow> session_call list \<Rightarrow> http2_handler \<Rightarrow> bool" where
  "reading i s calls h \<longleftrightarrow> map_ordered (<) (h2_streams h) \<and> find_stream i (h2_streams h) = Some s \<and> h2_calls h = calls"

lemma read_callback_step:
  assumes "reading i s calls h" and "rd = call_read n 0 (st_response s)"
    and "rd_calls rd = [] \<and> c = [] \<or> rd_calls rd = [Submit_Trailer tr] \<and> c = [Submit_Trailer_Fields i (trailer_fields tr)]"
  obtains h' where "read_callback session_rv fd now i n h = Inr h'"
    and "reading i (s\<lparr>st_response := rd_response rd\<rparr>) (calls @ c @ [Body_Read i (rd_ret rd) (rd_bytes rd) (rd_flags rd)]) h'"
proof -
  let ?h = "h2_update_stream i (s\<lparr>st_response := rd_response rd\<rparr>) h"
  have s: "find_stream i (h2_streams h) = Some s" "map_ordered (<) (h2_streams h)" "h2_calls h = calls"
    using assms(1) by (simp_all add: reading_def)
  have o: "map_ordered (<) (h2_streams ?h)" by (simp add: h2_update_stream_def lin.map_assign_ordered s)
  show ?thesis
    by (rule that) (use assms(2,3) s o in
        \<open>auto simp: read_callback_def h2_respond_def h2_submit_trailer_def reading_def Let_def\<close>)
qed

text \<open>After the end of the body there is nothing more to read.\<close>

lemma reads_after_end:
  assumes "rp_generator (st_response s) = None" and "rp_trailers (st_response s) = []"
  shows "reading i s calls h \<Longrightarrow> \<exists>h'. session_callbacks app mux session_rv fd now (map (On_Read_Body i) ns) (w, h) = Inr (w, h')
    \<and> h2_calls h' = calls @ map (\<lambda>_. Body_Read i 0 [] NGHTTP2_DATA_FLAG_EOF) ns"
proof (induction ns arbitrary: h calls)
  case (Cons n ns)
  let ?rd = "call_read n 0 (st_response s)"
  have rd: "?rd = \<lparr>rd_ret = 0, rd_bytes = [], rd_flags = NGHTTP2_DATA_FLAG_EOF, rd_response = st_response s, rd_calls = []\<rparr>"
    using assms by (simp add: call_read_def Let_def)
  obtain h1 where h1: "read_callback session_rv fd now i n h = Inr h1"
    "reading i s (calls @ [Body_Read i 0 [] NGHTTP2_DATA_FLAG_EOF]) h1"
    by (rule read_callback_step [OF Cons.prems refl, of n "[]" "[]" session_rv fd now]) (simp_all add: rd)
  from Cons.IH [OF h1(2)] h1(1) show ?case by auto
qed (auto simp: reading_def)

lemma reads_body:
  assumes "left \<le> length payload"
  shows "reading i s calls h \<Longrightarrow> rp_generator (st_response s) = Some (String_Generator payload left) \<Longrightarrow>
    rp_trailers (st_response s) = tr \<Longrightarrow>
    \<exists>h'. session_callbacks app mux session_rv fd now (map (On_Read_Body i) ns) (w, h) = Inr (w, h')
      \<and> h2_calls h' = calls @ body_log i (drop (length payload - left) payload) tr ns"
  using assms
proof (induction ns arbitrary: h calls s left)
  case (Cons n ns)
  let ?res = "st_response s"
  let ?rd = "call_read n 0 ?res"
  let ?data = "drop (length payload - left) payload"
  have len: "length ?data = left" using Cons.prems(4) by simp
  show ?case
  proof (cases "left \<le> n")
    case True
    let ?fin = "s\<lparr>st_response := ?res\<lparr>rp_generator := None, rp_trailers := []\<rparr>\<rparr>"
    let ?log = "if tr = [] then [Body_Read i (int (length ?data)) ?data NGHTTP2_DATA_FLAG_EOF]
       else [Submit_Trailer_Fields i (trailer_fields tr),
             Body_Read i (int (length ?data)) ?data (or NGHTTP2_DATA_FLAG_EOF NGHTTP2_DATA_FLAG_NO_END_STREAM)]"
    have rd: "rd_ret ?rd = int (length ?data)" "rd_bytes ?rd = ?data"
      "rd_flags ?rd = (if tr = [] then NGHTTP2_DATA_FLAG_EOF else or NGHTTP2_DATA_FLAG_EOF NGHTTP2_DATA_FLAG_NO_END_STREAM)"
      "rd_response ?rd = ?res\<lparr>rp_generator := None, rp_trailers := []\<rparr>"
      "rd_calls ?rd = (if tr = [] then [] else [Submit_Trailer tr])"
      using True Cons.prems(2-4)
      by (auto simp: call_read_def Let_def send_trailer_def eof_flags NGHTTP2_DATA_FLAG_EOF_def
          NGHTTP2_DATA_FLAG_NO_END_STREAM_def)
    obtain h1 where h1: "read_callback session_rv fd now i n h = Inr h1" "reading i ?fin (calls @ ?log) h1"
      by (rule read_callback_step [OF Cons.prems(1) refl, of n "if tr = [] then [] else [Submit_Trailer_Fields i (trailer_fields tr)]"
            tr session_rv fd now]) (auto simp: rd split: if_splits)
    from reads_after_end [OF _ _ h1(2)] h1(1) True len show ?thesis by auto
  next
    case False
    let ?next = "s\<lparr>st_response := ?res\<lparr>rp_generator := Some (String_Generator payload (left - n))\<rparr>\<rparr>"
    have rd: "?rd = \<lparr>rd_ret = int n, rd_bytes = take n ?data, rd_flags = 0,
        rd_response = ?res\<lparr>rp_generator := Some (String_Generator payload (left - n))\<rparr>, rd_calls = []\<rparr>"
      by (rule call_read_part) (use False Cons.prems in auto)
    obtain h1 where h1: "read_callback session_rv fd now i n h = Inr h1"
      "reading i ?next (calls @ [Body_Read i (int n) (take n ?data) 0]) h1"
      by (rule read_callback_step [OF Cons.prems(1) refl, of n "[]" "[]" session_rv fd now]) (simp_all add: rd)
    have "drop (length payload - (left - n)) payload = drop n ?data" using False Cons.prems(4) by (simp add: add.commute)
    with Cons.IH [OF h1(2), of "left - n"] h1(1) False len Cons.prems(3,4) show ?thesis by auto
  qed
qed (auto simp: reading_def)

section \<open>What the handler submits\<close>

text \<open>The header of a response that is sent: its fields, and the length of the body unless it is given or trailers follow.\<close>

definition header_of_send :: "(string \<times> string) list \<Rightarrow> string \<Rightarrow> (string \<times> string) list \<Rightarrow> header_map" where
  "header_of_send headers payload trailers =
     (if payload \<noteq> [] \<and> map_find (<) ''content-length'' (insert_headers headers []) = None \<and> trailers = []
      then header_emplace ''content-length'' (plain_value (nat_dec (length payload))) (insert_headers headers [])
      else insert_headers headers [])"

lemma send_ops_with_body:
  assumes "expect_response_body_for meth (unat code)"
  shows "\<exists>res. send_ops 0 code headers payload trailers meth asio_server_response_init = (res, [Start_Response, Resume])
    \<and> rp_status_code res = unat code \<and> rp_header res = header_of_send headers payload trailers
    \<and> rp_generator res = Some (String_Generator payload (length payload)) \<and> rp_trailers res = insert_headers trailers []"
  using assms
  by (auto simp: send_ops_def then_do_def write_head_def start_response_def end_string_def send_data_no_eos_def end_with_def
      write_trailer_def header_of_send_def insert_headers_def string_generator_def asio_server_response_init_def Let_def)

lemma send_ops_without_body:
  assumes "\<not> expect_response_body_for meth (unat code)"
  shows "\<exists>res. send_ops 0 code headers payload trailers meth asio_server_response_init = (res, [Start_Response])"
  using assms
  by (cases "trailers = []")
    (simp_all add: send_ops_def then_do_def write_head_def start_response_def end_string_def send_data_no_eos_def end_with_def
      write_trailer_def asio_server_response_init_def Let_def)

lemma send_ops_head:
  "rp_status_code (fst (send_ops rv code headers payload trailers meth asio_server_response_init)) = unat code
   \<and> rp_header (fst (send_ops rv code headers payload trailers meth asio_server_response_init)) = header_of_send headers payload trailers"
  by (auto simp: send_ops_def then_do_def write_head_def start_response_def end_string_def send_data_no_eos_def end_with_def
      write_trailer_def send_trailer_def header_of_send_def insert_headers_def asio_server_response_init_def Let_def)

lemma response_call_header:
  "rp_status_code res = code \<Longrightarrow> rp_header res = hs \<Longrightarrow> response_call date i meth res
    = Submit_Response i (make_nv_ls '':status'' (nat_dec code) # make_nv_ls ''date'' date # trailer_fields hs)
        (expect_response_body_for meth code)"
  by (simp add: response_call_def response_fields_def trailer_fields_def)

text \<open>The submission of a response, whether it has a body or not.\<close>

definition submit_call :: "(int \<Rightarrow> string) \<Rightarrow> int \<Rightarrow> http2_handler \<Rightarrow> int \<Rightarrow> string \<Rightarrow> u32 \<Rightarrow> header_map \<Rightarrow> session_call" where
  "submit_call fd now h i meth code hs =
     Submit_Response i (make_nv_ls '':status'' (nat_dec (unat code)) # make_nv_ls ''date'' (fst (refresh_date fd now h)) # trailer_fields hs)
       (expect_response_body_for meth (unat code))"

lemma start_response_submits:
  assumes "\<forall>calls nva b. session_rv calls (Submit_Response i nva b) = 0"
    and "rp_status_code res = unat code" and "rp_header res = hs" and "h2_date h' = h2_date h"
  shows "fst (h2_start_response session_rv fd now i meth res h') = 0"
    and "h2_calls (snd (h2_start_response session_rv fd now i meth res h')) = h2_calls h' @ [submit_call fd now h i meth code hs]"
    and "h2_streams (snd (h2_start_response session_rv fd now i meth res h')) = h2_streams h'"
  using assms
  by (auto simp: h2_start_response_def response_call_header [OF assms(2,3)] refresh_date_def http_date_def submit_call_def Let_def)

lemma response_calls:
  fixes fd :: "int \<Rightarrow> string" and now :: int and code :: u32 and headers trailers :: "(string \<times> string) list" and payload :: string
  assumes "map_ordered (<) (h2_streams h)"
    and "find_stream i (h2_streams h) = Some \<lparr>st_request = req, st_response = asio_server_response_init\<rparr>"
    and "\<forall>calls nva b. session_rv calls (Submit_Response i nva b) = 0"
  defines "act \<equiv> Answer (\<lambda>rv. send_ops rv code headers payload trailers (req_method req))"
    and "submit \<equiv> submit_call fd now h i (req_method req) code (header_of_send headers payload trailers)"
    and "tr \<equiv> insert_headers trailers []"
  shows "expect_response_body_for (req_method req) (unat code) \<Longrightarrow>
      \<exists>h1 h2. h2_run_action session_rv fd now i act h = Inr h1 \<and> h2_calls h1 = h2_calls h @ [submit, Resume_Data i]
        \<and> session_callbacks app mux session_rv fd now' (map (On_Read_Body i) ns) (w, h1) = Inr (w, h2)
        \<and> h2_calls h2 = h2_calls h @ [submit, Resume_Data i] @ body_log i payload tr ns"
    and "\<not> expect_response_body_for (req_method req) (unat code) \<Longrightarrow>
      \<exists>h1. h2_run_action session_rv fd now i act h = Inr h1 \<and> h2_calls h1 = h2_calls h @ [submit]"
proof -
  let ?op = "\<lambda>rv. send_ops rv code headers payload trailers (req_method req)"
  let ?hs = "header_of_send headers payload trailers"
  let ?res = "fst (?op 0 asio_server_response_init)"
  let ?s = "\<lparr>st_request = req, st_response = ?res\<rparr>"
  let ?h0 = "h2_update_stream i ?s h"
  let ?hr = "snd (h2_start_response session_rv fd now i (req_method req) ?res ?h0)"
  have res: "rp_status_code ?res = unat code" "rp_header ?res = ?hs" using send_ops_head by simp_all
  have date: "h2_date ?h0 = h2_date h" by (simp add: h2_update_stream_def)
  note start = start_response_submits [OF assms(3) res, where fd = fd and now = now and meth = "req_method req" and h = h]
  have calls: "h2_calls ?hr = h2_calls h @ [submit]" "h2_streams ?hr = h2_streams ?h0"
    using start(2,3) [OF date] by (simp_all add: submit_def)
  {
    assume body: "expect_response_body_for (req_method req) (unat code)"
    obtain res' where op: "?op 0 asio_server_response_init = (res', [Start_Response, Resume])"
      and gen: "rp_generator res' = Some (String_Generator payload (length payload))" "rp_trailers res' = tr"
      using send_ops_with_body [OF body] unfolding tr_def by blast
    let ?h1 = "h2_resume i ?hr"
    have run: "h2_run_action session_rv fd now i act h = Inr ?h1"
      using start(1) [OF refl] op by (simp add: act_def h2_respond_def assms(2) Let_def)
    have "reading i ?s (h2_calls h @ [submit, Resume_Data i]) ?h1"
      using assms(1) calls by (simp add: reading_def h2_resume_def) (simp add: h2_update_stream_def lin.map_assign_ordered)
    from reads_body [OF order_refl this, where app = app and mux = mux and session_rv = session_rv and fd = fd and now = now'
        and ns = ns and w = w]
    obtain h2 where "session_callbacks app mux session_rv fd now' (map (On_Read_Body i) ns) (w, ?h1) = Inr (w, h2)"
      "h2_calls h2 = (h2_calls h @ [submit, Resume_Data i]) @ body_log i payload tr ns"
      using gen op by auto
    then show "\<exists>h1 h2. h2_run_action session_rv fd now i act h = Inr h1 \<and> h2_calls h1 = h2_calls h @ [submit, Resume_Data i]
        \<and> session_callbacks app mux session_rv fd now' (map (On_Read_Body i) ns) (w, h1) = Inr (w, h2)
        \<and> h2_calls h2 = h2_calls h @ [submit, Resume_Data i] @ body_log i payload tr ns"
      using run calls(1) by (intro exI [of _ ?h1] exI [of _ h2]) (simp add: h2_resume_def)
  next
    assume bodiless: "\<not> expect_response_body_for (req_method req) (unat code)"
    then obtain res' where op: "?op 0 asio_server_response_init = (res', [Start_Response])"
      using send_ops_without_body by blast
    then have "h2_run_action session_rv fd now i act h = Inr ?hr"
      using start(1) [OF refl] by (simp add: act_def h2_respond_def assms(2) Let_def)
    then show "\<exists>h1. h2_run_action session_rv fd now i act h = Inr h1 \<and> h2_calls h1 = h2_calls h @ [submit]"
      using calls(1) by blast
  }
qed

text \<open>C21. A response over HTTP/2 is submitted and read as it was produced. When the application sends a response on an open
  stream, and the session accepts it, the handler submits exactly one response: its status, the date, and the produced header
  fields (with the length of the body unless they give it or trailers follow). If the method and the status allow a body
  (not for \<^verbatim>\<open>HEAD\<close>, nor for the statuses without one), the session is told to read it, and whatever lengths it then asks for,
  it reads the payload in order: no read before the end is marked as the end, the one that reaches it and all later ones are,
  and trailers are submitted once, just before the first mark, which then does not end the stream. If they do not, the response
  is submitted without a body and nothing more is asked of the session: neither the payload nor the trailers are sent.\<close>

theorem h2_response_as_produced:
  assumes "map_ordered (<) (h2_streams h)"
    and "find_stream i (h2_streams h) = Some \<lparr>st_request = req, st_response = asio_server_response_init\<rparr>"
    and "\<forall>calls nva b. session_rv calls (Submit_Response i nva b) = 0"
  shows "\<exists>h1. h2_run_action session_rv fd now i
        (Answer (\<lambda>rv. send_ops rv code headers payload trailers (req_method req))) h = Inr h1
    \<and> (let submit = Submit_Response i
             (make_nv_ls '':status'' (nat_dec (unat code)) # make_nv_ls ''date'' (fst (refresh_date fd now h))
              # trailer_fields (header_of_send headers payload trailers)) (expect_response_body_for (req_method req) (unat code))
       in if expect_response_body_for (req_method req) (unat code)
          then h2_calls h1 = h2_calls h @ [submit, Resume_Data i]
            \<and> (\<exists>h2. session_callbacks app mux session_rv fd now' (map (On_Read_Body i) ns) (w, h1) = Inr (w, h2)
                 \<and> h2_calls h2 = h2_calls h1 @ body_log i payload (insert_headers trailers []) ns)
            \<and> concat (map bytes_read (body_log i payload (insert_headers trailers []) ns)) = take (sum_list ns) payload
          else h2_calls h1 = h2_calls h @ [submit])"
proof (cases "expect_response_body_for (req_method req) (unat code)")
  case True
  from response_calls(1) [OF assms True, where app = app and mux = mux and now' = now' and ns = ns and w = w]
  show ?thesis using True body_log_bytes by (fastforce simp: submit_call_def Let_def)
next
  case False
  from response_calls(2) [OF assms False]
  show ?thesis using False by (auto simp: submit_call_def Let_def)
qed

theorem h2_response_as_produced_witness:
  "\<exists>h1 h2. h2_run_action (\<lambda>_ _. 0) (\<lambda>_. ''now'') 7 1 (Answer (\<lambda>rv. send_ops rv 200 [(''a'', ''b'')] ''hello'' [] ''GET''))
        (h2_update_stream 1 \<lparr>st_request = asio_server_request_init\<lparr>req_method := ''GET''\<rparr>, st_response = asio_server_response_init\<rparr>
           (http2_handler_init (0, []))) = Inr h1
    \<and> session_callbacks later_app [] (\<lambda>_ _. 0) (\<lambda>_. ''now'') 8 (map (On_Read_Body 1) [3, 3]) ((), h1) = Inr ((), h2)
    \<and> h2_calls h2 = [Submit_Response 1 [make_nv_ls '':status'' ''200'', make_nv_ls ''date'' ''now'', make_nv_ls ''a'' ''b'',
          make_nv_ls ''content-length'' ''5''] True, Resume_Data 1, Body_Read 1 3 ''hel'' 0, Body_Read 1 2 ''lo'' 1]"
proof -
  let ?s = "\<lparr>st_request = asio_server_request_init\<lparr>req_method := ''GET''\<rparr>, st_response = asio_server_response_init\<rparr>"
  let ?h = "h2_update_stream 1 ?s (http2_handler_init (0, []))"
  have e: "expect_response_body_for (req_method (asio_server_request_init\<lparr>req_method := ''GET''\<rparr>)) (unat (200 :: u32))"
    by code_simp
  have "map_ordered (<) (h2_streams ?h)" "find_stream 1 (h2_streams ?h) = Some ?s"
    by (simp_all add: http2_handler_init_def h2_update_stream_def find_stream_def lin.equivalent_key)
  note R = h2_response_as_produced [OF this, where session_rv = "\<lambda>_ _. 0" and fd = "\<lambda>_. ''now''" and now = 7 and code = 200
      and headers = "[(''a'', ''b'')]" and payload = "''hello''" and trailers = "[]" and app = later_app and mux = "[]" and now' = 8
      and ns = "[3, 3]" and w = "()"]
  have s: "nat_dec (unat (200 :: u32)) = ''200''" "nat_dec 5 = ''5''" by code_simp+
  have hs: "trailer_fields (header_of_send [(''a'', ''b'')] ''hello'' []) = [make_nv_ls ''a'' ''b'', make_nv_ls ''content-length'' ''5'']"
    by code_simp
  have d: "fst (refresh_date (\<lambda>_. ''now'') 7 ?h) = ''now''" by code_simp
  have b: "body_log 1 ''hello'' (insert_headers [] []) [3, 3] = [Body_Read 1 3 ''hel'' 0, Body_Read 1 2 ''lo'' 1]"
    by (simp add: insert_headers_def NGHTTP2_DATA_FLAG_EOF_def)
  have c: "h2_calls ?h = []" by (simp add: http2_handler_init_def)
  from R e show ?thesis unfolding s hs d b c by (auto simp: Let_def)
qed

end
