(* ===== verification/Lua_Store.thy ===== *)
theory Lua_Store
  imports Response
begin

text \<open>
  The functions the server registers in every Lua state (\<^verbatim>\<open>common_lua.cc\<close>): the store that scripts
  of all worker threads share, and the identifiers they draw.

  The store is an array of 256 by 256 ordered maps, each behind its own mutex; the shard of a key
  is computed from the sum of its bytes. A call takes its arguments from the Lua stack (a list,
  the top last) and leaves its results there; it returns how many. Every function holds one mutex
  for its whole access, so concurrent calls behave as some sequence of calls.
\<close>

section \<open>State\<close>

type_synonym global_datas = "u8 \<Rightarrow> u8 \<Rightarrow> (string \<times> string) list"

record lua_shared =
  lua_stack :: "lua_value list"
  shared_data :: global_datas

definition empty_datas :: global_datas where
  "empty_datas = (\<lambda>row col. [])"

text \<open>\<^verbatim>\<open>std::accumulate\<close> keeps an \<^verbatim>\<open>int\<close>; the lambda takes it as a \<^verbatim>\<open>uint16_t\<close>.\<close>

definition get_u16_sum :: "string \<Rightarrow> u16" where
  "get_u16_sum key = word_of_int (foldl (\<lambda>sum c. sum mod 2 ^ 16 + int (of_char c)) 0 key)"

text \<open>\<^verbatim>\<open>sum >> 16\<close> shifts an \<^verbatim>\<open>int\<close> made of the 16 bits.\<close>

definition shard_row :: "string \<Rightarrow> u8" where
  "shard_row key = ucast (drop_bit 16 (ucast (get_u16_sum key) :: u32))"

definition shard_col :: "string \<Rightarrow> u8" where
  "shard_col key = ucast (and (ucast (get_u16_sum key)) (0xFF :: u32))"

definition shard_update :: "u8 \<Rightarrow> u8 \<Rightarrow> (string \<times> string) list \<Rightarrow> global_datas \<Rightarrow> global_datas" where
  "shard_update row col m gd = gd(row := (gd row)(col := m))"

section \<open>The functions seen by Lua\<close>

definition store_value :: "lua_shared \<Rightarrow> nat \<times> lua_shared" where
  "store_value s =
     (let L = lua_stack s;
          (key, value, L') =
            (if length L = 2
             then (lua_text (last (butlast L)), lua_text (last L), butlast (butlast L))
             else ([], [], []));
          row = shard_row key; col = shard_col key
      in (0, s\<lparr>lua_stack := L',
               shared_data := shard_update row col
                 (map_assign (<) key value (shared_data s row col)) (shared_data s)\<rparr>))"

definition get_value :: "lua_shared \<Rightarrow> nat \<times> lua_shared" where
  "get_value s =
     (let L = lua_stack s;
          (key, L') = (if length L = 1 then (lua_text (last L), butlast L) else ([], []));
          row = shard_row key; col = shard_col key
      in case map_find (<) key (shared_data s row col) of
           Some v \<Rightarrow> (1, s\<lparr>lua_stack := L' @ [LString v]\<rparr>)
         | None \<Rightarrow> (0, s\<lparr>lua_stack := L'\<rparr>))"

definition delete_value :: "lua_shared \<Rightarrow> nat \<times> lua_shared" where
  "delete_value s =
     (let L = lua_stack s;
          (key, L') = (if length L = 1 then (lua_text (last L), butlast L) else ([], []));
          row = shard_row key; col = shard_col key
      in case map_find (<) key (shared_data s row col) of
           Some v \<Rightarrow> (1, s\<lparr>lua_stack := L' @ [LString v],
                           shared_data := shard_update row col
                             (map_erase (<) key (shared_data s row col)) (shared_data s)\<rparr>)
         | None \<Rightarrow> (0, s\<lparr>lua_stack := L'\<rparr>))"

text \<open>\<open>now_ms\<close> is the reading of the steady clock.\<close>

definition time_since_epoch :: "int \<Rightarrow> lua_shared \<Rightarrow> nat \<times> lua_shared" where
  "time_since_epoch now_ms s = (1, s\<lparr>lua_stack := lua_stack s @ [LNumber (int_dec now_ms)]\<rparr>)"

definition generate_uuid :: "rng \<Rightarrow> lua_shared \<Rightarrow> (nat \<times> lua_shared) \<times> rng" where
  "generate_uuid g0 s =
     (let (a, g1) = random_hex 8 g0;
          (b, g2) = random_hex 4 g1;
          (c, g3) = random_hex 3 g2;
          (v, g4) = uniform_int 8 11 g3;
          (d, g5) = random_hex 3 g4;
          (e, g6) = random_hex 12 g5;
          ss = a @ ''-'' @ b @ ''-4'' @ c @ ''-'' @ [hex_digit v] @ d @ ''-'' @ e
      in ((1, s\<lparr>lua_stack := lua_stack s @ [LString ss]\<rparr>), g6))"

section \<open>The shards as one dictionary\<close>

definition put_datas :: "string \<Rightarrow> string \<Rightarrow> global_datas \<Rightarrow> global_datas" where
  "put_datas k v gd = shard_update (shard_row k) (shard_col k)
     (map_assign (<) k v (gd (shard_row k) (shard_col k))) gd"

definition remove_datas :: "string \<Rightarrow> global_datas \<Rightarrow> global_datas" where
  "remove_datas k gd = shard_update (shard_row k) (shard_col k)
     (map_erase (<) k (gd (shard_row k) (shard_col k))) gd"

definition get_datas :: "string \<Rightarrow> global_datas \<Rightarrow> string option" where
  "get_datas k gd = map_find (<) k (gd (shard_row k) (shard_col k))"

text \<open>Every shard is ordered and holds only keys that belong to it.\<close>

definition datas_invar :: "global_datas \<Rightarrow> bool" where
  "datas_invar gd \<longleftrightarrow> (\<forall>row col. map_ordered (<) (gd row col)
     \<and> (\<forall>k \<in> set (map fst (gd row col)). shard_row k = row \<and> shard_col k = col))"

lemma datas_invarD: "datas_invar gd \<Longrightarrow> map_ordered (<) (gd row col)"
  by (simp add: datas_invar_def)

lemma keys_map_assign: "set (map fst (map_assign (<) k v m)) \<subseteq> insert (k :: string) (set (map fst m))"
  by (simp only: lin.map_assign_fst lin.set_insert_subset)

lemma keys_map_erase: "set (map fst (map_erase lt k m)) \<subseteq> set (map fst m)"
  by (auto simp: map_erase_def)

lemma datas_invar_shard_update:
  assumes "datas_invar gd" and "map_ordered (<) m"
    and "set (map fst m) \<subseteq> insert k (set (map fst (gd (shard_row k) (shard_col k))))"
  shows "datas_invar (shard_update (shard_row k) (shard_col k) m gd)"
proof -
  have "shard_row a = shard_row k \<and> shard_col a = shard_col k" if "a \<in> set (map fst m)" for a
    using that assms unfolding datas_invar_def by blast
  with assms(1,2) show ?thesis unfolding datas_invar_def shard_update_def by simp
qed

interpretation lua_dict: dictionary empty_datas put_datas remove_datas get_datas datas_invar
proof
  show "datas_invar empty_datas" by (simp add: datas_invar_def empty_datas_def)
  show "datas_invar (put_datas k v m)" if "datas_invar m" for m k v
    unfolding put_datas_def
    by (rule datas_invar_shard_update [OF that lin.map_assign_ordered [OF datas_invarD [OF that]] keys_map_assign])
  show "datas_invar (remove_datas k m)" if "datas_invar m" for m k
    unfolding remove_datas_def
    by (rule datas_invar_shard_update [OF that lin.map_erase_ordered [OF datas_invarD [OF that]]
          subset_insertI2 [OF keys_map_erase]])
  show "get_datas k empty_datas = None" for k by (simp add: get_datas_def empty_datas_def)
  show "get_datas k (put_datas k' v m) = (if k = k' then Some v else get_datas k m)" if "datas_invar m" for k k' v m
    using std_map.lookup_update [OF datas_invarD [OF that]]
    by (auto simp: get_datas_def put_datas_def shard_update_def)
  show "get_datas k (remove_datas k' m) = (if k = k' then None else get_datas k m)" if "datas_invar m" for k k' m
    using std_map.lookup_delete [OF datas_invarD [OF that]]
    by (auto simp: get_datas_def remove_datas_def shard_update_def)
qed

section \<open>Sequences of calls\<close>

text \<open>A call from a script: the function and its arguments, on a stack of its own; what it hands
  back are the results on top of the stack.\<close>

datatype script_call = Store_Value "lua_value list" | Get_Value "lua_value list" | Delete_Value "lua_value list"

fun call_function :: "script_call \<Rightarrow> global_datas \<Rightarrow> lua_value list \<times> global_datas" where
  "call_function c gd =
     (let (n, s) = (case c of
            Store_Value args \<Rightarrow> store_value \<lparr>lua_stack = args, shared_data = gd\<rparr>
          | Get_Value args \<Rightarrow> get_value \<lparr>lua_stack = args, shared_data = gd\<rparr>
          | Delete_Value args \<Rightarrow> delete_value \<lparr>lua_stack = args, shared_data = gd\<rparr>)
      in (drop (length (lua_stack s) - n) (lua_stack s), shared_data s))"

fun run_calls :: "script_call list \<Rightarrow> global_datas \<Rightarrow> lua_value list list" where
  "run_calls [] gd = []"
| "run_calls (c # cs) gd = (let (r, gd') = call_function c gd in r # run_calls cs gd')"

text \<open>The store as the scripts understand it: one map; a call with the wrong number of arguments
  is a call with empty ones.\<close>

definition key_arg :: "lua_value list \<Rightarrow> string" where
  "key_arg args = (if length args = 1 then lua_text (args ! 0) else [])"

definition pair_arg :: "lua_value list \<Rightarrow> string \<times> string" where
  "pair_arg args = (if length args = 2 then (lua_text (args ! 0), lua_text (args ! 1)) else ([], []))"

definition answer :: "string option \<Rightarrow> lua_value list" where
  "answer v = (case v of None \<Rightarrow> [] | Some s \<Rightarrow> [LString s])"

fun spec_call :: "script_call \<Rightarrow> (string \<rightharpoonup> string) \<Rightarrow> lua_value list \<times> (string \<rightharpoonup> string)" where
  "spec_call (Store_Value args) m = ([], m(fst (pair_arg args) \<mapsto> snd (pair_arg args)))"
| "spec_call (Get_Value args) m = (answer (m (key_arg args)), m)"
| "spec_call (Delete_Value args) m = (answer (m (key_arg args)), m(key_arg args := None))"

fun spec_calls :: "script_call list \<Rightarrow> (string \<rightharpoonup> string) \<Rightarrow> lua_value list list" where
  "spec_calls [] m = []"
| "spec_calls (c # cs) m = (let (r, m') = spec_call c m in r # spec_calls cs m')"

abbreviation abs_datas :: "global_datas \<Rightarrow> (string \<rightharpoonup> string)" where
  "abs_datas gd \<equiv> (\<lambda>k. get_datas k gd)"

lemma length_one: "length xs = Suc 0 \<longleftrightarrow> (\<exists>a. xs = [a])"
  by (cases xs) auto

lemma length_two: "length xs = Suc (Suc 0) \<longleftrightarrow> (\<exists>a b. xs = [a, b])"
  by (cases xs) (auto simp: length_one)

lemma call_store:
  "call_function (Store_Value args) gd = ([], put_datas (fst (pair_arg args)) (snd (pair_arg args)) gd)"
  by (auto simp: store_value_def pair_arg_def put_datas_def Let_def length_two numeral_2_eq_2)

lemma call_get: "call_function (Get_Value args) gd = (answer (get_datas (key_arg args) gd), gd)"
  by (auto simp: get_value_def key_arg_def get_datas_def answer_def Let_def length_one split: option.splits)

lemma call_delete:
  "call_function (Delete_Value args) gd
    = (answer (get_datas (key_arg args) gd),
       if get_datas (key_arg args) gd = None then gd else remove_datas (key_arg args) gd)"
  by (auto simp: delete_value_def key_arg_def get_datas_def remove_datas_def answer_def Let_def length_one
      split: option.splits)

lemmas call_function_eqs = call_store call_get call_delete

lemma call_refines:
  assumes "datas_invar gd"
  shows "spec_call c (abs_datas gd) = (fst (call_function c gd), abs_datas (snd (call_function c gd)))"
    and "datas_invar (snd (call_function c gd))"
  using assms
  by (cases c; auto simp: call_function_eqs fun_eq_iff lua_dict.lookup_update lua_dict.lookup_delete
      lua_dict.invar_update lua_dict.invar_delete simp del: call_function.simps)+

lemma run_calls_refines: "datas_invar gd \<Longrightarrow> run_calls cs gd = spec_calls cs (abs_datas gd)"
proof (induction cs arbitrary: gd)
  case (Cons c cs)
  then show ?case using call_refines [OF Cons.prems, of c]
    by (simp add: Let_def case_prod_beta del: call_function.simps)
qed simp

text \<open>C37. The shared store of the scripts is a map: whatever sequence of \<^verbatim>\<open>store_value\<close>,
  \<^verbatim>\<open>get_value\<close> and \<^verbatim>\<open>delete_value\<close> calls is made, with whatever arguments, each call hands back
  what it would on one map from strings to strings; the 65536 shards are invisible.\<close>

theorem lua_store_refines_map: "run_calls cs empty_datas = spec_calls cs Map.empty"
  using run_calls_refines [OF lua_dict.invar_empty] by (simp add: lua_dict.lookup_empty)

section \<open>The shard of a key\<close>

lemma get_u16_sum_eq: "get_u16_sum key = of_nat (sum_list (map of_char key))"
proof -
  have "(word_of_int (foldl (\<lambda>sum c. sum mod 2 ^ 16 + int (of_char c)) a key) :: u16)
      = word_of_int (a + int (sum_list (map of_char key)))" for a
  proof (induction key arbitrary: a)
    case (Cons c key)
    have "(word_of_int (a mod 65536 + b) :: u16) = word_of_int (a + b)" for b
      by (simp add: word_of_int_eq_iff take_bit_eq_mod mod_simps)
    then show ?case using Cons by (simp add: ac_simps)
  qed simp
  from this [of 0] show ?thesis by (simp add: get_u16_sum_def)
qed

text \<open>All keys share the first row: the shift by 16 of a 16-bit sum is 0, so every key lives in
  one of the 256 maps of row 0, in the column of the sum of its bytes modulo 256, whatever has been
  stored before.\<close>

lemma shards_use_one_row:
  "shard_row key = 0 \<and> unat (shard_col key) = sum_list (map of_char key) mod 256"
proof
  have "drop_bit 16 (ucast (w :: u16) :: u32) = 0" for w
    by (rule bit_word_eqI) (auto simp: bit_simps dest: bit_imp_le_length)
  then show "shard_row key = 0" by (simp add: shard_row_def)
  have "(ucast (and (ucast w) (0xFF :: u32)) :: u8) = ucast (w :: u16)" for w
  proof (rule bit_word_eqI)
    fix n assume "n < LENGTH(8)"
    moreover have m: "(0xFF :: u32) = mask 8" by (simp add: mask_eq_exp_minus_1)
    ultimately show "bit (ucast (and (ucast w) (0xFF :: u32)) :: u8) n = bit (ucast w :: u8) n"
      unfolding m by (auto simp: bit_simps)
  qed
  then have "shard_col key = ucast (get_u16_sum key)" by (simp add: shard_col_def)
  then show "unat (shard_col key) = sum_list (map of_char key) mod 256"
    by (simp add: get_u16_sum_eq unsigned_ucast_eq unsigned_of_nat take_bit_eq_mod mod_mod_cancel)
qed

end
