(* ===== verification/Connection.thy ===== *)
theory Connection
  imports Http1_Order Http2_Session
begin

text \<open>
  A connection (\<^verbatim>\<open>asio_server_connection.h\<close>): the reads, writes and deadlines it starts and completes, and its protocol
  handler. The operations it calls on the handler are a record of functions (the virtual functions of
  \<^verbatim>\<open>base_handler\<close>); time is an argument of each. Operations of the io service are counted or listed while they
  are outstanding and completed by steps.
\<close>

section \<open>The connection\<close>

record 'h handler_ops =
  ho_start :: "'h \<Rightarrow> (int \<times> 'h) result"
  ho_on_read :: "string \<Rightarrow> nat \<Rightarrow> 'h \<Rightarrow> (int \<times> 'h) result"
  ho_on_write :: "string \<Rightarrow> 'h \<Rightarrow> (int \<times> string \<times> nat \<times> 'h) result option"
  ho_should_stop :: "'h \<Rightarrow> bool"
  ho_reset_writefun :: "'h \<Rightarrow> 'h"

text \<open>\<open>cn_reads\<close> and \<open>cn_waits\<close> count the outstanding reads and waits for the deadline, \<open>cn_writes\<close> lists the outstanding
  writes, each with the bytes the buffer held when it began; \<open>cn_written\<close> is all that has been given to the socket. A deadline of
  \<^term>\<open>None\<close> is never reached.\<close>

record 'h connection =
  cn_handler :: "'h option"
  cn_buffer :: string
  cn_outbuf :: string
  cn_deadline :: "int option"
  cn_read_timeout :: int
  cn_writing :: bool
  cn_stopped :: bool
  cn_reads :: nat
  cn_writes :: "string list"
  cn_waits :: nat
  cn_written :: string

definition connection_init :: "int \<Rightarrow> 'h connection" where
  "connection_init read_timeout = \<lparr>cn_handler = None, cn_buffer = replicate (8 * 1024) (char_of (0 :: nat)),
     cn_outbuf = replicate (64 * 1024) (char_of (0 :: nat)), cn_deadline = None, cn_read_timeout = read_timeout,
     cn_writing = False, cn_stopped = False, cn_reads = 0, cn_writes = [], cn_waits = 0, cn_written = []\<rparr>"

definition cn_stop :: "'h handler_ops \<Rightarrow> 'h connection \<Rightarrow> 'h connection" where
  "cn_stop ops c =
     (if cn_stopped c then c
      else c\<lparr>cn_stopped := True, cn_handler := map_option (ho_reset_writefun ops) (cn_handler c)\<rparr>)"

definition expires_from_now :: "int \<Rightarrow> 'h connection \<Rightarrow> 'h connection" where
  "expires_from_now now c = c\<lparr>cn_deadline := Some (now + cn_read_timeout c)\<rparr>"

definition start_read_deadline :: "int \<Rightarrow> 'h connection \<Rightarrow> 'h connection" where
  "start_read_deadline now c = (expires_from_now now c)\<lparr>cn_waits := cn_waits c + 1\<rparr>"

text \<open>The timer of \<^verbatim>\<open>start_tls_handshake_deadline\<close> differs in its duration only.\<close>

definition start_tls_handshake_deadline :: "int \<Rightarrow> int \<Rightarrow> 'h connection \<Rightarrow> 'h connection" where
  "start_tls_handshake_deadline tls_handshake_timeout now c =
     c\<lparr>cn_deadline := Some (now + tls_handshake_timeout), cn_waits := cn_waits c + 1\<rparr>"

text \<open>A wait that ends, because the time has come or the timer was set anew.\<close>

definition handle_deadline :: "'h handler_ops \<Rightarrow> int \<Rightarrow> 'h connection \<Rightarrow> 'h connection" where
  "handle_deadline ops now c0 =
     (let c = c0\<lparr>cn_waits := cn_waits c0 - 1\<rparr>
      in if cn_stopped c then c
         else if (case cn_deadline c of Some t \<Rightarrow> t \<le> now | None \<Rightarrow> False) then (cn_stop ops c)\<lparr>cn_deadline := None\<rparr>
         else c\<lparr>cn_waits := cn_waits c + 1\<rparr>)"

definition do_read :: "int \<Rightarrow> 'h connection \<Rightarrow> 'h connection" where
  "do_read now c = (if cn_stopped c then c else (expires_from_now now c)\<lparr>cn_reads := cn_reads c + 1\<rparr>)"

definition do_write :: "'h handler_ops \<Rightarrow> int \<Rightarrow> 'h connection \<Rightarrow> 'h connection result option" where
  "do_write ops now c =
     (if cn_stopped c \<or> cn_writing c then Some (Inr c)
      else case cn_handler c of
             None \<Rightarrow> Some (Inl Null_Pointer)
           | Some h \<Rightarrow>
               (case ho_on_write ops (cn_outbuf c) h of
                  None \<Rightarrow> None
                | Some (Inl e) \<Rightarrow> Some (Inl e)
                | Some (Inr (rv, outbuf, nwrite, h')) \<Rightarrow>
                    let c1 = c\<lparr>cn_handler := Some h', cn_outbuf := outbuf\<rparr>;
                        data = take nwrite outbuf
                    in Some (Inr (if rv \<noteq> 0 then cn_stop ops c1
                                  else if nwrite = 0 then (if ho_should_stop ops h' then cn_stop ops c1 else c1)
                                  else (expires_from_now now c1)\<lparr>cn_writing := True, cn_writes := cn_writes c1 @ [data],
                                         cn_written := cn_written c1 @ data\<rparr>))))"

text \<open>The function posted by \<^verbatim>\<open>start\<close>; \<open>h\<close> is the handler just made.\<close>

definition cn_start :: "'h handler_ops \<Rightarrow> int \<Rightarrow> 'h \<Rightarrow> 'h connection \<Rightarrow> 'h connection result" where
  "cn_start ops now h c =
     rbind (ho_start ops h) (\<lambda>(rv, h').
       let c1 = c\<lparr>cn_handler := Some h'\<rparr> in Inr (if rv \<noteq> 0 then cn_stop ops c1 else do_read now c1))"

text \<open>The completion of a read: \<^term>\<open>None\<close> for an error, or the bytes that arrived.\<close>

definition read_done :: "'h handler_ops \<Rightarrow> int \<Rightarrow> string option \<Rightarrow> 'h connection \<Rightarrow> 'h connection result option" where
  "read_done ops now r c0 =
     (let c = c0\<lparr>cn_reads := cn_reads c0 - 1\<rparr>
      in case r of
           None \<Rightarrow> Some (Inr (cn_stop ops c))
         | Some data \<Rightarrow>
             (let buffer = overwrite (cn_buffer c) 0 data
              in case cn_handler c of
                   None \<Rightarrow> Some (Inl Null_Pointer)
                 | Some h \<Rightarrow>
                     (case ho_on_read ops buffer (length data) h of
                        Inl e \<Rightarrow> Some (Inl e)
                      | Inr (rv, h') \<Rightarrow>
                          let c1 = c\<lparr>cn_buffer := buffer, cn_handler := Some h'\<rparr>
                          in if rv \<noteq> 0 then Some (Inr (cn_stop ops c1))
                             else case do_write ops now c1 of
                                    None \<Rightarrow> None
                                  | Some (Inl e) \<Rightarrow> Some (Inl e)
                                  | Some (Inr c2) \<Rightarrow>
                                      Some (Inr (if \<not> cn_writing c2 \<and> (case cn_handler c2 of Some h2 \<Rightarrow> ho_should_stop ops h2 | None \<Rightarrow> False)
                                                 then cn_stop ops c2 else do_read now c2)))))"

text \<open>The completion of the oldest write, with or without an error.\<close>

definition write_done :: "'h handler_ops \<Rightarrow> int \<Rightarrow> bool \<Rightarrow> 'h connection \<Rightarrow> 'h connection result option" where
  "write_done ops now e c0 =
     (let c = c0\<lparr>cn_writes := tl (cn_writes c0)\<rparr>
      in if e then Some (Inr (cn_stop ops c)) else do_write ops now (c\<lparr>cn_writing := False\<rparr>))"

section \<open>Steps\<close>

text \<open>What can happen to a connection. \<open>fresh\<close> says which handlers \<^verbatim>\<open>start\<close> makes, \<open>readable\<close> bounds what is
  read, \<open>event\<close> is what happens to the handler between the operations of the connection; a posted write calls
  \<^verbatim>\<open>do_write\<close>.\<close>

inductive conn_step ::
    "(int \<Rightarrow> 'h handler_ops) \<Rightarrow> ('h \<Rightarrow> bool) \<Rightarrow> ('h \<Rightarrow> string \<Rightarrow> nat \<Rightarrow> bool) \<Rightarrow> ('h \<Rightarrow> 'h \<Rightarrow> bool)
      \<Rightarrow> 'h connection \<Rightarrow> 'h connection \<Rightarrow> bool"
  for ops fresh readable event where
  conn_wait: "conn_step ops fresh readable event c (start_read_deadline now c)"
| conn_wait_tls: "conn_step ops fresh readable event c (start_tls_handshake_deadline t now c)"
| conn_deadline: "0 < cn_waits c \<Longrightarrow> conn_step ops fresh readable event c (handle_deadline (ops now) now c)"
| conn_starts: "cn_handler c = None \<Longrightarrow> fresh h \<Longrightarrow> cn_start (ops now) now h c = Inr c' \<Longrightarrow>
     conn_step ops fresh readable event c c'"
| conn_read: "0 < cn_reads c \<Longrightarrow> (\<And>data. r = Some data \<Longrightarrow> length data \<le> length (cn_buffer c)
       \<and> (\<forall>h. cn_handler c = Some h \<longrightarrow> readable h (overwrite (cn_buffer c) 0 data) (length data))) \<Longrightarrow>
     read_done (ops now) now r c = Some (Inr c') \<Longrightarrow> conn_step ops fresh readable event c c'"
| conn_written: "cn_writes c \<noteq> [] \<Longrightarrow> write_done (ops now) now e c = Some (Inr c') \<Longrightarrow>
     conn_step ops fresh readable event c c'"
| conn_posted: "cn_handler c = Some h \<Longrightarrow> do_write (ops now) now c = Some (Inr c') \<Longrightarrow>
     conn_step ops fresh readable event c c'"
| conn_event: "cn_handler c = Some h \<Longrightarrow> event h h' \<Longrightarrow>
     conn_step ops fresh readable event c (c\<lparr>cn_handler := Some h'\<rparr>)"
| conn_stop: "conn_step ops fresh readable event c (cn_stop (ops now) c)"

section \<open>The discipline of reads and writes\<close>

text \<open>\<open>r\<close> reads are outstanding unless the connection has stopped; a write is outstanding exactly while \<^verbatim>\<open>writing_\<close> is set; what
  is being written is still in the buffer.\<close>

definition conn_inv :: "nat \<Rightarrow> 'h connection \<Rightarrow> bool" where
  "conn_inv r c \<longleftrightarrow> cn_reads c \<le> r \<and> length (cn_writes c) \<le> 1
     \<and> (\<forall>d \<in> set (cn_writes c). d = take (length d) (cn_outbuf c))
     \<and> (\<not> cn_stopped c \<longrightarrow> cn_reads c = r \<and> (cn_writing c \<longleftrightarrow> cn_writes c \<noteq> []))"

definition reads_due :: "'h connection \<Rightarrow> nat" where
  "reads_due c = (if cn_handler c = None then 0 else 1)"

lemma reads_due_simps [simp]:
  "cn_handler c = None \<Longrightarrow> reads_due c = 0" "cn_handler c \<noteq> None \<Longrightarrow> reads_due c = 1"
  by (simp_all add: reads_due_def)

lemma reads_due_set [simp]:
  "reads_due (c\<lparr>cn_waits := w\<rparr>) = reads_due c" "reads_due (c\<lparr>cn_deadline := d\<rparr>) = reads_due c"
  "reads_due (c\<lparr>cn_writes := ws\<rparr>) = reads_due c" "reads_due (c\<lparr>cn_writing := b\<rparr>) = reads_due c"
  "reads_due (cn_stop ops c) = reads_due c"
  by (simp_all add: reads_due_def cn_stop_def)

lemma reads_due_same: "(cn_handler c' = None) = (cn_handler c = None) \<Longrightarrow> reads_due c' = reads_due c"
  by (simp add: reads_due_def)

lemma cn_stop_inv: "conn_inv r c \<Longrightarrow> conn_inv r (cn_stop ops c)"
  by (auto simp: conn_inv_def cn_stop_def)

lemma cn_stop_fields [simp]:
  "cn_stopped (cn_stop ops c)" "cn_reads (cn_stop ops c) = cn_reads c" "cn_writes (cn_stop ops c) = cn_writes c"
  "cn_written (cn_stop ops c) = cn_written c" "cn_outbuf (cn_stop ops c) = cn_outbuf c"
  "cn_handler (cn_stop ops c) = None \<longleftrightarrow> cn_handler c = None"
  by (auto simp: cn_stop_def)

lemma do_write_inv: "do_write ops now c = Some (Inr c') \<Longrightarrow> conn_inv r c \<Longrightarrow> conn_inv r c'"
  by (auto simp: do_write_def conn_inv_def expires_from_now_def Let_def cn_stop_def min_def
      split: if_splits option.splits sum.splits)

lemma do_write_handler: "do_write ops now c = Some (Inr c') \<Longrightarrow> cn_handler c' = None \<longleftrightarrow> cn_handler c = None"
  by (auto simp: do_write_def expires_from_now_def cn_stop_def Let_def split: if_splits option.splits sum.splits)

lemma do_read_inv: "conn_inv 0 c \<Longrightarrow> conn_inv 1 (do_read now c)"
  by (auto simp: conn_inv_def do_read_def expires_from_now_def)

lemma do_read_handler: "cn_handler (do_read now c) = cn_handler c"
  by (simp add: do_read_def expires_from_now_def)

lemma conn_inv_mono: "conn_inv 0 c \<Longrightarrow> cn_stopped c \<Longrightarrow> conn_inv 1 c"
  by (simp add: conn_inv_def)

lemma conn_inv_set [simp]:
  "conn_inv r (c\<lparr>cn_handler := h\<rparr>) = conn_inv r c" "conn_inv r (c\<lparr>cn_buffer := b\<rparr>) = conn_inv r c"
  "conn_inv r (c\<lparr>cn_waits := w\<rparr>) = conn_inv r c" "conn_inv r (c\<lparr>cn_deadline := d\<rparr>) = conn_inv r c"
  by (simp_all add: conn_inv_def)

lemma conn_step_inv:
  assumes "conn_step ops fresh readable event c c'" and "conn_inv (reads_due c) c"
  shows "conn_inv (reads_due c') c'"
  using assms
proof (induction rule: conn_step.induct)
  case (conn_wait c now)
  then show ?case by (simp add: start_read_deadline_def expires_from_now_def)
next
  case (conn_wait_tls c t now)
  then show ?case by (simp add: start_tls_handshake_deadline_def)
next
  case (conn_deadline c now)
  have "conn_inv (reads_due c) (c\<lparr>cn_waits := cn_waits c - 1\<rparr>)" using conn_deadline.prems by simp
  from cn_stop_inv [OF this] show ?case using conn_deadline.prems by (auto simp: handle_deadline_def Let_def)
next
  case (conn_starts c h now c')
  obtain rv h' where h': "ho_start (ops now) h = Inr (rv, h')"
    using conn_starts.hyps(3) by (auto simp: cn_start_def)
  have c': "c' = (if rv \<noteq> 0 then cn_stop (ops now) (c\<lparr>cn_handler := Some h'\<rparr>)
      else do_read now (c\<lparr>cn_handler := Some h'\<rparr>))"
    using conn_starts.hyps(3) h' by (simp add: cn_start_def Let_def)
  have "conn_inv 0 (c\<lparr>cn_handler := Some h'\<rparr>)" using conn_starts by simp
  from conn_inv_mono [OF cn_stop_inv [OF this]] do_read_inv [OF this] c' show ?case by (auto simp: do_read_handler)
next
  case (conn_read c r now c')
  let ?c = "c\<lparr>cn_reads := cn_reads c - 1\<rparr>"
  have h: "cn_handler c \<noteq> None"
  proof
    assume "cn_handler c = None"
    then show False using conn_read.hyps(1) conn_read.prems by (simp add: conn_inv_def)
  qed
  then have i: "conn_inv 0 ?c" using conn_read.prems conn_read.hyps(1) by (auto simp: conn_inv_def)
  show ?case
  proof (cases r)
    case None
    then have "c' = cn_stop (ops now) ?c" using conn_read.hyps(3) by (simp add: read_done_def)
    then show ?thesis using h conn_inv_mono [OF cn_stop_inv [OF i]] by simp
  next
    case (Some data)
    obtain h0 where h0: "cn_handler c = Some h0" using h by blast
    obtain rv h' where rd: "ho_on_read (ops now) (overwrite (cn_buffer c) 0 data) (length data) h0 = Inr (rv, h')"
      using conn_read.hyps(3) Some h0 by (auto simp: read_done_def Let_def split: sum.splits)
    let ?c1 = "?c\<lparr>cn_buffer := overwrite (cn_buffer c) 0 data, cn_handler := Some h'\<rparr>"
    have i1: "conn_inv 0 ?c1" using i by simp
    show ?thesis
    proof (cases "rv = 0")
      case True
      then obtain c2 where w: "do_write (ops now) now ?c1 = Some (Inr c2)"
        and c': "c' = cn_stop (ops now) c2 \<or> c' = do_read now c2"
        using conn_read.hyps(3) Some h0 rd by (auto simp: read_done_def Let_def split: option.splits sum.splits)
      note i2 = do_write_inv [OF w i1]
      from do_write_handler [OF w] have "cn_handler c2 \<noteq> None" by simp
      with c' show ?thesis using conn_inv_mono [OF cn_stop_inv [OF i2]] do_read_inv [OF i2]
        by (auto simp: do_read_handler)
    next
      case False
      then have "c' = cn_stop (ops now) ?c1" using conn_read.hyps(3) Some h0 rd by (simp add: read_done_def Let_def)
      then show ?thesis using conn_inv_mono [OF cn_stop_inv [OF i1]] by simp
    qed
  qed
next
  case (conn_written c now e c')
  let ?c = "c\<lparr>cn_writes := tl (cn_writes c)\<rparr>"
  show ?case
  proof (cases e)
    case True
    then have c': "c' = cn_stop (ops now) ?c" using conn_written.hyps(2) by (simp add: write_done_def)
    then show ?thesis using conn_written.prems conn_written.hyps(1) unfolding conn_inv_def c'
      by (cases "cn_writes c") auto
  next
    case False
    then have w: "do_write (ops now) now (?c\<lparr>cn_writing := False\<rparr>) = Some (Inr c')"
      using conn_written.hyps(2) by (simp add: write_done_def Let_def)
    have "conn_inv (reads_due c) (?c\<lparr>cn_writing := False\<rparr>)"
      using conn_written.prems conn_written.hyps(1) unfolding conn_inv_def by (cases "cn_writes c") auto
    from do_write_inv [OF w this] reads_due_same [OF do_write_handler [OF w]] show ?thesis by simp
  qed
next
  case (conn_posted c h now c')
  then show ?case using do_write_inv reads_due_same [OF do_write_handler] by metis
next
  case (conn_event c h h')
  then show ?case by simp
next
  case (conn_stop c now)
  then show ?case using cn_stop_inv by auto
qed

abbreviation conn_run ::
    "(int \<Rightarrow> 'h handler_ops) \<Rightarrow> ('h \<Rightarrow> bool) \<Rightarrow> ('h \<Rightarrow> string \<Rightarrow> nat \<Rightarrow> bool) \<Rightarrow> ('h \<Rightarrow> 'h \<Rightarrow> bool)
      \<Rightarrow> 'h connection \<Rightarrow> 'h connection \<Rightarrow> bool" where
  "conn_run ops fresh readable event \<equiv> (conn_step ops fresh readable event)\<^sup>*\<^sup>*"

lemma conn_run_inv:
  "conn_run ops fresh readable event c c' \<Longrightarrow> conn_inv (reads_due c) c \<Longrightarrow> conn_inv (reads_due c') c'"
  by (induction rule: rtranclp_induct) (auto intro: conn_step_inv)

lemma conn_inv_init: "conn_inv (reads_due (connection_init t)) (connection_init t)"
  by (simp add: conn_inv_def connection_init_def)

lemma stopped_step:
  assumes "conn_step ops fresh readable event c c'" and "cn_stopped c"
  shows "cn_stopped c' \<and> cn_written c' = cn_written c \<and> cn_reads c' \<le> cn_reads c \<and> length (cn_writes c') \<le> length (cn_writes c)
    \<and> cn_outbuf c' = cn_outbuf c"
  using assms
  by (induction rule: conn_step.induct)
    (auto simp: start_read_deadline_def start_tls_handshake_deadline_def expires_from_now_def handle_deadline_def cn_start_def
      read_done_def write_done_def do_write_def do_read_def cn_stop_def Let_def split: option.splits sum.splits if_splits)

section \<open>Handlers behind a connection\<close>

text \<open>What a connection gives to the socket, when the handler's own runs are described by \<open>run\<close>: a state, the buffer, and all
  the output so far. The connection passes that output on, except what is produced by the call of \<^verbatim>\<open>on_write\<close> that fails.\<close>

definition conn_ran :: "('h \<Rightarrow> string \<Rightarrow> string \<Rightarrow> bool) \<Rightarrow> 'h connection \<Rightarrow> bool" where
  "conn_ran run c \<longleftrightarrow>
     (case cn_handler c of
        None \<Rightarrow> cn_written c = [] \<and> length (cn_outbuf c) = 64 * 1024 \<and> cn_reads c = 0
      | Some h \<Rightarrow> (\<exists>rest. run h (cn_outbuf c) (cn_written c @ rest) \<and> (\<not> cn_stopped c \<longrightarrow> rest = []))
          \<or> cn_stopped c \<and> cn_reads c = 0 \<and> cn_written c = [])"

lemma conn_ranI: "cn_handler c = Some h \<Longrightarrow> run h (cn_outbuf c) (cn_written c) \<Longrightarrow> conn_ran run c"
  by (auto simp: conn_ran_def intro!: disjI1 exI [of _ "[]"])

locale connected_handler =
  fixes ops :: "int \<Rightarrow> 'h handler_ops" and fresh :: "'h \<Rightarrow> bool" and readable :: "'h \<Rightarrow> string \<Rightarrow> nat \<Rightarrow> bool"
    and event :: "'h \<Rightarrow> 'h \<Rightarrow> bool" and run :: "'h \<Rightarrow> string \<Rightarrow> string \<Rightarrow> bool"
  assumes run_start: "fresh h \<Longrightarrow> ho_start (ops now) h = Inr (0, h') \<Longrightarrow> length b = 64 * 1024 \<Longrightarrow> run h' b []"
    and run_read: "run h b sent \<Longrightarrow> readable h buffer n \<Longrightarrow> ho_on_read (ops now) buffer n h = Inr (rv, h') \<Longrightarrow> run h' b sent"
    and run_write: "run h b sent \<Longrightarrow> ho_on_write (ops now) b h = Some (Inr (rv, b', n, h')) \<Longrightarrow> run h' b' (sent @ take n b')"
    and run_event: "run h b sent \<Longrightarrow> event h h' \<Longrightarrow> run h' b sent"
    and run_reset: "run h b sent \<Longrightarrow> run (ho_reset_writefun (ops now) h) b sent"
begin

lemma ran_stop: "conn_ran run c \<Longrightarrow> conn_ran run (cn_stop (ops now) c)"
  by (auto simp: conn_ran_def cn_stop_def split: option.splits intro: run_reset)

lemma ran_do_write:
  assumes "do_write (ops now) now c = Some (Inr c')" and "conn_ran run c"
  shows "conn_ran run c'"
proof (cases "cn_stopped c \<or> cn_writing c")
  case True
  then show ?thesis using assms by (simp add: do_write_def)
next
  case False
  then obtain h rv b n h' where h: "cn_handler c = Some h" and w: "ho_on_write (ops now) (cn_outbuf c) h = Some (Inr (rv, b, n, h'))"
    using assms(1) by (auto simp: do_write_def split: option.splits sum.splits)
  let ?c1 = "c\<lparr>cn_handler := Some h', cn_outbuf := b\<rparr>"
  have r: "run h' b (cn_written c @ take n b)"
    by (rule run_write [OF _ w]) (use assms(2) h False in \<open>auto simp: conn_ran_def\<close>)
  consider "c' = cn_stop (ops now) ?c1" | "c' = ?c1" "n = 0"
    | "c' = (expires_from_now now ?c1)\<lparr>cn_writing := True, cn_writes := cn_writes ?c1 @ [take n b],
         cn_written := cn_written ?c1 @ take n b\<rparr>"
    using assms(1) False h w by (auto simp: do_write_def Let_def split: if_splits)
  then show ?thesis
  proof cases
    case 1
    have "run (ho_reset_writefun (ops now) h') b (cn_written c @ take n b)" by (rule run_reset [OF r])
    then show ?thesis using 1 False by (auto simp: conn_ran_def cn_stop_def)
  qed (use r in \<open>auto simp: expires_from_now_def intro!: conn_ranI\<close>)
qed

lemma ran_do_read: "conn_ran run c \<Longrightarrow> cn_handler c \<noteq> None \<Longrightarrow> conn_ran run (do_read now c)"
  by (auto simp: conn_ran_def do_read_def expires_from_now_def)

lemma ran_read_done:
  assumes "read_done (ops now) now r c = Some (Inr c')" and "conn_ran run c" and "0 < cn_reads c"
    and "\<And>data h. r = Some data \<Longrightarrow> cn_handler c = Some h \<Longrightarrow> readable h (overwrite (cn_buffer c) 0 data) (length data)"
  shows "conn_ran run c'"
proof -
  let ?c = "c\<lparr>cn_reads := cn_reads c - 1\<rparr>"
  obtain h rest where h: "cn_handler c = Some h" and run: "run h (cn_outbuf c) (cn_written c @ rest)"
    and rest: "\<not> cn_stopped c \<longrightarrow> rest = []"
    using assms(2,3) by (auto simp: conn_ran_def split: option.splits)
  show ?thesis
  proof (cases r)
    case None
    then have c': "c' = cn_stop (ops now) ?c" using assms(1) by (simp add: read_done_def)
    have "conn_ran run ?c" using h run rest by (auto simp: conn_ran_def)
    then show ?thesis unfolding c' by (rule ran_stop)
  next
    case (Some data)
    let ?b = "overwrite (cn_buffer c) 0 data"
    obtain rv h' where rd: "ho_on_read (ops now) ?b (length data) h = Inr (rv, h')"
      using assms(1) Some h by (auto simp: read_done_def Let_def split: sum.splits)
    let ?c1 = "?c\<lparr>cn_buffer := ?b, cn_handler := Some h'\<rparr>"
    have "run h' (cn_outbuf c) (cn_written c @ rest)" by (rule run_read [OF run assms(4) [OF Some h] rd])
    then have ran: "conn_ran run ?c1" using rest by (auto simp: conn_ran_def)
    show ?thesis
    proof (cases "rv = 0")
      case True
      then obtain c2 where w: "do_write (ops now) now ?c1 = Some (Inr c2)"
        and c': "c' = cn_stop (ops now) c2 \<or> c' = do_read now c2"
        using assms(1) Some h rd by (auto simp: read_done_def Let_def split: option.splits sum.splits)
      from ran_do_write [OF w ran] do_write_handler [OF w] c' show ?thesis by (auto intro: ran_stop ran_do_read)
    next
      case False
      then have c': "c' = cn_stop (ops now) ?c1" using assms(1) Some h rd by (simp add: read_done_def Let_def)
      show ?thesis unfolding c' by (rule ran_stop [OF ran])
    qed
  qed
qed

lemma ran_set:
  assumes "conn_ran run c"
  shows "conn_ran run (c\<lparr>cn_waits := k\<rparr>)" and "conn_ran run (c\<lparr>cn_deadline := d\<rparr>)"
    and "conn_ran run (c\<lparr>cn_writes := ws\<rparr>)" and "conn_ran run (c\<lparr>cn_writing := b\<rparr>)"
  using assms by (simp_all add: conn_ran_def split: option.splits)

lemma ran_step: "conn_step ops fresh readable event c c' \<Longrightarrow> conn_ran run c \<Longrightarrow> conn_ran run c'"
proof (induction rule: conn_step.induct)
  case (conn_wait c now)
  then show ?case by (simp add: start_read_deadline_def expires_from_now_def ran_set)
next
  case (conn_wait_tls c t now)
  then show ?case using ran_set(1) [OF ran_set(2)] by (simp add: start_tls_handshake_deadline_def)
next
  case (conn_deadline c now)
  then show ?case by (auto simp: handle_deadline_def Let_def intro!: ran_set ran_stop)
next
  case (conn_starts c h now c')
  obtain rv h' where h': "ho_start (ops now) h = Inr (rv, h')"
    using conn_starts.hyps(3) by (auto simp: cn_start_def)
  have c': "c' = (if rv \<noteq> 0 then cn_stop (ops now) (c\<lparr>cn_handler := Some h'\<rparr>)
      else do_read now (c\<lparr>cn_handler := Some h'\<rparr>))"
    using conn_starts.hyps(3) h' by (simp add: cn_start_def Let_def)
  have none: "cn_written c = []" "length (cn_outbuf c) = 64 * 1024" "cn_reads c = 0"
    using conn_starts.prems conn_starts.hyps(1) by (simp_all add: conn_ran_def)
  show ?case
  proof (cases "rv = 0")
    case True
    then have "run h' (cn_outbuf c) []" using run_start conn_starts.hyps(2) h' none(2) by blast
    then have "conn_ran run (c\<lparr>cn_handler := Some h'\<rparr>)" using none by (auto simp: conn_ran_def)
    then show ?thesis using c' True by (simp add: ran_do_read)
  next
    case False
    then show ?thesis using c' none by (auto simp: conn_ran_def cn_stop_def split: option.splits)
  qed
next
  case (conn_read c r now c')
  then show ?case using ran_read_done by blast
next
  case (conn_written c now e c')
  then show ?case by (auto simp: write_done_def Let_def split: if_splits intro!: ran_stop ran_set elim!: ran_do_write)
next
  case (conn_posted c h now c')
  then show ?case using ran_do_write by blast
next
  case (conn_event c h h')
  then show ?case by (auto simp: conn_ran_def intro: run_event)
next
  case (conn_stop c now)
  then show ?case by (rule ran_stop)
qed

lemma conn_refines_handler:
  assumes "conn_run ops fresh readable event (connection_init t) c"
  shows "conn_ran run c"
proof -
  have "conn_ran run (connection_init t)" by (simp add: conn_ran_def connection_init_def)
  with assms show ?thesis by (induction rule: rtranclp_induct) (auto intro: ran_step)
qed

end

section \<open>HTTP/2 and HTTP/1 behind a connection\<close>

text \<open>\<open>want\<close> tells whether the session wants to read and to write.\<close>

definition h2_ops ::
    "'s mem_recv \<Rightarrow> 's mem_send \<Rightarrow> ('s \<Rightarrow> session_call list \<Rightarrow> bool \<times> bool) \<Rightarrow> ('cb, 'w) application \<Rightarrow> 'cb serve_mux \<Rightarrow> session_rv
      \<Rightarrow> (int \<Rightarrow> string) \<Rightarrow> H2Server_Config_Schema \<Rightarrow> int \<Rightarrow> ('s \<times> 'w \<times> http2_handler) handler_ops" where
  "h2_ops mem_recv mem_send want app mux session_rv fd conf now =
     \<lparr>ho_start = (\<lambda>(s, w, h). rbind (h2_start session_rv conf h) (\<lambda>(rv, h'). Inr (rv, s, w, h'))),
      ho_on_read = h2_on_read mem_recv app mux session_rv fd now,
      ho_on_write = (\<lambda>b x. Some (h2_on_write mem_send app mux session_rv fd now b x)),
      ho_should_stop = (\<lambda>(s, w, h). case want s (h2_calls h) of (want_read, want_write) \<Rightarrow> h2_should_stop want_read want_write),
      ho_reset_writefun = (\<lambda>(s, w, h). (s, w, h2_reset_writefun h))\<rparr>"

definition h2_fresh :: "'s \<Rightarrow> 's \<times> 'w \<times> http2_handler \<Rightarrow> bool" where
  "h2_fresh s0 x \<longleftrightarrow> fst x = s0 \<and> (\<exists>date. snd (snd x) = http2_handler_init date)"

text \<open>What happens to the handler between the operations of its connection.\<close>

inductive h2_event :: "session_rv \<Rightarrow> (int \<Rightarrow> string) \<Rightarrow> 's \<times> 'w \<times> http2_handler \<Rightarrow> 's \<times> 'w \<times> http2_handler \<Rightarrow> bool"
  for session_rv fd where
  event_posted: "h2_event session_rv fd (s, w, h) (s, w, snd (h2_initiate_write h))"
| event_answer: "h2_run_action session_rv fd now stream_id act h = Inr h' \<Longrightarrow> h2_event session_rv fd (s, w, h) (s, w', h')"
| event_push: "push_promise session_rv stream_id meth path hs h = Inr (p, h') \<Longrightarrow> h2_event session_rv fd (s, w, h) (s, w, h')"

inductive_cases h2_eventE: "h2_event session_rv fd x x'"

lemma h2_on_write_length:
  "h2_on_write mem_send app mux session_rv fd now b x = Inr (rv, b', n, x') \<Longrightarrow> length b' = length b"
  by (cases x; cases x') (auto elim!: h2_on_write_parts dest!: h2_send_bounds)

interpretation h2c: connected_handler "h2_ops mem_recv mem_send want app mux session_rv fd conf" "h2_fresh s0"
    "\<lambda>_ _ _. True" "h2_event session_rv fd"
    "\<lambda>x b sent. length b = 64 * 1024 \<and> h2_run mem_recv mem_send app mux session_rv fd (64 * 1024) s0 x sent"
  for mem_recv :: "'s mem_recv" and mem_send want and app :: "('cb, 'w) application" and mux session_rv fd conf s0
proof unfold_locales
  fix h h' :: "'s \<times> 'w \<times> http2_handler" and now and b :: string
  assume "h2_fresh s0 h" and "ho_start (h2_ops mem_recv mem_send want app mux session_rv fd conf now) h = Inr (0, h')"
    and "length b = 64 * 1024"
  then show "length b = 64 * 1024 \<and> h2_run mem_recv mem_send app mux session_rv fd (64 * 1024) s0 h' []"
    by (cases h) (auto simp: h2_ops_def h2_fresh_def intro: run_start)
next
  fix h h' :: "'s \<times> 'w \<times> http2_handler" and now n rv and b sent buffer :: string
  assume "length b = 64 * 1024 \<and> h2_run mem_recv mem_send app mux session_rv fd (64 * 1024) s0 h sent"
    and "ho_on_read (h2_ops mem_recv mem_send want app mux session_rv fd conf now) buffer n h = Inr (rv, h')"
  then show "length b = 64 * 1024 \<and> h2_run mem_recv mem_send app mux session_rv fd (64 * 1024) s0 h' sent"
    by (auto simp: h2_ops_def intro: run_read)
next
  fix h h' :: "'s \<times> 'w \<times> http2_handler" and now n rv and b b' sent :: string
  assume "length b = 64 * 1024 \<and> h2_run mem_recv mem_send app mux session_rv fd (64 * 1024) s0 h sent"
    and "ho_on_write (h2_ops mem_recv mem_send want app mux session_rv fd conf now) b h = Some (Inr (rv, b', n, h'))"
  then show "length b' = 64 * 1024 \<and> h2_run mem_recv mem_send app mux session_rv fd (64 * 1024) s0 h' (sent @ take n b')"
    by (auto simp: h2_ops_def h2_on_write_length intro: run_write)
next
  fix h h' :: "'s \<times> 'w \<times> http2_handler" and b sent :: string
  assume "length b = 64 * 1024 \<and> h2_run mem_recv mem_send app mux session_rv fd (64 * 1024) s0 h sent"
    and "h2_event session_rv fd h h'"
  then show "length b = 64 * 1024 \<and> h2_run mem_recv mem_send app mux session_rv fd (64 * 1024) s0 h' sent"
    by (auto elim!: h2_eventE intro: run_posted run_answer run_push)
next
  fix h :: "'s \<times> 'w \<times> http2_handler" and now and b sent :: string
  assume "length b = 64 * 1024 \<and> h2_run mem_recv mem_send app mux session_rv fd (64 * 1024) s0 h sent"
  then show "length b = 64 * 1024 \<and> h2_run mem_recv mem_send app mux session_rv fd (64 * 1024) s0
      (ho_reset_writefun (h2_ops mem_recv mem_send want app mux session_rv fd conf now) h) sent"
    by (cases h) (auto simp: h2_ops_def intro: run_reset)
qed

definition h1_ops ::
    "('p \<Rightarrow> string \<Rightarrow> 'p \<times> llhttp_event list \<times> int) \<Rightarrow> ('cb, 'w) application \<Rightarrow> 'cb serve_mux \<Rightarrow> H2Server_Config_Schema
      \<Rightarrow> (string \<Rightarrow> url_parts) \<Rightarrow> int \<Rightarrow> ('p \<times> 'w \<times> http1_handler) handler_ops" where
  "h1_ops llhttp_execute app mux conf parse_url now =
     \<lparr>ho_start = (\<lambda>x. Inr (0, x)),
      ho_on_read = (\<lambda>b n (p, w, h). on_read llhttp_execute app mux conf parse_url b n p (w, h)),
      ho_on_write = (\<lambda>b (p, w, h). case on_write b h of
           None \<Rightarrow> None
         | Some (Inl e) \<Rightarrow> Some (Inl e)
         | Some (Inr (rv, b', n, h')) \<Rightarrow> Some (Inr (rv, b', n, p, w, h'))),
      ho_should_stop = (\<lambda>(p, w, h). should_stop h),
      ho_reset_writefun = (\<lambda>(p, w, h). (p, w, reset_writefun h))\<rparr>"

definition h1_fresh :: "'p \<Rightarrow> 'p \<times> 'w \<times> http1_handler \<Rightarrow> bool" where
  "h1_fresh p0 x \<longleftrightarrow> fst x = p0 \<and> snd (snd x) = http1_handler_init"

text \<open>Fewer than \<open>2^31\<close> requests on the connection.\<close>

definition h1_readable ::
    "('p \<Rightarrow> string \<Rightarrow> 'p \<times> llhttp_event list \<times> int) \<Rightarrow> 'p \<times> 'w \<times> http1_handler \<Rightarrow> string \<Rightarrow> nat \<Rightarrow> bool" where
  "h1_readable llhttp_execute x buffer n \<longleftrightarrow>
     (case x of (p, w, h) \<Rightarrow> uint (h1_request_count h) + int (length (fst (snd (llhttp_execute p (take n buffer))))) < 2 ^ 31)"

inductive h1_event :: "'p \<times> 'w \<times> http1_handler \<Rightarrow> 'p \<times> 'w \<times> http1_handler \<Rightarrow> bool" where
  event1_posted: "h1_event (p, w, h) (p, w, snd (initiate_write h))"
| event1_respond: "respond stream_id f h = Inr h' \<Longrightarrow> h1_event (p, w, h) (p, w', h')"
| event1_close: "h1_event (p, w, h) (p, w', h\<lparr>h1_streams := close_stream stream_id (h1_streams h)\<rparr>)"

inductive_cases h1_eventE: "h1_event x x'"

text \<open>A state in which a handler can be.\<close>

definition h1_ran ::
    "('p \<Rightarrow> string \<Rightarrow> 'p \<times> llhttp_event list \<times> int) \<Rightarrow> ('cb, 'w) application \<Rightarrow> 'cb serve_mux
      \<Rightarrow> H2Server_Config_Schema \<Rightarrow> (string \<Rightarrow> url_parts) \<Rightarrow> 'p \<Rightarrow> 'p \<times> 'w \<times> http1_handler \<Rightarrow> bool" where
  "h1_ran llhttp_execute app mux conf parse_url p0 x \<longleftrightarrow>
     (\<exists>w0 written. h1_run llhttp_execute app mux conf parse_url (p0, w0, http1_handler_init) written x)"

lemma h1_ran_step:
  "h1_ran llhttp_execute app mux conf parse_url p0 x \<Longrightarrow> h1_step llhttp_execute app mux conf parse_url x ids x'
     \<Longrightarrow> h1_ran llhttp_execute app mux conf parse_url p0 x'"
  by (auto simp: h1_ran_def dest: h1_more)

interpretation h1c: connected_handler "h1_ops llhttp_execute app mux conf parse_url" "h1_fresh p0"
    "h1_readable llhttp_execute" h1_event "\<lambda>x b sent. h1_ran llhttp_execute app mux conf parse_url p0 x"
  for llhttp_execute :: "'p \<Rightarrow> string \<Rightarrow> 'p \<times> llhttp_event list \<times> int" and app :: "('cb, 'w) application"
    and mux conf parse_url p0
proof unfold_locales
  fix h h' :: "'p \<times> 'w \<times> http1_handler" and now
  assume "h1_fresh p0 h" and "ho_start (h1_ops llhttp_execute app mux conf parse_url now) h = Inr (0, h')"
  then show "h1_ran llhttp_execute app mux conf parse_url p0 h'"
    by (cases h) (auto simp: h1_ops_def h1_fresh_def h1_ran_def intro: h1_stop)
next
  fix h h' :: "'p \<times> 'w \<times> http1_handler" and now n rv and buffer :: string
  assume "h1_ran llhttp_execute app mux conf parse_url p0 h" and "h1_readable llhttp_execute h buffer n"
    and "ho_on_read (h1_ops llhttp_execute app mux conf parse_url now) buffer n h = Inr (rv, h')"
  then show "h1_ran llhttp_execute app mux conf parse_url p0 h'"
    by (cases h; cases h') (auto simp: h1_ops_def h1_readable_def intro: h1_ran_step [OF _ step_read])
next
  fix h h' :: "'p \<times> 'w \<times> http1_handler" and now n rv and b b' :: string
  assume "h1_ran llhttp_execute app mux conf parse_url p0 h"
    and "ho_on_write (h1_ops llhttp_execute app mux conf parse_url now) b h = Some (Inr (rv, b', n, h'))"
  then show "h1_ran llhttp_execute app mux conf parse_url p0 h'"
    by (cases h; cases h')
      (auto simp: h1_ops_def split: option.splits sum.splits intro: h1_ran_step [OF _ step_write])
next
  fix h h' :: "'p \<times> 'w \<times> http1_handler"
  assume "h1_ran llhttp_execute app mux conf parse_url p0 h" and "h1_event h h'"
  then show "h1_ran llhttp_execute app mux conf parse_url p0 h'"
    by (auto elim!: h1_eventE intro: h1_ran_step [OF _ step_initiate] h1_ran_step [OF _ step_respond]
        h1_ran_step [OF _ step_close])
next
  fix h :: "'p \<times> 'w \<times> http1_handler" and now
  assume "h1_ran llhttp_execute app mux conf parse_url p0 h"
  then show "h1_ran llhttp_execute app mux conf parse_url p0 (ho_reset_writefun (h1_ops llhttp_execute app mux conf parse_url now) h)"
    by (cases h) (auto simp: h1_ops_def intro: h1_ran_step [OF _ step_reset])
qed

section \<open>Properties\<close>

text \<open>C22. A connection keeps to the discipline of the socket. Whatever its protocol handler does, and in whatever order reads, writes,
  deadlines, posted writes and a stop happen: at most one read and one write are outstanding; what is being
  written stays unchanged in the buffer until the write completes; and a connection that has been started and has not
  stopped always has a read outstanding, and a write exactly while \<^verbatim>\<open>writing_\<close> is set.\<close>

theorem connection_discipline:
  assumes "conn_run ops fresh readable event (connection_init t) c"
  shows "cn_reads c \<le> 1 \<and> length (cn_writes c) \<le> 1 \<and> (\<forall>d \<in> set (cn_writes c). d = take (length d) (cn_outbuf c))
    \<and> (\<not> cn_stopped c \<longrightarrow> (cn_reads c = 1 \<longleftrightarrow> cn_handler c \<noteq> None) \<and> (cn_writing c \<longleftrightarrow> cn_writes c \<noteq> []))"
  using conn_run_inv [OF assms conn_inv_init] by (auto simp: conn_inv_def reads_due_def split: if_splits)

theorem connection_discipline_witness:
  "\<exists>c. conn_run (h1_ops two_requests answers_later sample_mux sample_conf whole_path) (h1_fresh ()) (h1_readable two_requests) h1_event
        (connection_init 60) c \<and> cn_reads c = 1"
proof -
  let ?ops = "h1_ops two_requests answers_later sample_mux sample_conf whole_path"
  let ?c = "do_read 5 ((connection_init 60)\<lparr>cn_handler := Some ((), (), http1_handler_init)\<rparr>)"
  have "cn_start (?ops 5) 5 ((), (), http1_handler_init) (connection_init 60) = Inr ?c"
    by (simp add: cn_start_def h1_ops_def)
  then have "conn_step ?ops (h1_fresh ()) (h1_readable two_requests) h1_event (connection_init 60) ?c"
    by (rule conn_starts [rotated 2]) (simp_all add: connection_init_def h1_fresh_def)
  then have run: "conn_run ?ops (h1_fresh ()) (h1_readable two_requests) h1_event (connection_init 60) ?c" by (rule r_into_rtranclp)
  have "\<not> cn_stopped ?c" "cn_handler ?c \<noteq> None"
    by (simp_all add: do_read_def expires_from_now_def connection_init_def)
  with connection_discipline [OF run] run show ?thesis by blast
qed

text \<open>C24. A stopped connection is finished. Once a connection has stopped, whatever still completes, expires or is posted: it stays
  stopped, gives nothing more to the socket, starts no read and no write, and leaves the buffer alone, which an
  outstanding write may still be reading.\<close>

theorem stopped_connection_finished:
  assumes "conn_run ops fresh readable event c c'" and "cn_stopped c"
  shows "cn_stopped c' \<and> cn_written c' = cn_written c \<and> cn_outbuf c' = cn_outbuf c
    \<and> cn_reads c' \<le> cn_reads c \<and> length (cn_writes c') \<le> length (cn_writes c)"
  using assms
proof (induction rule: rtranclp_induct)
  case (step c1 c2)
  then show ?case using stopped_step [OF step.hyps(2)] by auto
qed simp

theorem stopped_connection_finished_witness:
  "\<exists>c'. conn_run (h1_ops two_requests answers_later sample_mux sample_conf whole_path) (h1_fresh ()) (h1_readable two_requests) h1_event
        (cn_stop (h1_ops two_requests answers_later sample_mux sample_conf whole_path 0) (connection_init 60)) c'
     \<and> cn_waits c' = 1 \<and> cn_stopped c' \<and> cn_written c' = []"
proof -
  let ?ops = "h1_ops two_requests answers_later sample_mux sample_conf whole_path"
  let ?c = "cn_stop (?ops 0) (connection_init 60)"
  have run: "conn_run ?ops (h1_fresh ()) (h1_readable two_requests) h1_event ?c (start_read_deadline 3 ?c)"
    by (rule r_into_rtranclp) (rule conn_wait)
  have "cn_waits (start_read_deadline 3 ?c) = 1" "cn_written ?c = []"
    by (simp_all add: start_read_deadline_def expires_from_now_def cn_stop_def connection_init_def)
  with stopped_connection_finished [OF run] run show ?thesis by auto
qed

text \<open>C23. What the socket of an HTTP/2 connection is given is what the session produced. In every state that a connection with an
  HTTP/2 handler can reach, all that has been given to the socket is a prefix of the session's output, and
  unless the connection has stopped it is all of that output but the piece that did not fit the buffer and is kept back.\<close>

theorem h2_connection_output:
  assumes "conn_run (h2_ops (recorded_recv mem_recv) (recorded_send mem_send) want app mux session_rv fd conf) (h2_fresh (s0, []))
      (\<lambda>_ _ _. True) (h2_event session_rv fd) (connection_init t) c"
    and "cn_handler c = Some ((s, given), w, h)"
  shows "prefix (cn_written c) given \<and> (\<not> cn_stopped c \<longrightarrow> cn_written c @ piece (h2_buf h) = given)"
proof -
  note ran = h2c.conn_refines_handler [OF assms(1)]
  consider rest where "h2_run (recorded_recv mem_recv) (recorded_send mem_send) app mux session_rv fd (64 * 1024) (s0, [])
      ((s, given), w, h) (cn_written c @ rest)" "\<not> cn_stopped c \<longrightarrow> rest = []"
    | "cn_stopped c" "cn_written c = []"
    using ran assms(2) by (auto simp: conn_ran_def)
  then show ?thesis
  proof cases
    case 1
    from run_output_in_order [OF 1(1)] have "(cn_written c @ rest) @ piece (h2_buf h) = given" by simp
    with 1(2) show ?thesis by (auto simp: prefix_def)
  qed simp
qed

lemma whole_write:
  assumes "\<not> h2_inside_callback h" and "h2_buf h = None" and "11 \<le> length b"
  shows "\<exists>b' h'. h2_on_write (recorded_send queue_session) later_app [] (\<lambda>_ _. 0) fd now b (([''hello '', ''world''], given), (), h)
      = Inr (0, b', 11, ([], given @ ''hello world''), (), h') \<and> take 11 b' = ''hello world'' \<and> h2_buf h' = None"
proof -
  note step = send_loop.simps [of "session_send (recorded_send queue_session) later_app [] (\<lambda>_ _. 0) fd now"]
  show ?thesis using assms
    by (simp add: h2_on_write_def h2_enter_callback_def h2_leave_callback_def h2_send_def step session_send_def
        recorded_send_def eval_nat_numeral) (simp add: overwrite_def)
qed

theorem h2_connection_output_witness:
  "\<exists>c. conn_run (h2_ops (recorded_recv (scripted_recv [])) (recorded_send queue_session) (\<lambda>_ _. (True, True)) later_app [] (\<lambda>_ _. 0) (\<lambda>_. [])
         (H2Server_Config_Schema_init 0 0)) (h2_fresh ([''hello '', ''world''], [])) (\<lambda>_ _ _. True) (h2_event (\<lambda>_ _. 0) (\<lambda>_. []))
         (connection_init 60) c
     \<and> \<not> cn_stopped c \<and> cn_written c = ''hello world''"
proof -
  let ?ops = "h2_ops (recorded_recv (scripted_recv [])) (recorded_send queue_session) (\<lambda>_ _. (True, True)) later_app [] (\<lambda>_ _. 0) (\<lambda>_. [])
         (H2Server_Config_Schema_init 0 0)"
  let ?run = "conn_run ?ops (h2_fresh ([''hello '', ''world''], [])) (\<lambda>_ _ _. True) (h2_event (\<lambda>_ _. 0) (\<lambda>_. [])) (connection_init 60)"
  define b0 where "b0 = replicate (64 * 1024) (char_of (0 :: nat))"
  have len: "11 \<le> length b0" by (simp add: b0_def)
  let ?h0 = "(([''hello '', ''world''], [] :: string), (), http2_handler_init (0, []))"
  obtain sh where sh: "h2_start (\<lambda>_ _. 0) (H2Server_Config_Schema_init 0 0) (http2_handler_init (0, [])) = Inr (0, sh)"
    using start_default by blast
  let ?h1 = "(([''hello '', ''world''], [] :: string), (), sh)"
  define c1 where "c1 = do_read 5 ((connection_init 60)\<lparr>cn_handler := Some ?h1\<rparr>)"
  have c1: "cn_handler c1 = Some ?h1" "\<not> cn_stopped c1" "\<not> cn_writing c1" "cn_outbuf c1 = b0" "cn_written c1 = []"
    by (simp_all add: c1_def do_read_def expires_from_now_def connection_init_def b0_def)
  have "cn_start (?ops 5) 5 ?h0 (connection_init 60) = Inr c1"
    by (simp add: cn_start_def h2_ops_def sh c1_def)
  moreover have "h2_fresh ([''hello '', ''world''], [] :: string) ?h0" by (auto simp: h2_fresh_def)
  ultimately have run1: "?run c1"
    by (intro r_into_rtranclp conn_starts [rotated 2]) (simp_all add: connection_init_def)
  have "\<not> h2_inside_callback sh" "h2_buf sh = None" using h2_start_handler [OF sh] by simp_all
  from whole_write [OF this len, of "\<lambda>_. []" 7 "[]"] obtain b' h' where
    w: "h2_on_write (recorded_send queue_session) later_app [] (\<lambda>_ _. 0) (\<lambda>_. []) 7 b0 ?h1
      = Inr (0, b', 11, ([], ''hello world''), (), h')" "take 11 b' = ''hello world''" "h2_buf h' = None"
    by auto
  then obtain c2 where c2: "do_write (?ops 7) 7 c1 = Some (Inr c2)" "cn_handler c2 = Some (([], ''hello world''), (), h')"
    "\<not> cn_stopped c2"
    using c1 by (auto simp: do_write_def h2_ops_def expires_from_now_def Let_def)
  have run2: "?run c2" using run1 conn_posted [where ops = ?ops and now = 7, OF c1(1) c2(1)] by (rule rtranclp.rtrancl_into_rtrancl)
  have "cn_written c2 = ''hello world''" using h2_connection_output [OF run2 c2(2)] c2(3) w(3) by simp
  with run2 c2(3) show ?thesis by blast
qed

text \<open>C25. A response that is answered later is lost when the client asked for the connection to be closed. If the last request read
  over HTTP/1 is not to be kept alive, no write is outstanding and no response is ready at once (the application answers from
  another thread or after a delay), the connection stops as soon as that read is handled: nothing has been
  written, and the streams are still open, waiting for responses that will never be sent.\<close>

theorem deferred_response_dropped:
  assumes "cn_handler c = Some (p, w, h)" and "\<not> cn_stopped c" and "\<not> cn_writing c"
    and "on_read llhttp_execute app mux conf parse_url (overwrite (cn_buffer c) 0 data) (length data) p (w, h) = Inr (0, p', w', h')"
    and "\<not> h1_should_keep_alive h'" and "h1_stream_ids_to_respond h' = []"
  shows "\<exists>c' h''. read_done (h1_ops llhttp_execute app mux conf parse_url now) now (Some data) c = Some (Inr c')
    \<and> cn_stopped c' \<and> cn_written c' = cn_written c \<and> cn_handler c' = Some (p', w', h'') \<and> h1_streams h'' = h1_streams h'"
proof -
  have "\<not> h1_inside_callback h'"
    using assms(4) by (auto simp: on_read_def leave_callback_def Let_def case_prod_beta split: if_splits)
  then have "on_write (cn_outbuf c) h' = Some (Inr (0, cn_outbuf c, 0, h'))"
    using assms(6) by (simp add: on_write_def enter_callback_def get_consecutive_stream_ids_to_respond_def leave_callback_def)
  then show ?thesis using assms
    by (simp add: read_done_def do_write_def h1_ops_def should_stop_def cn_stop_def do_read_def reset_writefun_def Let_def)
qed

definition one_request_close :: "unit \<Rightarrow> string \<Rightarrow> unit \<times> llhttp_event list \<times> int" where
  "one_request_close p input = ((), [On_Message_Begin, On_Url ''GET'' ''/'', On_Message_Complete False], 0)"

theorem deferred_response_dropped_witness:
  "\<exists>c' h''. read_done (h1_ops one_request_close answers_later sample_mux sample_conf whole_path 7) 7 (Some ''GET'')
        ((connection_init 60)\<lparr>cn_handler := Some ((), (), http1_handler_init)\<rparr>) = Some (Inr c')
    \<and> cn_stopped c' \<and> cn_written c' = [] \<and> cn_handler c' = Some ((), (), h'') \<and> fst ` set (h1_streams h'') = {1}"
proof -
  let ?c = "(connection_init 60)\<lparr>cn_handler := Some ((), (), http1_handler_init)\<rparr>"
  let ?r = "on_read one_request_close answers_later sample_mux sample_conf whole_path [] 0 () ((), http1_handler_init)"
  have same: "on_read one_request_close answers_later sample_mux sample_conf whole_path b n () ((), http1_handler_init) = ?r" for b n
    by (simp add: on_read_def one_request_close_def)
  have "case ?r of Inl _ \<Rightarrow> False | Inr (rv, p, w, h) \<Rightarrow> rv = 0 \<and> \<not> h1_should_keep_alive h \<and> h1_stream_ids_to_respond h = []
      \<and> map fst (h1_streams h) = [1]"
    by code_simp
  then obtain h where h: "?r = Inr (0, (), (), h)" "\<not> h1_should_keep_alive h" "h1_stream_ids_to_respond h = []" "map fst (h1_streams h) = [1]"
    by (cases ?r) auto
  have c: "\<not> cn_stopped ?c" "\<not> cn_writing ?c" "cn_written ?c = []" by (simp_all add: connection_init_def)
  have "fst ` set (h1_streams h) = {1}" using arg_cong [OF h(4), of set] by simp
  then show ?thesis using deferred_response_dropped [of ?c "()" "()" http1_handler_init one_request_close answers_later sample_mux
      sample_conf whole_path "''GET''" "()" "()" h 7] same h c by auto
qed

end
