(* ===== verification/Listener.thy ===== *)
theory Listener
  imports Cxx_Container
begin

text \<open>
  The threads of the server and the sockets it listens on: the pool of io services (\<^verbatim>\<open>asio_io_service_pool.cc\<close>) and the
  accepting of connections (\<^verbatim>\<open>asio_server.cc\<close>). Io services and acceptors are numbers; what the operating system answers
  is an argument.
\<close>

section \<open>The pool of io services\<close>

text \<open>\<open>work\<close> counts the objects that keep the services running; \<open>futures\<close> are the services run by a thread.\<close>

record io_service_pool =
  io_services :: nat
  next_io_service :: nat
  work :: nat
  futures :: "nat list"

definition io_service_pool_init :: "nat \<Rightarrow> io_service_pool result" where
  "io_service_pool_init pool_size =
     (if pool_size = 0 then Inl Runtime_Error
      else Inr \<lparr>io_services = pool_size + 1, next_io_service = 1, work = pool_size + 1, futures = []\<rparr>)"

definition pool_run :: "io_service_pool \<Rightarrow> io_service_pool" where
  "pool_run p = p\<lparr>futures := futures p @ [0..<io_services p]\<rparr>"

definition pool_stop :: "io_service_pool \<Rightarrow> io_service_pool" where
  "pool_stop p = p\<lparr>work := 0\<rparr>"

definition get_io_service :: "io_service_pool \<Rightarrow> nat \<times> io_service_pool" where
  "get_io_service p =
     (let next1 = next_io_service p + 1
      in (next_io_service p, p\<lparr>next_io_service := if next1 = io_services p then 1 else next1\<rparr>))"

section \<open>Listening and accepting\<close>

text \<open>\<open>ls_acceptors\<close> says which acceptors are open. \<open>ls_timers\<close> is \<^verbatim>\<open>delayed_accept_timer\<close>, a map from addresses to times of
  expiry in milliseconds. \<open>ls_accepting\<close> lists the outstanding accepts, each an acceptor and the io service of the
  connection that was made for it; \<open>ls_delayed\<close> the acceptors whose timer will start the next accept; \<open>ls_started\<close> the io services
  of the connections that were accepted.\<close>

record listener =
  ls_pool :: io_service_pool
  ls_acceptors :: "bool list"
  ls_timers :: "(nat \<times> int) list"
  ls_accepting :: "(nat \<times> nat) list"
  ls_delayed :: "nat list"
  ls_started :: "nat list"

text \<open>Addresses: of the local variable \<^verbatim>\<open>acceptor\<close> of \<^verbatim>\<open>bind_and_listen\<close>, and of an element of the vector \<^verbatim>\<open>acceptors_\<close>.\<close>

definition local_address :: nat where
  "local_address = 0"

definition element_address :: "nat \<Rightarrow> nat" where
  "element_address i = i + 1"

definition listener_init :: "io_service_pool \<Rightarrow> listener" where
  "listener_init p = \<lparr>ls_pool = p, ls_acceptors = [], ls_timers = [], ls_accepting = [], ls_delayed = [], ls_started = []\<rparr>"

text \<open>One endpoint of the address; \<open>ok\<close> says whether it could be opened, bound and listened on.\<close>

definition bind_endpoint :: "int \<Rightarrow> bool \<Rightarrow> listener \<Rightarrow> listener" where
  "bind_endpoint now ok s =
     (if \<not> ok then s
      else s\<lparr>ls_acceptors := ls_acceptors s @ [True],
             ls_timers := map_insert (<) local_address (now - 100) (ls_timers s)\<rparr>)"

text \<open>\<open>endpoints\<close> is \<^term>\<open>None\<close> when the address cannot be resolved. The result says whether there was an error.\<close>

definition bind_and_listen :: "int \<Rightarrow> bool list option \<Rightarrow> listener \<Rightarrow> bool \<times> listener" where
  "bind_and_listen now endpoints s =
     (case endpoints of
        None \<Rightarrow> (True, s)
      | Some oks \<Rightarrow> let s' = fold (bind_endpoint now) oks s in (ls_acceptors s' = [], s'))"

definition is_open :: "nat \<Rightarrow> listener \<Rightarrow> bool" where
  "is_open i s \<longleftrightarrow> i < length (ls_acceptors s) \<and> ls_acceptors s ! i"

definition start_accept :: "nat \<Rightarrow> listener \<Rightarrow> listener" where
  "start_accept i s =
     (if \<not> is_open i s then s
      else let (io, pool) = get_io_service (ls_pool s)
           in s\<lparr>ls_pool := pool, ls_accepting := ls_accepting s @ [(i, io)]\<rparr>)"

definition reset_acceptor :: "int \<Rightarrow> nat \<Rightarrow> listener \<Rightarrow> listener" where
  "reset_acceptor now i s =
     (case map_find (<) (element_address i) (ls_timers s) of
        None \<Rightarrow> s
      | Some expiry \<Rightarrow>
          if expiry - now < 0
          then s\<lparr>ls_timers := map_assign (<) (element_address i) (now + 100) (ls_timers s), ls_delayed := ls_delayed s @ [i]\<rparr>
          else s)"

datatype accept_result = Accepted | No_Descriptors | Accept_Error

text \<open>The completion of an accept.\<close>

definition accept_done :: "int \<Rightarrow> accept_result \<Rightarrow> nat \<times> nat \<Rightarrow> listener \<Rightarrow> listener" where
  "accept_done now e a s =
     (let s1 = s\<lparr>ls_accepting := remove1 a (ls_accepting s)\<rparr>;
          s2 = (if e = Accepted then s1\<lparr>ls_started := ls_started s1 @ [snd a]\<rparr> else s1)
      in if e = No_Descriptors then reset_acceptor now (fst a) s2 else start_accept (fst a) s2)"

definition delayed_accept :: "nat \<Rightarrow> listener \<Rightarrow> listener" where
  "delayed_accept i s = start_accept i (s\<lparr>ls_delayed := remove1 i (ls_delayed s)\<rparr>)"

definition listen_and_serve :: "int \<Rightarrow> bool list option \<Rightarrow> listener \<Rightarrow> bool \<times> listener" where
  "listen_and_serve now endpoints s =
     (let (err, s1) = bind_and_listen now endpoints s
      in if err then (True, s1)
         else let s2 = fold start_accept [0..<length (ls_acceptors s1)] s1
              in (False, s2\<lparr>ls_pool := pool_run (ls_pool s2)\<rparr>))"

definition server_stop :: "listener \<Rightarrow> listener" where
  "server_stop s = s\<lparr>ls_acceptors := map (\<lambda>_. False) (ls_acceptors s), ls_pool := pool_stop (ls_pool s)\<rparr>"

inductive listener_step :: "listener \<Rightarrow> listener \<Rightarrow> bool" where
  listener_accept: "a \<in> set (ls_accepting s) \<Longrightarrow> listener_step s (accept_done now e a s)"
| listener_delayed: "i \<in> set (ls_delayed s) \<Longrightarrow> listener_step s (delayed_accept i s)"
| listener_stop: "listener_step s (server_stop s)"

section \<open>Which io service a connection gets\<close>

text \<open>The io services of the next \<open>k\<close> calls of \<^verbatim>\<open>get_io_service\<close>.\<close>

fun next_services :: "nat \<Rightarrow> io_service_pool \<Rightarrow> nat list" where
  "next_services 0 p = []"
| "next_services (Suc k) p = (let (io, p') = get_io_service p in io # next_services k p')"

lemma next_services_nth:
  "io_services p = Suc n \<Longrightarrow> 0 < n \<Longrightarrow> next_io_service p = 1 + j mod n \<Longrightarrow> k < m
     \<Longrightarrow> next_services m p ! k = 1 + (j + k) mod n"
proof (induction m arbitrary: p j k)
  case (Suc m)
  have next1: "next_io_service (snd (get_io_service p)) = 1 + Suc j mod n"
    using Suc.prems(1-3) by (auto simp: get_io_service_def Let_def mod_Suc)
  have ios: "io_services (snd (get_io_service p)) = Suc n"
    using Suc.prems(1) by (simp add: get_io_service_def Let_def)
  show ?case
  proof (cases k)
    case 0
    then show ?thesis using Suc.prems(3) by (simp add: get_io_service_def Let_def)
  next
    case (Suc k')
    then show ?thesis using Suc.IH [OF ios Suc.prems(2) next1, of k'] Suc.prems(4)
      by (simp add: case_prod_beta Let_def)
  qed
qed simp

lemma length_next_services [simp]: "length (next_services k p) = k"
  by (induction k arbitrary: p) (simp_all add: case_prod_beta Let_def)

text \<open>C26. Connections are spread evenly over the worker threads. For a server with \<open>n\<close> threads the \<open>k\<close>-th connection is given io
  service \<open>1 + k mod n\<close>: each worker in turn, in the same order, and never the io service of the listener, 0.\<close>

theorem io_services_round_robin:
  assumes "io_service_pool_init n = Inr p" and "k < m"
  shows "next_services m p ! k = 1 + k mod n"
proof -
  have "0 < n" and "io_services p = Suc n" and "next_io_service p = 1 + 0 mod n"
    using assms(1) by (auto simp: io_service_pool_init_def split: if_splits)
  from next_services_nth [OF this(2,1,3) assms(2)] show ?thesis by simp
qed

theorem io_services_round_robin_witness:
  "\<exists>p. io_service_pool_init 3 = Inr p \<and> next_services 5 p ! 4 = 1 + 4 mod 3"
  using io_services_round_robin [of 3 _ 4 5] by (simp add: io_service_pool_init_def)

section \<open>Accepting after an error\<close>

text \<open>No acceptor has a timer: the map holds the address of a variable that no longer exists.\<close>

definition no_timers :: "listener \<Rightarrow> bool" where
  "no_timers s \<longleftrightarrow> fst ` set (ls_timers s) \<subseteq> {local_address} \<and> ls_delayed s = []"

lemma no_timers_reset: "no_timers s \<Longrightarrow> reset_acceptor now i s = s"
proof -
  assume "no_timers s"
  then have "map_find (<) (element_address i) (ls_timers s) = None"
    by (fastforce simp: map_find_None_iff lin.equivalent_key no_timers_def local_address_def element_address_def)
  then show ?thesis by (simp add: reset_acceptor_def)
qed

lemma start_accept_fields [simp]:
  "ls_timers (start_accept i s) = ls_timers s" "ls_delayed (start_accept i s) = ls_delayed s"
  "ls_acceptors (start_accept i s) = ls_acceptors s"
  by (simp_all add: start_accept_def case_prod_beta Let_def)

lemma no_timers_start [simp]: "no_timers (start_accept i s) = no_timers s"
  by (simp add: no_timers_def)

lemma no_timers_bind: "no_timers s \<Longrightarrow> no_timers (fold (bind_endpoint now) oks s)"
proof (induction oks arbitrary: s)
  case (Cons ok oks)
  have "no_timers (bind_endpoint now ok s)"
    using Cons.prems set_map_insert_subset [of "(<)" local_address "now - 100" "ls_timers s"]
    by (fastforce simp: no_timers_def bind_endpoint_def)
  then show ?case using Cons.IH by simp
qed simp

lemma no_timers_listen:
  assumes "listen_and_serve now endpoints (listener_init p) = (False, s)"
  shows "no_timers s"
proof -
  have i: "no_timers (listener_init p)" by (simp add: no_timers_def listener_init_def)
  have f: "no_timers (fold start_accept is s') = no_timers s'" for "is" s'
    by (induction "is" arbitrary: s') simp_all
  have u: "no_timers (s'\<lparr>ls_pool := q\<rparr>) = no_timers s'" for s' q by (simp add: no_timers_def)
  show ?thesis using assms no_timers_bind [OF i]
    by (auto simp: listen_and_serve_def bind_and_listen_def Let_def f u split: option.splits if_splits)
qed

text \<open>The number of accepts outstanding on an acceptor.\<close>

definition accepts_on :: "nat \<Rightarrow> listener \<Rightarrow> nat" where
  "accepts_on i s = length (filter (\<lambda>a. fst a = i) (ls_accepting s))"

lemma accepts_on_start: "accepts_on i (start_accept j s) \<le> accepts_on i s + (if i = j then 1 else 0)"
  by (simp add: accepts_on_def start_accept_def case_prod_beta Let_def)

lemma accepts_on_removed:
  assumes "a \<in> set xs"
  shows "length (filter P (remove1 a xs)) + (if P a then 1 else 0) = length (filter P xs)"
  using assms by (induction xs) auto

lemma accepts_on_done:
  assumes "no_timers s" and "a \<in> set (ls_accepting s)"
  shows "accepts_on i (accept_done now e a s) + (if i = fst a \<and> e = No_Descriptors then 1 else 0) \<le> accepts_on i s"
proof -
  let ?s1 = "s\<lparr>ls_accepting := remove1 a (ls_accepting s)\<rparr>"
  let ?s2 = "if e = Accepted then ?s1\<lparr>ls_started := ls_started ?s1 @ [snd a]\<rparr> else ?s1"
  have r: "accepts_on i ?s2 + (if i = fst a then 1 else 0) = accepts_on i s"
    using accepts_on_removed [OF assms(2), of "\<lambda>b. fst b = i"] by (auto simp: accepts_on_def)
  have "no_timers ?s2" using assms(1) by (simp add: no_timers_def)
  then show ?thesis using r accepts_on_start [of i "fst a" ?s2]
    by (auto simp: accept_done_def Let_def no_timers_reset split: if_splits)
qed

lemma no_timers_step: "listener_step s s' \<Longrightarrow> no_timers s \<Longrightarrow> no_timers s'"
proof (induction rule: listener_step.induct)
  case (listener_accept a s now e)
  let ?s1 = "s\<lparr>ls_accepting := remove1 a (ls_accepting s)\<rparr>"
  have "no_timers ?s1" "no_timers (?s1\<lparr>ls_started := x\<rparr>)" for x using listener_accept.prems by (simp_all add: no_timers_def)
  then show ?case by (auto simp: accept_done_def Let_def no_timers_reset)
qed (auto simp: no_timers_def server_stop_def)

lemma no_accept_step: "listener_step s s' \<Longrightarrow> no_timers s \<Longrightarrow> accepts_on i s' \<le> accepts_on i s"
proof (induction rule: listener_step.induct)
  case (listener_accept a s now e)
  then show ?case using accepts_on_done [of s a i now e] by simp
qed (auto simp: no_timers_def server_stop_def accepts_on_def)

lemma listener_run:
  assumes "listener_step\<^sup>*\<^sup>* s s'" and "no_timers s"
  shows "no_timers s' \<and> accepts_on i s' \<le> accepts_on i s"
  using assms
proof (induction rule: rtranclp_induct)
  case (step s1 s2)
  then show ?case using no_timers_step [OF step.hyps(2)] no_accept_step [OF step.hyps(2), of i] by simp
qed simp

lemma accepts_on_listening:
  assumes "listen_and_serve now endpoints (listener_init p) = (False, s)"
  shows "accepts_on i s \<le> 1"
proof -
  have starts: "accepts_on i (fold start_accept is s') \<le> accepts_on i s' + length (filter ((=) i) is)" for "is" s'
  proof (induction "is" arbitrary: s')
    case (Cons j "is")
    from Cons.IH [of "start_accept j s'"] accepts_on_start [of i j s'] show ?case by (auto split: if_splits)
  qed simp
  have one: "length (filter ((=) i) [0..<n]) \<le> 1" for n
  proof -
    have "filter ((=) i) [0..<n] = (if i < n then [i] else [])" by (induction n) auto
    then show ?thesis by simp
  qed
  have z: "ls_accepting (fold (bind_endpoint now) oks (listener_init p)) = []" for oks
  proof -
    have "ls_accepting (fold (bind_endpoint now) oks s') = ls_accepting s'" for s'
      by (induction oks arbitrary: s') (simp_all add: bind_endpoint_def)
    then show ?thesis by (simp add: listener_init_def)
  qed
  have u: "accepts_on i (s'\<lparr>ls_pool := q\<rparr>) = accepts_on i s'" for s' q by (simp add: accepts_on_def)
  obtain oks where s: "s = (fold start_accept [0..<length (ls_acceptors (fold (bind_endpoint now) oks (listener_init p)))]
      (fold (bind_endpoint now) oks (listener_init p)))\<lparr>ls_pool := ls_pool s\<rparr>"
    using assms by (auto simp: listen_and_serve_def bind_and_listen_def Let_def split: option.splits if_splits)
  let ?b = "fold (bind_endpoint now) oks (listener_init p)"
  have "accepts_on i ?b = 0" by (simp add: accepts_on_def z)
  then have "accepts_on i (fold start_accept [0..<length (ls_acceptors ?b)] ?b) \<le> 1"
    using starts [of "[0..<length (ls_acceptors ?b)]" ?b] one [of "length (ls_acceptors ?b)"] by linarith
  then show ?thesis by (subst s) (simp add: u)
qed

text \<open>C27. A socket that once ran out of descriptors never accepts again. The timer that should retry the accept is looked up under
  the address of the acceptor in its vector, but was stored under the address of a local variable, so it is never found:
  after an accept has failed for want of a file descriptor, whatever happens later, no accept is ever
  outstanding on that socket, although it stays open and clients can still connect to its queue.\<close>

theorem accept_never_resumes:
  assumes "listen_and_serve now endpoints (listener_init p) = (False, s0)" and "listener_step\<^sup>*\<^sup>* s0 s"
    and "(i, io) \<in> set (ls_accepting s)" and "listener_step\<^sup>*\<^sup>* (accept_done now' No_Descriptors (i, io) s) s'"
  shows "\<forall>(j, io') \<in> set (ls_accepting s'). j \<noteq> i"
proof -
  note quiet = no_timers_listen [OF assms(1)]
  note run = listener_run [OF assms(2) quiet, of i]
  have s: "no_timers s" "accepts_on i s \<le> 1" using run accepts_on_listening [OF assms(1), of i] by auto
  let ?s1 = "accept_done now' No_Descriptors (i, io) s"
  have "accepts_on i ?s1 = 0" using accepts_on_done [OF s(1) assms(3), of i now' No_Descriptors] s(2) by simp
  moreover have "no_timers ?s1" by (rule no_timers_step [OF listener_accept [OF assms(3)] s(1)])
  ultimately have "accepts_on i s' = 0" using listener_run [OF assms(4), of i] by simp
  then show ?thesis by (force simp: accepts_on_def filter_empty_conv)
qed

theorem accept_never_resumes_witness:
  "\<exists>s. listen_and_serve 0 (Some [True]) (listener_init \<lparr>io_services = 3, next_io_service = 1, work = 3, futures = []\<rparr>) = (False, s)
     \<and> ls_accepting s = [(0, 1)] \<and> ls_acceptors s = [True]
     \<and> (\<forall>(j, io') \<in> set (ls_accepting (accept_done 5 No_Descriptors (0, 1) s)). j \<noteq> 0)"
proof -
  let ?p = "\<lparr>io_services = 3, next_io_service = 1, work = 3, futures = []\<rparr>"
  let ?r = "listen_and_serve 0 (Some [True]) (listener_init ?p)"
  have "fst ?r = False \<and> ls_accepting (snd ?r) = [(0, 1)] \<and> ls_acceptors (snd ?r) = [True]" by code_simp
  then obtain s where s: "?r = (False, s)" "ls_accepting s = [(0, 1)]" "ls_acceptors s = [True]" by (cases ?r) auto
  have "(0, 1) \<in> set (ls_accepting s)" by (simp add: s(2))
  from accept_never_resumes [OF s(1) _ this, of 5] s show ?thesis by blast
qed

end
