(* ===== verification/End_To_End.thy ===== *)
theory End_To_End
  imports Http2_Response
begin

text \<open>
  The components together: a request that arrives over HTTP/2, the service and the response chosen for it, and the
  response that leaves the handler.
\<close>

text \<open>The callback the server registers, on the state of a worker thread; the time and the draws of one request.\<close>

definition server_app :: "lib \<Rightarrow> lua_lib \<Rightarrow> nat \<Rightarrow> u64 \<Rightarrow> nat \<Rightarrow> (unit, worker) application" where
  "server_app L U now sel thr cb req stream_id w = dispatch L U now sel thr req stream_id w"

text \<open>C1. The server answers a request over HTTP/2 as configured. The session reports a request on a new stream: its pseudo-header in
  any order, its other fields, of at most 64 KB, its body in any frames. Assume that the multiplexer lets it through to the
  application (its path is clean); that a service matches it, and this service has no request processor; that the response
  chosen is not throttled, has no Lua script and a status other than 0, and its header fields and payload can be produced; that no
  trailers are left over on the thread from an earlier response; and that the session accepts the submission. Then the handler
  submits exactly one response on that stream, with the configured status, the produced header fields and the length of the
  body; if the method and the status allow a body, the session, reading in whatever portions, gets exactly the produced payload,
  and if they do not (\<^verbatim>\<open>HEAD\<close>, or a status such as 204 or 304) the response is submitted as one without a body.\<close>

theorem http2_request_answered:
  assumes frame: "request_head frame" "fr_end_stream frame \<longleftrightarrow> body = []"
    and fields: "\<forall>f \<in> set pseudo. fst f \<in> set pseudo_names" "\<forall>f \<in> set regular. fst f \<notin> set pseudo_names"
      "fields_bytes regular \<le> 64 * 1024"
    and streams: "map_ordered (<) (h2_streams h)" "find_stream (fr_stream_id frame) (h2_streams h) = None"
    and req: "req = sent_request pseudo regular (concat body)" "mux_handler mux req = Inr (App ())"
    and service: "get_matched_request L (wk_services w) (H2Server_Request_Message_init req) = Inr (Some (q, g), idx, msg)"
      "request_processor g = None" "get_response_to_return g sel = Inr (r, j)"
    and response: "\<not> dbl_positive (throttle_ratio r)" "luaState r = None" "wk_trailer_headers w = []"
      "produce_headers L now r (msg, wk_rng w) = Inr (headers, st1)"
      "produce_payload L now r st1 = Inr (payload, st2)" "rs_status_code r \<noteq> 0"
    and session: "\<forall>calls nva b. session_rv calls (Submit_Response (fr_stream_id frame) nva b) = 0"
    and has_body: "has_body \<longleftrightarrow> expect_response_body_for (req_method req) (unat (rs_status_code r))"
    and submit: "submit = Submit_Response (fr_stream_id frame)
             (make_nv_ls '':status'' (nat_dec (unat (rs_status_code r))) # make_nv_ls ''date'' (fst (refresh_date fd t h))
              # trailer_fields (header_of_send headers payload [])) has_body"
  shows "\<exists>w' h1.
      session_callbacks (server_app L U now sel thr) mux session_rv fd t (request_events frame (pseudo @ regular) body) (w, h)
        = Inr (w', h1)
    \<and> (if has_body
       then h2_calls h1 = h2_calls h @ [submit, Resume_Data (fr_stream_id frame)]
         \<and> (\<exists>h2. session_callbacks (server_app L U now sel thr) mux session_rv fd t' (map (On_Read_Body (fr_stream_id frame)) ns) (w', h1)
                = Inr (w', h2)
              \<and> h2_calls h2 = h2_calls h1 @ body_log (fr_stream_id frame) payload [] ns)
         \<and> concat (map bytes_read (body_log (fr_stream_id frame) payload [] ns)) = take (sum_list ns) payload
       else h2_calls h1 = h2_calls h @ [submit])"
proof -
  let ?i = "fr_stream_id frame"
  let ?app = "server_app L U now sel thr"
  let ?s = "\<lparr>st_request = req, st_response = asio_server_response_init\<rparr>"
  let ?h = "h2_update_stream ?i ?s h"
  let ?act = "Answer (\<lambda>rv. send_ops rv (rs_status_code r) headers payload [] (req_method req))"
  let ?w = "update_stats (nat idx) j (\<lambda>s. s\<lparr>response_sent := response_sent (wk_stats w (nat idx) j) + 1\<rparr>)
        (w\<lparr>wk_reqReceived := wk_reqReceived w + 1, wk_rng := snd st2\<rparr>)"
  have "?app () req ?i w = Inr (?act, ?w)"
    unfolding server_app_def by (rule dispatch_sends [OF service response])
  then have call: "h2_call_on_request ?app mux session_rv fd t ?i ?s (w, ?h)
      = rbind (h2_run_action session_rv fd t ?i ?act ?h) (\<lambda>h'. Inr (?w, h'))"
    by (simp add: h2_call_on_request_def req(2))
  have events: "session_callbacks ?app mux session_rv fd t (request_events frame (pseudo @ regular) body) (w, h) = Inr (?w, h1)"
    if "h2_run_action session_rv fd t ?i ?act ?h = Inr h1" for h1
    using request_callbacks [OF frame streams fields, of ?app mux session_rv fd t w] call that req(1) by (simp add: Let_def)
  have ordered: "map_ordered (<) (h2_streams ?h)" by (simp add: h2_update_stream_def lin.map_assign_ordered streams(1))
  have found: "find_stream ?i (h2_streams ?h) = Some ?s" using streams(1) by simp
  have "fst (refresh_date fd t ?h) = fst (refresh_date fd t h)"
    by (simp add: refresh_date_def h2_update_stream_def case_prod_beta)
  then have c: "submit_call fd t ?h ?i (req_method req) (rs_status_code r) (header_of_send headers payload []) = submit"
    by (simp add: submit_call_def submit has_body)
  have e: "insert_headers [] [] = []" by (simp add: insert_headers_def)
  note R1 = response_calls(1) [OF ordered found session, where fd = fd and now = t and code = "rs_status_code r" and headers = headers
      and payload = payload and trailers = "[]" and app = ?app and mux = mux and now' = t' and ns = ns and w = ?w, unfolded c e]
  note R2 = response_calls(2) [OF ordered found session, where fd = fd and now = t and code = "rs_status_code r" and headers = headers
      and payload = payload and trailers = "[]", unfolded c]
  show ?thesis
  proof (cases has_body)
    case True
    then obtain h1 h2 where "h2_run_action session_rv fd t ?i ?act ?h = Inr h1"
      "h2_calls h1 = h2_calls ?h @ [submit, Resume_Data ?i]"
      "session_callbacks ?app mux session_rv fd t' (map (On_Read_Body ?i) ns) (?w, h1) = Inr (?w, h2)"
      "h2_calls h2 = h2_calls ?h @ [submit, Resume_Data ?i] @ body_log ?i payload [] ns"
      using R1 has_body by blast
    then show ?thesis using True events body_log_bytes
      by (intro exI [of _ ?w] exI [of _ h1]) simp
  next
    case False
    then obtain h1 where "h2_run_action session_rv fd t ?i ?act ?h = Inr h1" "h2_calls h1 = h2_calls ?h @ [submit]"
      using R2 has_body by blast
    then show ?thesis using False events by (intro exI [of _ ?w] exI [of _ h1]) simp
  qed
qed

abbreviation root_mux :: "unit serve_mux" where
  "root_mux \<equiv> snd (handle ''/'' (Some ()) [])"

abbreviation get_root :: nghttp2_frame where
  "get_root \<equiv> \<lparr>fr_type = FRAME_HEADERS, fr_stream_id = 1, fr_end_stream = True, fr_cat_request = True, fr_promised_stream_id = 0\<rparr>"

theorem http2_request_answered_witness:
  "\<exists>w' h1.
      session_callbacks (server_app plain_lib plain_lua 0 0 0) root_mux (\<lambda>_ _. 0) (\<lambda>_. ''now'') 7
        (request_events get_root ([('':path'', ''/'', False), ('':method'', ''GET'', False)] @ []) [])
        (worker_init plain_services (sconst 0), http2_handler_init (0, [])) = Inr (w', h1)
    \<and> h2_calls h1 = [Submit_Response 1 [make_nv_ls '':status'' ''200'', make_nv_ls ''date'' ''now'', make_nv_ls ''content-length'' ''5''] True,
          Resume_Data 1]
    \<and> (\<exists>h2. session_callbacks (server_app plain_lib plain_lua 0 0 0) root_mux (\<lambda>_ _. 0) (\<lambda>_. ''now'') 8
        (map (On_Read_Body 1) [2, 9]) (w', h1) = Inr (w', h2)
      \<and> h2_calls h2 = h2_calls h1 @ [Body_Read 1 2 ''he'' 0, Body_Read 1 3 ''llo'' 1])"
proof -
  let ?p = "[('':path'', ''/'', False), ('':method'', ''GET'', False)]"
  let ?h = "http2_handler_init (0, [])"
  define req where "req = sent_request ?p [] (concat ([] :: string list list))"
  let ?msg = "H2Server_Request_Message_init req"
  have meth: "req_method req = ''GET''" by (simp add: req_def sent_request_def Let_def)
  have mux: "mux_handler root_mux req = Inr (App ())" unfolding req_def by code_simp
  have e: "expect_response_body_for (req_method req) (unat (rs_status_code plain_response))" unfolding meth by code_simp
  have m: "get_matched_request plain_lib (wk_services (worker_init plain_services (sconst 0))) ?msg
      = Inr (Some (fst (hd plain_services), snd (hd plain_services)), 0, ?msg)"
    by (simp add: get_matched_request_def plain_services_def worker_init_def request_match_def)
  have streams: "map_ordered (<) (h2_streams ?h)" "find_stream (fr_stream_id get_root) (h2_streams ?h) = None"
    by (simp_all add: http2_handler_init_def find_stream_def)
  have s: "nat_dec (unat (rs_status_code plain_response)) = ''200''" by code_simp
  have t: "trailer_fields (header_of_send [] ''hello'' []) = [make_nv_ls ''content-length'' ''5'']" by code_simp
  have d: "fst (refresh_date (\<lambda>_. ''now'') 7 ?h) = ''now''" by code_simp
  have b: "body_log 1 ''hello'' [] [2, 9] = [Body_Read 1 2 ''he'' 0, Body_Read 1 3 ''llo'' 1]"
    by (simp add: NGHTTP2_DATA_FLAG_EOF_def)
  have c: "h2_calls ?h = []" by (simp add: http2_handler_init_def)
  note R = http2_request_answered [of get_root "[]" ?p "[]" ?h req root_mux plain_lib "worker_init plain_services (sconst 0)" _ _ 0 ?msg 0
      plain_response 0 0 "[]" "(?msg, sconst 0)" "''hello''" "(?msg, sconst 0)" "\<lambda>_ _. 0" _ _ "\<lambda>_. ''now''" 7 plain_lua 0 8 "[2, 9]",
      OF _ _ _ _ _ streams req_def mux m _ _ _ _ _ _ _ _ _ refl refl]
  show ?thesis
    using R e unfolding s t d c b
    by (simp add: pseudo_names_def fields_bytes_def get_response_to_return_def select_response_def plain_response_def dbl_positive_def
        worker_init_def produce_headers_def produce_payload_def plain_services_def NGHTTP2_DATA_FLAG_EOF_def)
qed

end
