(* ===== verification/Alpn.thy ===== *)
theory Alpn
  imports Config_Schema
begin

text \<open>
  The negotiation of the protocol of a TLS connection: the choice among the protocols a client offers (\<^verbatim>\<open>select_proto\<close> and
  \<^verbatim>\<open>select_h2\<close> of \<^verbatim>\<open>util.cc\<close>, the callback of \<^verbatim>\<open>asio_server_tls_context.cc\<close>) and the protocol the connection is started with
  (\<^verbatim>\<open>tls_h2_negotiated\<close> of \<^verbatim>\<open>asio_common.cc\<close>, \<^verbatim>\<open>start_accept\<close> of \<^verbatim>\<open>asio_server.cc\<close>). The TLS handshake itself is
  third-party code.
\<close>

section \<open>Choosing among the offers\<close>

definition NGHTTP2_H2 :: string where "NGHTTP2_H2 = ''h2''"
definition NGHTTP2_H2_16 :: string where "NGHTTP2_H2_16 = ''h2-16''"
definition NGHTTP2_H2_14 :: string where "NGHTTP2_H2_14 = ''h2-14''"
definition NGHTTP2_H2_ALPN :: string where "NGHTTP2_H2_ALPN = CHR 0x02 # ''h2''"
definition NGHTTP2_H2_16_ALPN :: string where "NGHTTP2_H2_16_ALPN = CHR 0x05 # ''h2-16''"
definition NGHTTP2_H2_14_ALPN :: string where "NGHTTP2_H2_14_ALPN = CHR 0x05 # ''h2-14''"

text \<open>\<^verbatim>\<open>std::equal\<close> on the key and the bytes \<open>rest\<close> from a position of the list on: its second range must be as long as the
  first, and reading past the list is a fault.\<close>

definition std_equal :: "string \<Rightarrow> string \<Rightarrow> bool result" where
  "std_equal key rest = (if length rest < length key then Inl Out_Of_Bounds else Inr (take (length key) rest = key))"

text \<open>The loop of \<^verbatim>\<open>select_proto\<close> from position \<open>pos\<close> of the list on; the result is where the chosen name begins and its length.\<close>

function select_proto :: "string \<Rightarrow> nat \<Rightarrow> string \<Rightarrow> (nat \<times> nat) option result" where
  "select_proto key pos offers =
     (if pos + length key \<le> length offers
      then rbind (std_equal key (drop pos offers)) (\<lambda>eq.
             case drop pos offers of
               [] \<Rightarrow> Inl Out_Of_Bounds
             | c # _ \<Rightarrow> if eq then Inr (Some (pos + 1, of_char c)) else select_proto key (pos + of_char c + 1) offers)
      else Inr None)"
  by pat_completeness auto

termination
  by (relation "measure (\<lambda>(key, pos, offers). length offers + 1 - pos)") auto

declare select_proto.simps [simp del]

definition select_h2 :: "string \<Rightarrow> (nat \<times> nat) option result" where
  "select_h2 offers =
     rbind (select_proto NGHTTP2_H2_ALPN 0 offers) (\<lambda>r1. case r1 of Some x \<Rightarrow> Inr (Some x) | None \<Rightarrow>
       rbind (select_proto NGHTTP2_H2_16_ALPN 0 offers) (\<lambda>r2. case r2 of Some x \<Rightarrow> Inr (Some x) | None \<Rightarrow>
         select_proto NGHTTP2_H2_14_ALPN 0 offers))"

fun select_protocol :: "string list \<Rightarrow> string \<Rightarrow> (nat \<times> nat) option result" where
  "select_protocol [] offers = Inr None"
| "select_protocol (proto # protos) offers =
     rbind (select_proto proto 0 offers) (\<lambda>r. case r of Some x \<Rightarrow> Inr (Some x) | None \<Rightarrow> select_protocol protos offers)"

definition get_default_alpn :: string where
  "get_default_alpn = NGHTTP2_H2_ALPN @ NGHTTP2_H2_16_ALPN @ NGHTTP2_H2_14_ALPN"

text \<open>The callback: the bytes it points the library to, or no acknowledgement.\<close>

definition alpn_select_proto_cb :: "string \<Rightarrow> string option result" where
  "alpn_select_proto_cb offers =
     rbind (select_h2 offers) (\<lambda>r. case r of
        None \<Rightarrow> Inr None
      | Some (out, outlen) \<Rightarrow>
          if length offers < out + outlen then Inl Out_Of_Bounds else Inr (Some (take outlen (drop out offers))))"

section \<open>The protocol of the connection\<close>

definition check_h2_is_selected :: "string \<Rightarrow> bool" where
  "check_h2_is_selected proto \<longleftrightarrow> NGHTTP2_H2 = proto \<or> NGHTTP2_H2_16 = proto \<or> NGHTTP2_H2_14 = proto"

text \<open>What the library reports of the two extensions.\<close>

definition tls_h2_negotiated :: "string option \<Rightarrow> string option \<Rightarrow> bool" where
  "tls_h2_negotiated next_proto alpn_selected =
     (case (if next_proto = None then alpn_selected else next_proto) of
        None \<Rightarrow> False
      | Some proto \<Rightarrow> check_h2_is_selected proto)"

definition connection_proto :: "string option \<Rightarrow> string option \<Rightarrow> NO_TLS_PROTO" where
  "connection_proto next_proto alpn_selected = (if tls_h2_negotiated next_proto alpn_selected then HTTP2 else HTTP1_1)"

section \<open>Lists of names\<close>

text \<open>The wire format of a list of protocol names: each is preceded by its length.\<close>

definition alpn_id :: "string \<Rightarrow> string" where
  "alpn_id name = char_of (length name) # name"

definition alpn_wire :: "string list \<Rightarrow> string" where
  "alpn_wire names = concat (map alpn_id names)"

text \<open>Where the loop's condition holds the comparison stays within the list.\<close>

lemma std_equal_within:
  "pos + length key \<le> length offers \<Longrightarrow> std_equal key (drop pos offers) = Inr (take (length key) (drop pos offers) = key)"
  by (simp add: std_equal_def)

lemma select_proto_step:
  "pos + length key \<le> length offers \<Longrightarrow> drop pos offers = c # cs \<Longrightarrow>
     select_proto key pos offers =
       (if take (length key) (c # cs) = key then Inr (Some (pos + 1, of_char c)) else select_proto key (pos + of_char c + 1) offers)"
  using std_equal_within [of pos key offers] by (subst select_proto.simps) (simp only: if_True rbind.simps list.case)

lemma alpn_keys:
  "NGHTTP2_H2_ALPN = alpn_id NGHTTP2_H2" "NGHTTP2_H2_16_ALPN = alpn_id NGHTTP2_H2_16" "NGHTTP2_H2_14_ALPN = alpn_id NGHTTP2_H2_14"
  by code_simp+

lemma of_char_length [simp]: "length name < 256 \<Longrightarrow> of_char (char_of (length name)) = length name"
  by simp

lemma select_proto_names:
  assumes "\<forall>m \<in> set names. length m < 256" and "length name < 256"
  shows "\<exists>r. select_proto (alpn_id name) (length pre) (pre @ alpn_wire names) = Inr r
    \<and> (r = None \<longleftrightarrow> name \<notin> set names)
    \<and> (\<forall>off len. r = Some (off, len) \<longrightarrow> off + len \<le> length (pre @ alpn_wire names)
         \<and> take len (drop off (pre @ alpn_wire names)) = name)"
  using assms(1)
proof (induction names arbitrary: pre)
  case Nil
  then show ?case by (subst select_proto.simps) (simp add: alpn_wire_def alpn_id_def)
next
  case (Cons m names)
  let ?in = "pre @ alpn_wire (m # names)"
  have split: "?in = (pre @ alpn_id m) @ alpn_wire names" by (simp add: alpn_wire_def)
  have rest: "drop (length pre) ?in = char_of (length m) # m @ alpn_wire names" by (simp add: alpn_wire_def alpn_id_def)
  have len: "of_char (char_of (length m)) = length m" using Cons.prems by simp
  show ?case
  proof (cases "m = name")
    case True
    have "select_proto (alpn_id name) (length pre) ?in = Inr (Some (length pre + 1, length name))"
      using rest len True by (subst select_proto.simps) (simp add: alpn_wire_def alpn_id_def std_equal_def)
    then show ?thesis using True by (simp add: alpn_wire_def alpn_id_def)
  next
    case False
    have ne: "take (length (alpn_id name)) (drop (length pre) ?in) \<noteq> alpn_id name"
    proof
      assume "take (length (alpn_id name)) (drop (length pre) ?in) = alpn_id name"
      then have "char_of (length m) = (char_of (length name) :: char)" "take (length name) (m @ alpn_wire names) = name"
        unfolding rest by (simp_all add: alpn_id_def)
      then have "length m = length name" using len assms(2) by (metis of_char_length)
      with \<open>take (length name) (m @ alpn_wire names) = name\<close> False show False by simp
    qed
    show ?thesis
    proof (cases "length pre + length (alpn_id name) \<le> length ?in")
      case True
      have "select_proto (alpn_id name) (length pre) ?in = select_proto (alpn_id name) (length pre + length m + 1) ?in"
        by (simp only: select_proto_step [OF True rest] ne [unfolded rest] if_False len)
      also have "length pre + length m + 1 = length (pre @ alpn_id m)" by (simp add: alpn_id_def)
      finally have "select_proto (alpn_id name) (length pre) ?in
          = select_proto (alpn_id name) (length (pre @ alpn_id m)) ((pre @ alpn_id m) @ alpn_wire names)" unfolding split .
      then show ?thesis using Cons.IH [of "pre @ alpn_id m"] Cons.prems False unfolding split by auto
    next
      case short: False
      have "name \<notin> set names"
      proof
        assume "name \<in> set names"
        then have "length (alpn_id name) \<le> length (alpn_wire names)"
          unfolding alpn_wire_def by (induction names) auto
        then show False using short unfolding split by simp
      qed
      then show ?thesis using short False by (subst select_proto.simps) simp
    qed
  qed
qed

lemma select_proto_safe:
  "key \<noteq> [] \<Longrightarrow> length key = Suc (of_char (hd key)) \<Longrightarrow>
     \<exists>r. select_proto key pos offers = Inr r \<and> (\<forall>out len. r = Some (out, len) \<longrightarrow> out + len \<le> length offers)"
proof (induction key pos offers rule: select_proto.induct)
  case (1 key pos offers)
  show ?case
  proof (cases "pos + length key \<le> length offers")
    case True
    then obtain c cs where d: "drop pos offers = c # cs" using "1.prems"(1) by (cases "drop pos offers"; cases key) auto
    show ?thesis
    proof (cases "take (length key) (drop pos offers) = key")
      case eq: True
      then have "hd key = c" using d "1.prems"(1) by (cases key) auto
      then show ?thesis using select_proto_step [OF True d] True eq d "1.prems"(2) by simp
    next
      case False
      then show ?thesis using "1.IH" [OF True std_equal_within [OF True] d _ "1.prems"] select_proto_step [OF True d] d by simp
    qed
  next
    case False
    then show ?thesis by (subst select_proto.simps) simp
  qed
qed

text \<open>Whatever bytes a client sends as its list, the choice ends, reads nothing outside the list and points inside it.\<close>

lemma alpn_choice_safe: "\<exists>r. alpn_select_proto_cb offers = Inr r"
proof -
  have keys: "NGHTTP2_H2_ALPN \<noteq> []" "length NGHTTP2_H2_ALPN = Suc (of_char (hd NGHTTP2_H2_ALPN))"
    "NGHTTP2_H2_16_ALPN \<noteq> []" "length NGHTTP2_H2_16_ALPN = Suc (of_char (hd NGHTTP2_H2_16_ALPN))"
    "NGHTTP2_H2_14_ALPN \<noteq> []" "length NGHTTP2_H2_14_ALPN = Suc (of_char (hd NGHTTP2_H2_14_ALPN))"
    by code_simp+
  obtain r1 where r1: "select_proto NGHTTP2_H2_ALPN 0 offers = Inr r1" "\<And>out len. r1 = Some (out, len) \<Longrightarrow> out + len \<le> length offers"
    using select_proto_safe [OF keys(1,2)] by blast
  obtain r2 where r2: "select_proto NGHTTP2_H2_16_ALPN 0 offers = Inr r2" "\<And>out len. r2 = Some (out, len) \<Longrightarrow> out + len \<le> length offers"
    using select_proto_safe [OF keys(3,4)] by blast
  obtain r3 where r3: "select_proto NGHTTP2_H2_14_ALPN 0 offers = Inr r3" "\<And>out len. r3 = Some (out, len) \<Longrightarrow> out + len \<le> length offers"
    using select_proto_safe [OF keys(5,6)] by blast
  show ?thesis
    by (cases r1; cases r2; cases r3)
      (auto simp: alpn_select_proto_cb_def select_h2_def r1(1) r2(1) r3(1) not_less dest!: r1(2) r2(2) r3(2))
qed

section \<open>Properties\<close>

text \<open>C28. A TLS client that offers HTTP/2 gets HTTP/2. For a list of protocol names (each shorter than 256 bytes) the callback
  answers with the best version of HTTP/2 in the list, or with none when the list has none, and the connection is then started
  with the HTTP/2 handler exactly when the list has one. For any bytes at all, well-formed or not, the callback ends with an
  answer and not with the fault that stands for a read outside the list, which every comparison and every read of a length of
  the model can raise.\<close>

theorem alpn_negotiates_h2:
  assumes "\<forall>m \<in> set names. length m < 256"
  shows "\<exists>choice. alpn_select_proto_cb (alpn_wire names) = Inr choice
    \<and> choice = (if ''h2'' \<in> set names then Some ''h2'' else if ''h2-16'' \<in> set names then Some ''h2-16''
                else if ''h2-14'' \<in> set names then Some ''h2-14'' else None)
    \<and> (connection_proto None choice = HTTP2 \<longleftrightarrow> set names \<inter> {''h2'', ''h2-16'', ''h2-14''} \<noteq> {})
    \<and> (\<forall>offers. \<exists>r. alpn_select_proto_cb offers = Inr r)"
proof -
  let ?in = "alpn_wire names"
  obtain r1 where r1: "select_proto NGHTTP2_H2_ALPN 0 ?in = Inr r1" "r1 = None \<longleftrightarrow> ''h2'' \<notin> set names"
    "\<And>off len. r1 = Some (off, len) \<Longrightarrow> off + len \<le> length ?in \<and> take len (drop off ?in) = ''h2''"
    using select_proto_names [OF assms, of "''h2''" "[]"] by (auto simp: alpn_keys NGHTTP2_H2_def)
  obtain r2 where r2: "select_proto NGHTTP2_H2_16_ALPN 0 ?in = Inr r2" "r2 = None \<longleftrightarrow> ''h2-16'' \<notin> set names"
    "\<And>off len. r2 = Some (off, len) \<Longrightarrow> off + len \<le> length ?in \<and> take len (drop off ?in) = ''h2-16''"
    using select_proto_names [OF assms, of "''h2-16''" "[]"] by (auto simp: alpn_keys NGHTTP2_H2_16_def)
  obtain r3 where r3: "select_proto NGHTTP2_H2_14_ALPN 0 ?in = Inr r3" "r3 = None \<longleftrightarrow> ''h2-14'' \<notin> set names"
    "\<And>off len. r3 = Some (off, len) \<Longrightarrow> off + len \<le> length ?in \<and> take len (drop off ?in) = ''h2-14''"
    using select_proto_names [OF assms, of "''h2-14''" "[]"] by (auto simp: alpn_keys NGHTTP2_H2_14_def)
  let ?choice = "if ''h2'' \<in> set names then Some ''h2'' else if ''h2-16'' \<in> set names then Some ''h2-16''
                else if ''h2-14'' \<in> set names then Some ''h2-14'' else None"
  have "alpn_select_proto_cb (alpn_wire names) = Inr ?choice"
    using r1(2,3) r2(2,3) r3(2,3)
    by (cases r1; cases r2; cases r3) (auto simp: alpn_select_proto_cb_def select_h2_def r1(1) r2(1) r3(1) not_less)
  moreover have "connection_proto None ?choice = HTTP2 \<longleftrightarrow> set names \<inter> {''h2'', ''h2-16'', ''h2-14''} \<noteq> {}"
    by (auto simp: connection_proto_def tls_h2_negotiated_def check_h2_is_selected_def NGHTTP2_H2_def NGHTTP2_H2_16_def
        NGHTTP2_H2_14_def)
  ultimately show ?thesis using alpn_choice_safe by blast
qed

theorem alpn_negotiates_h2_witness:
  "alpn_select_proto_cb (CHR 0x08 # ''http/1.1'' @ CHR 0x02 # ''h2'') = Inr (Some ''h2'')
   \<and> connection_proto None (Some ''h2'') = HTTP2"
proof -
  have w: "alpn_wire [''http/1.1'', ''h2''] = CHR 0x08 # ''http/1.1'' @ CHR 0x02 # ''h2''" by code_simp
  show ?thesis using alpn_negotiates_h2 [of "[''http/1.1'', ''h2'']"] unfolding w by simp
qed

end
