(* ===== verification/Http_Date.thy ===== *)
theory Http_Date
  imports Calendar Base_Handler
begin

text \<open>
  Dates as text (\<^verbatim>\<open>util.cc\<close>): the \<^verbatim>\<open>date\<close> field of the responses, the dates of logs, and the reading of a date.
  Of the C library the sources use \<^verbatim>\<open>gmtime_r\<close> and \<^verbatim>\<open>strptime\<close>, which are modelled for what is used of
  them (the C locale), and \<^verbatim>\<open>localtime_r\<close>, which depends on the time zone and is an argument.
\<close>

section \<open>Writing a date\<close>

text \<open>The last \<open>len\<close> decimal digits of a number, at least one in the source.\<close>

fun cpydig :: "u32 \<Rightarrow> nat \<Rightarrow> string" where
  "cpydig n 0 = []"
| "cpydig n (Suc len) = cpydig (n div 10) len @ [digit_char (unat (n mod 10))]"

definition MONTH :: "string list" where
  "MONTH = [''Jan'', ''Feb'', ''Mar'', ''Apr'', ''May'', ''Jun'', ''Jul'', ''Aug'', ''Sep'', ''Oct'', ''Nov'', ''Dec'']"

definition DAY_OF_WEEK :: "string list" where
  "DAY_OF_WEEK = [''Sun'', ''Mon'', ''Tue'', ''Wed'', ''Thu'', ''Fri'', ''Sat'']"

text \<open>\<^verbatim>\<open>gmtime_r\<close>: fails when the year is no \<^verbatim>\<open>int\<close>.\<close>

definition gmtime_r :: "nat \<Rightarrow> tm option" where
  "gmtime_r t = (if tm_year (gmtime t) < 2 ^ 31 then Some (gmtime t) else None)"

definition util_http_date :: "nat \<Rightarrow> string" where
  "util_http_date t =
     (case gmtime_r t of
        None \<Rightarrow> replicate 29 (char_of (0 :: nat))
      | Some tms \<Rightarrow>
          DAY_OF_WEEK ! nat (tm_wday tms) @ '', '' @ cpydig (word_of_int (tm_mday tms)) 2 @ '' ''
            @ MONTH ! nat (tm_mon tms) @ '' '' @ cpydig (word_of_int (tm_year tms + 1900)) 4 @ '' ''
            @ cpydig (word_of_int (tm_hour tms)) 2 @ '':'' @ cpydig (word_of_int (tm_min tms)) 2 @ '':''
            @ cpydig (word_of_int (tm_sec tms)) 2 @ '' GMT'')"

text \<open>\<open>local\<close> is what \<^verbatim>\<open>localtime_r\<close> gives: the broken-down time and its offset from UTC in seconds.\<close>

definition common_log_date :: "(tm \<times> int) option \<Rightarrow> string" where
  "common_log_date local =
     (case local of
        None \<Rightarrow> replicate 26 (char_of (0 :: nat))
      | Some (tms, gmtoff) \<Rightarrow>
          cpydig (word_of_int (tm_mday tms)) 2 @ ''/'' @ MONTH ! nat (tm_mon tms) @ ''/''
            @ cpydig (word_of_int (tm_year tms + 1900)) 4 @ '':'' @ cpydig (word_of_int (tm_hour tms)) 2 @ '':''
            @ cpydig (word_of_int (tm_min tms)) 2 @ '':'' @ cpydig (word_of_int (tm_sec tms)) 2 @ '' ''
            @ (if 0 \<le> gmtoff then ''+'' else ''-'')
            @ cpydig (word_of_int (\<bar>gmtoff\<bar> div 3600)) 2 @ cpydig (word_of_int (\<bar>gmtoff\<bar> mod 3600 div 60)) 2)"

definition iso8601_date :: "(tm \<times> int) option \<Rightarrow> int \<Rightarrow> string" where
  "iso8601_date local ms =
     (case local of
        None \<Rightarrow> []
      | Some (tms, gmtoff) \<Rightarrow>
          cpydig (word_of_int (tm_year tms + 1900)) 4 @ ''-'' @ cpydig (word_of_int (tm_mon tms + 1)) 2 @ ''-''
            @ cpydig (word_of_int (tm_mday tms)) 2 @ ''T'' @ cpydig (word_of_int (tm_hour tms)) 2 @ '':''
            @ cpydig (word_of_int (tm_min tms)) 2 @ '':'' @ cpydig (word_of_int (tm_sec tms)) 2 @ ''.''
            @ cpydig (word_of_int (ms smod 1000)) 3
            @ (if gmtoff = 0 then ''Z''
               else (if 0 < gmtoff then ''+'' else ''-'') @ cpydig (word_of_int (\<bar>gmtoff\<bar> div 3600)) 2 @ '':''
                 @ cpydig (word_of_int (\<bar>gmtoff\<bar> mod 3600 div 60)) 2))"

section \<open>Reading a date\<close>

text \<open>The parts of \<^verbatim>\<open>strptime\<close> for the format \<^verbatim>\<open>"%a, %d %b %Y %H:%M:%S GMT"\<close>: a name, full or abbreviated and in any
  case; a number of at most \<open>n\<close> digits; white space; and text that has to be there. The day of the year, which the format
  does not have and the caller does not read, is left 0.\<close>

definition ascii_lower :: "char \<Rightarrow> char" where
  "ascii_lower c = (if 65 \<le> (of_char c :: nat) \<and> (of_char c :: nat) \<le> 90 then char_of ((of_char c :: nat) + 32) else c)"

definition strip_ci :: "string \<Rightarrow> string \<Rightarrow> string option" where
  "strip_ci name s =
     (if length name \<le> length s \<and> map ascii_lower (take (length name) s) = map ascii_lower name
      then Some (drop (length name) s) else None)"

fun get_name :: "nat \<Rightarrow> (string \<times> string) list \<Rightarrow> string \<Rightarrow> (nat \<times> string) option" where
  "get_name i [] s = None"
| "get_name i ((full, short) # names) s =
     (case strip_ci full s of
        Some r \<Rightarrow> Some (i, r)
      | None \<Rightarrow> (case strip_ci short s of Some r \<Rightarrow> Some (i, r) | None \<Rightarrow> get_name (Suc i) names s))"

fun get_digits :: "nat \<Rightarrow> nat \<Rightarrow> nat \<Rightarrow> string \<Rightarrow> nat \<times> string" where
  "get_digits hi 0 acc s = (acc, s)"
| "get_digits hi (Suc n) acc [] = (acc, [])"
| "get_digits hi (Suc n) acc (c # cs) =
     (if acc * 10 \<le> hi \<and> is_digit_char c then get_digits hi n (acc * 10 + digit_val c) cs else (acc, c # cs))"

definition get_number :: "nat \<Rightarrow> nat \<Rightarrow> nat \<Rightarrow> string \<Rightarrow> (nat \<times> string) option" where
  "get_number lo hi n s0 =
     (let s = dropWhile (\<lambda>c. c = CHR '' '') s0
      in if s = [] \<or> \<not> is_digit_char (hd s) then None
         else let (v, r) = get_digits hi (n - 1) (digit_val (hd s)) (tl s)
              in if lo \<le> v \<and> v \<le> hi then Some (v, r) else None)"

definition get_text :: "string \<Rightarrow> string \<Rightarrow> string option" where
  "get_text lit s = (if prefix lit s then Some (drop (length lit) s) else None)"

definition full_days :: "string list" where
  "full_days = [''Sunday'', ''Monday'', ''Tuesday'', ''Wednesday'', ''Thursday'', ''Friday'', ''Saturday'']"

definition full_months :: "string list" where
  "full_months = [''January'', ''February'', ''March'', ''April'', ''May'', ''June'', ''July'', ''August'', ''September'',
     ''October'', ''November'', ''December'']"

definition strptime_imf :: "string \<Rightarrow> tm option" where
  "strptime_imf s =
     Option.bind (get_name 0 (zip full_days DAY_OF_WEEK) s) (\<lambda>(wday, s1).
     Option.bind (get_text '','' s1) (\<lambda>s2.
     Option.bind (get_number 1 31 2 (dropWhile is_space_char s2)) (\<lambda>(mday, s3).
     Option.bind (get_name 0 (zip full_months MONTH) (dropWhile is_space_char s3)) (\<lambda>(mon, s4).
     Option.bind (get_number 0 9999 4 (dropWhile is_space_char s4)) (\<lambda>(year, s5).
     Option.bind (get_number 0 23 2 (dropWhile is_space_char s5)) (\<lambda>(hour, s6).
     Option.bind (get_text '':'' s6) (\<lambda>s7.
     Option.bind (get_number 0 59 2 s7) (\<lambda>(minute, s8).
     Option.bind (get_text '':'' s8) (\<lambda>s9.
     Option.bind (get_number 0 61 2 s9) (\<lambda>(sec, s10).
     Option.bind (get_text ''GMT'' (dropWhile is_space_char s10)) (\<lambda>s11.
       Some \<lparr>tm_sec = int sec, tm_min = int minute, tm_hour = int hour, tm_mday = int mday, tm_mon = int mon,
         tm_year = int year - 1900, tm_wday = int wday, tm_yday = 0\<rparr>)))))))))))"

definition parse_http_date :: "string \<Rightarrow> int result" where
  "parse_http_date s = (case strptime_imf s of None \<Rightarrow> Inr 0 | Some tm \<Rightarrow> nghttp2_timegm_without_yday 8 tm)"

section \<open>Digits\<close>

fun digits :: "nat \<Rightarrow> nat \<Rightarrow> string" where
  "digits n 0 = []"
| "digits n (Suc len) = digits (n div 10) len @ [digit_char (n mod 10)]"

lemma cpydig_digits: "cpydig n len = digits (unat n) len"
  by (induction len arbitrary: n) (simp_all add: unat_div unat_mod)

lemma cpydig_int: "0 \<le> i \<Longrightarrow> i < 2 ^ 32 \<Longrightarrow> cpydig (word_of_int i) len = digits (nat i) len"
  by (simp add: cpydig_digits unat_eq_nat_uint uint_word_of_int_eq take_bit_int_eq_self)

lemma length_cpydig [simp]: "length (cpydig n len) = len"
  by (induction n len rule: cpydig.induct) simp_all

lemma get_digit: "d < 10 \<Longrightarrow> acc * 10 \<le> hi \<Longrightarrow> get_digits hi (Suc n) acc (digit_char d # cs) = get_digits hi n (acc * 10 + d) cs"
  by simp

lemma digit_char_not_space [simp]: "d < 10 \<Longrightarrow> digit_char d \<noteq> CHR '' ''" "d < 10 \<Longrightarrow> \<not> is_space_char (digit_char d)"
  using digit_not_space [of "digit_char d"] by (auto simp: is_space_char_def)

lemma get_number_two:
  assumes "lo \<le> n" "n \<le> hi" "n < 100"
  shows "get_number lo hi 2 (digits n 2 @ r) = Some (n, r)"
proof -
  have "n div 10 < 10" using assms(3) by simp
  moreover have "n div 10 * 10 \<le> hi" using assms(2) by linarith
  ultimately show ?thesis using assms(1,2) by (simp add: get_number_def numeral_2_eq_2 Let_def del: get_digits.simps(3)) (simp add: get_digit)
qed

lemma get_number_digits:
  assumes "a < 10" "b < 10" "c < 10" "d < 10"
  shows "get_number 0 9999 4 (digit_char a # digit_char b # digit_char c # digit_char d # r) = Some (((a * 10 + b) * 10 + c) * 10 + d, r)"
proof -
  have "get_digits 9999 3 a (digit_char b # digit_char c # digit_char d # r) = (((a * 10 + b) * 10 + c) * 10 + d, r)"
    using assms by (simp add: numeral_3_eq_3 get_digit del: get_digits.simps(3))
  then show ?thesis using assms by (simp add: get_number_def del: get_digits.simps)
qed

lemma get_number_four:
  assumes "n < 10000"
  shows "get_number 0 9999 4 (digits n 4 @ r) = Some (n, r)"
proof -
  let ?a = "n div 10 div 10 div 10" and ?b = "n div 10 div 10 mod 10" and ?c = "n div 10 mod 10" and ?d = "n mod 10"
  have "?a < 10" using assms by (simp add: div_mult2_eq [symmetric] less_mult_imp_div_less)
  moreover have four: "(4 :: nat) = Suc (Suc (Suc (Suc 0)))" by simp
  ultimately have "digits n 4 = [digit_char ?a, digit_char ?b, digit_char ?c, digit_char ?d]" unfolding four by simp
  moreover have "((?a * 10 + ?b) * 10 + ?c) * 10 + ?d = n" by (simp only: div_mult_mod_eq)
  ultimately show ?thesis using get_number_digits [of ?a ?b ?c ?d r] \<open>?a < 10\<close> by simp
qed

section \<open>The fields of a time\<close>

lemma gmtime_ranges:
  "0 \<le> tm_sec (gmtime t)" "tm_sec (gmtime t) < 60" "0 \<le> tm_min (gmtime t)" "tm_min (gmtime t) < 60"
  "0 \<le> tm_hour (gmtime t)" "tm_hour (gmtime t) < 24" "0 \<le> tm_wday (gmtime t)" "tm_wday (gmtime t) < 7"
proof -
  have h: "t mod 86400 div 3600 < 24" by (simp add: less_mult_imp_div_less)
  obtain y yd m md where "split_year (t div 86400) 1970 = (y, yd)" "split_month yd (month_lengths y) 0 = (m, md)" by fastforce
  note g = this
  show "0 \<le> tm_sec (gmtime t)" "tm_sec (gmtime t) < 60" "0 \<le> tm_min (gmtime t)" "tm_min (gmtime t) < 60"
    "0 \<le> tm_hour (gmtime t)" "tm_hour (gmtime t) < 24" "0 \<le> tm_wday (gmtime t)" "tm_wday (gmtime t) < 7"
    using h by (simp_all add: gmtime_def g Let_def)
qed

lemma year_start_mono: "y \<le> y' \<Longrightarrow> year_start y \<le> year_start y'"
proof (induction y' rule: dec_induct)
  case (step n)
  then show ?case by (simp add: year_start_Suc)
qed simp

lemma gmtime_year:
  assumes "t < 253402300800"
  shows "tm_year (gmtime t) + 1900 < 10000" "1970 \<le> tm_year (gmtime t) + 1900"
proof -
  obtain y m where y: "tm_year (gmtime t) = int y - 1900" "1970 \<le> y" "year_start y + tm_yday (gmtime t) = int (t div 86400)"
    "0 \<le> tm_yday (gmtime t)"
    by (rule gmtime_fields [of t])
  have "t div 86400 < 2932897" using assms by (simp add: less_mult_imp_div_less)
  moreover have "year_start 10000 = 2932897" by (simp add: year_start_def leaps_before_def)
  ultimately have "\<not> 10000 \<le> y" using y(3,4) year_start_mono [of 10000 y] by linarith
  then show "tm_year (gmtime t) + 1900 < 10000" "1970 \<le> tm_year (gmtime t) + 1900" using y(1,2) by simp_all
qed

lemma timegm_without_yday_cong:
  "tm_sec a = tm_sec b \<Longrightarrow> tm_min a = tm_min b \<Longrightarrow> tm_hour a = tm_hour b \<Longrightarrow> tm_mday a = tm_mday b \<Longrightarrow> tm_mon a = tm_mon b
     \<Longrightarrow> tm_year a = tm_year b \<Longrightarrow> nghttp2_timegm_without_yday n a = nghttp2_timegm_without_yday n b"
  by (simp only: nghttp2_timegm_without_yday_def)

section \<open>Names\<close>

lemma nat_less_7: "w < 7 \<Longrightarrow> (w :: nat) \<in> {0, 1, 2, 3, 4, 5, 6}"
  by (simp add: less_Suc_eq numeral_eq_Suc)

lemma strip_ci_Cons:
  "strip_ci [] s = Some s" "strip_ci (a # name) [] = None"
  "strip_ci (a # name) (c # s) = (if ascii_lower c = ascii_lower a then strip_ci name s else None)"
  by (simp_all add: strip_ci_def)

lemma get_day:
  "w < 7 \<Longrightarrow> get_name 0 (zip full_days DAY_OF_WEEK) (DAY_OF_WEEK ! w @ CHR '','' # r) = Some (w, CHR '','' # r)"
  by (drule nat_less_7) (auto simp: full_days_def DAY_OF_WEEK_def strip_ci_Cons ascii_lower_def)

lemma get_month:
  "m < 12 \<Longrightarrow> get_name 0 (zip full_months MONTH) (MONTH ! m @ CHR '' '' # r) = Some (m, CHR '' '' # r)"
  by (drule nat_less_12) (auto simp: full_months_def MONTH_def strip_ci_Cons ascii_lower_def)

section \<open>Reading what was written\<close>

lemma day_digit_name: "length (DAY_OF_WEEK ! w) = 3" if "w < 7"
  using nat_less_7 [OF that] by (auto simp: DAY_OF_WEEK_def)

lemma length_MONTH: "m < 12 \<Longrightarrow> length (MONTH ! m) = 3"
  by (drule nat_less_12) (auto simp: MONTH_def)

lemma is_space_blank [simp]: "is_space_char CHR '' ''"
  by (simp add: is_space_char_def)

lemma drop_space_digits: "0 < len \<Longrightarrow> dropWhile is_space_char (digits n len @ r) = digits n len @ r"
proof (cases "digits n len")
  case (Cons c cs)
  have "\<forall>c \<in> set (digits n len). \<not> is_space_char c"
    by (induction len arbitrary: n) (auto simp: digit_not_space)
  then show ?thesis using Cons by simp
qed (cases len; simp)

lemma drop_space_month: "m < 12 \<Longrightarrow> dropWhile is_space_char (MONTH ! m @ r) = MONTH ! m @ r"
  by (drule nat_less_12) (auto simp: MONTH_def is_space_char_def)

lemma strptime_date:
  assumes "w < 7" "1 \<le> d" "d \<le> 31" "m < 12" "y < 10000" "h < 24" "mi < 60" "s < 60"
  shows "strptime_imf (DAY_OF_WEEK ! w @ '', '' @ digits d 2 @ '' '' @ MONTH ! m @ '' '' @ digits y 4 @ '' '' @ digits h 2 @ '':''
      @ digits mi 2 @ '':'' @ digits s 2 @ '' GMT'')
    = Some \<lparr>tm_sec = int s, tm_min = int mi, tm_hour = int h, tm_mday = int d, tm_mon = int m, tm_year = int y - 1900,
        tm_wday = int w, tm_yday = 0\<rparr>"
  using assms
  by (simp add: strptime_imf_def get_day get_month get_text_def drop_space_digits drop_space_month get_number_two get_number_four
      is_space_char_def)

lemma http_date_fields:
  assumes "t < 253402300800"
  obtains w d m y h mi s where "w < 7" "1 \<le> d" "d \<le> 31" "m < 12" "y < 10000" "h < 24" "mi < 60" "s < 60"
    and "util_http_date t = DAY_OF_WEEK ! w @ '', '' @ digits d 2 @ '' '' @ MONTH ! m @ '' '' @ digits y 4 @ '' '' @ digits h 2 @ '':''
      @ digits mi 2 @ '':'' @ digits s 2 @ '' GMT''"
    and "gmtime t = \<lparr>tm_sec = int s, tm_min = int mi, tm_hour = int h, tm_mday = int d, tm_mon = int m, tm_year = int y - 1900,
        tm_wday = int w, tm_yday = tm_yday (gmtime t)\<rparr>"
proof -
  let ?g = "gmtime t"
  obtain m where m: "tm_mon ?g = int m" "m < 12" "1 \<le> tm_mday ?g" "tm_mday ?g \<le> 31"
    by (rule gmtime_fields [of t])
  note r = gmtime_ranges [of t] gmtime_year [OF assms]
  show thesis
  proof (rule that)
    show "util_http_date t = DAY_OF_WEEK ! nat (tm_wday ?g) @ '', '' @ digits (nat (tm_mday ?g)) 2 @ '' '' @ MONTH ! nat (tm_mon ?g)
        @ '' '' @ digits (nat (tm_year ?g + 1900)) 4 @ '' '' @ digits (nat (tm_hour ?g)) 2 @ '':''
        @ digits (nat (tm_min ?g)) 2 @ '':'' @ digits (nat (tm_sec ?g)) 2 @ '' GMT''"
      using r m by (simp add: util_http_date_def gmtime_r_def cpydig_int del: of_int_add)
  qed (use r m in auto)
qed

lemma parse_date_written:
  assumes "t < 253402300800"
  shows "length (util_http_date t) = 29" and "parse_http_date (util_http_date t) = Inr (int t)"
proof -
  obtain w d m y h mi s where r: "w < 7" "1 \<le> d" "d \<le> 31" "m < 12" "y < 10000" "h < 24" "mi < 60" "s < 60"
    and u: "util_http_date t = DAY_OF_WEEK ! w @ '', '' @ digits d 2 @ '' '' @ MONTH ! m @ '' '' @ digits y 4 @ '' '' @ digits h 2 @ '':''
      @ digits mi 2 @ '':'' @ digits s 2 @ '' GMT''"
    and g: "gmtime t = \<lparr>tm_sec = int s, tm_min = int mi, tm_hour = int h, tm_mday = int d, tm_mon = int m, tm_year = int y - 1900,
        tm_wday = int w, tm_yday = tm_yday (gmtime t)\<rparr>"
    by (rule http_date_fields [OF assms])
  have "length (digits n len) = len" for n len by (induction len arbitrary: n) simp_all
  then show "length (util_http_date t) = 29" using r unfolding u by (simp add: day_digit_name length_MONTH)
  have "t < 86400 * (2 ^ 31 - 1)" using assms by simp
  from timegm_gmtime [OF this] have "nghttp2_timegm_without_yday 8 (gmtime t) = Inr (int t)" by blast
  moreover have "tm_sec (gmtime t) = int s" "tm_min (gmtime t) = int mi" "tm_hour (gmtime t) = int h" "tm_mday (gmtime t) = int d"
    "tm_mon (gmtime t) = int m" "tm_year (gmtime t) = int y - 1900"
    by (subst g, simp)+
  moreover from this obtain tm where tm: "strptime_imf (util_http_date t) = Some tm" "tm_sec tm = tm_sec (gmtime t)" "tm_min tm = tm_min (gmtime t)"
    "tm_hour tm = tm_hour (gmtime t)" "tm_mday tm = tm_mday (gmtime t)" "tm_mon tm = tm_mon (gmtime t)" "tm_year tm = tm_year (gmtime t)"
    unfolding u strptime_date [OF r] by simp
  ultimately show "parse_http_date (util_http_date t) = Inr (int t)"
    using timegm_without_yday_cong [OF tm(2-7), of 8] by (simp add: parse_http_date_def)
qed

text \<open>The buffers of 26 and 29 characters that the dates of logs are written to are long enough.\<close>

lemma log_dates_fit:
  assumes "\<And>tms off. local = Some (tms, off) \<Longrightarrow> 0 \<le> tm_mon tms \<and> tm_mon tms < 12"
  shows "length (common_log_date local) = 26" and "length (iso8601_date local ms) \<le> 29"
  using assms by (auto simp: common_log_date_def iso8601_date_def length_MONTH split: option.splits)

section \<open>Properties\<close>

text \<open>The dates a protocol handler gives to the responses it sends at the times \<open>ts\<close>, from what it has cached on.\<close>

fun handler_dates :: "int list \<Rightarrow> int \<times> string \<Rightarrow> string list" where
  "handler_dates [] cache = []"
| "handler_dates (t # ts) cache =
     (let (d, cache') = http_date (\<lambda>t. util_http_date (nat t)) t cache in d # handler_dates ts cache')"

text \<open>C7. The date of a response is the time it is sent. Whatever the times at which a handler made at time \<open>t0\<close> asks for the
  date (up to the year 9999, and even if the clock goes back), each date it gives has 29 characters, and
  \<^verbatim>\<open>parse_http_date\<close> reads from it exactly that time: caching the text for a second never gives an outdated date.\<close>

theorem response_date_is_now:
  assumes "\<forall>t \<in> set (t0 # ts). 0 \<le> t \<and> t < 253402300800"
  shows "map parse_http_date (handler_dates ts (t0, util_http_date (nat t0))) = map Inr ts
    \<and> (\<forall>d \<in> set (handler_dates ts (t0, util_http_date (nat t0))). length d = 29)"
  using assms
proof (induction ts arbitrary: t0)
  case (Cons t ts)
  then have t: "0 \<le> t" "nat t < 253402300800" by auto
  have "http_date (\<lambda>t. util_http_date (nat t)) t (t0, util_http_date (nat t0)) = (util_http_date (nat t), t, util_http_date (nat t))"
    by (simp add: http_date_def)
  then show ?case using Cons.IH [of t] Cons.prems parse_date_written [OF t(2)] t(1) by simp
qed simp

theorem response_date_is_now_witness:
  "map parse_http_date (handler_dates [784111777, 784111777, 784111778] (0, ''Thu, 01 Jan 1970 00:00:00 GMT''))
    = [Inr 784111777, Inr 784111777, Inr 784111778]"
proof -
  have "gmtime (nat 0) = \<lparr>tm_sec = 0, tm_min = 0, tm_hour = 0, tm_mday = 1, tm_mon = 0, tm_year = 70, tm_wday = 4, tm_yday = 0\<rparr>"
    by (simp add: gmtime_def split_year.simps month_lengths_def)
  moreover have "cpydig 1 2 = ''01''" "cpydig 0 2 = ''00''" "cpydig 1970 4 = ''1970''" by code_simp+
  ultimately have "util_http_date (nat 0) = ''Thu, 01 Jan 1970 00:00:00 GMT''"
    by (simp add: util_http_date_def gmtime_r_def DAY_OF_WEEK_def MONTH_def)
  then show ?thesis using response_date_is_now [of 0 "[784111777, 784111777, 784111778]"] by simp
qed

end
