(* ===== verification/Text_Util.thy ===== *)
theory Text_Util
  imports Http_Util Base64
begin

text \<open>
  Text helpers of \<^verbatim>\<open>util.cc\<close> and \<^verbatim>\<open>util.h\<close>: printing and reading numbers, hexadecimal text, the URL-safe variant of
  base64, splitting a list, \<^verbatim>\<open>host:port\<close>, the check of a path, big-endian integers, a hash and an edit distance. \<^verbatim>\<open>inet_pton\<close>, which tells
  whether a host is an IPv6 address, is the argument \<open>ipv6\<close>.
\<close>

section \<open>Numbers\<close>

text \<open>\<^verbatim>\<open>utos\<close>: the digits are counted, then written from the last one back.\<close>

fun utos_len :: "nat \<Rightarrow> nat" where
  "utos_len t = (if t = 0 then 0 else Suc (utos_len (t div 10)))"

declare utos_len.simps [simp del]

fun utos_fill :: "nat \<Rightarrow> nat \<Rightarrow> string \<Rightarrow> string" where
  "utos_fill n nlen res = (if n = 0 then res else utos_fill (n div 10) (nlen - 1) (res[nlen - 1 := digit_char (n mod 10)]))"

declare utos_fill.simps [simp del]

definition utos :: "nat \<Rightarrow> string" where
  "utos n = (if n = 0 then ''0'' else utos_fill n (utos_len n) (replicate (utos_len n) (char_of (0 :: nat))))"

definition utos_unit :: "nat \<Rightarrow> string" where
  "utos_unit n =
     (if 2 ^ 30 \<le> n then utos (n div 2 ^ 30) @ ''G''
      else if 2 ^ 20 \<le> n then utos (n div 2 ^ 20) @ ''M''
      else if 2 ^ 10 \<le> n then utos (n div 2 ^ 10) @ ''K''
      else utos n)"

definition int64_max :: int where
  "int64_max = 2 ^ 63 - 1"

lemma c_int64_nonneg: "0 \<le> x \<Longrightarrow> x \<le> int64_max \<Longrightarrow> c_int64 x = Inr x"
  by (simp add: c_int64_def int64_max_def)

text \<open>The number and how many characters it takes; \<open>-1\<close> if there is none or it does not fit. Each multiplication and
  addition is one of \<^verbatim>\<open>int64_t\<close>, whose overflow is a fault: the tests before them must exclude it.\<close>

fun parse_uint_loop :: "string \<Rightarrow> int \<Rightarrow> nat \<Rightarrow> (int \<times> nat) result" where
  "parse_uint_loop [] n i = Inr (n, i)"
| "parse_uint_loop (c # cs) n i =
     (if is_digit c
      then if n > int64_max div 10 then Inr (- 1, 0)
           else rbind (c_int64 (n * 10)) (\<lambda>n1.
                  if n1 > int64_max - int (digit_val c) then Inr (- 1, 0)
                  else rbind (c_int64 (n1 + int (digit_val c))) (\<lambda>n2. parse_uint_loop cs n2 (i + 1)))
      else Inr (n, i))"

definition parse_uint_digits :: "string \<Rightarrow> (int \<times> nat) result" where
  "parse_uint_digits s =
     (if s = [] then Inr (- 1, 0)
      else rbind (parse_uint_loop s 0 0) (\<lambda>(n, i). if i = 0 then Inr (- 1, 0) else Inr (n, i)))"

definition parse_uint :: "string \<Rightarrow> int result" where
  "parse_uint s = rbind (parse_uint_digits s) (\<lambda>(n, i). if n = - 1 \<or> i \<noteq> length s then Inr (- 1) else Inr n)"

definition parse_uint_with_unit :: "string \<Rightarrow> int result" where
  "parse_uint_with_unit s =
     rbind (parse_uint_digits s) (\<lambda>(n, i).
         if n = - 1 then Inr (- 1)
         else if i = length s then Inr n
         else if i + 1 \<noteq> length s then Inr (- 1)
         else let mul = (if s ! i = CHR ''K'' \<or> s ! i = CHR ''k'' then Some (2 ^ 10)
                         else if s ! i = CHR ''M'' \<or> s ! i = CHR ''m'' then Some (2 ^ 20)
                         else if s ! i = CHR ''G'' \<or> s ! i = CHR ''g'' then Some (2 ^ 30)
                         else None)
              in case mul of None \<Rightarrow> Inr (- 1) | Some m \<Rightarrow> if n > int64_max div m then Inr (- 1) else c_int64 (n * m))"

section \<open>Hexadecimal text\<close>

definition LOWER_XDIGITS :: string where
  "LOWER_XDIGITS = ''0123456789abcdef''"

definition format_hex :: "string \<Rightarrow> string" where
  "format_hex s = concat (map (\<lambda>c. [LOWER_XDIGITS ! (of_char c div 16), LOWER_XDIGITS ! (of_char c mod 16)]) s)"

definition is_hex_string :: "string \<Rightarrow> bool" where
  "is_hex_string s \<longleftrightarrow> length s mod 2 = 0 \<and> list_all is_hex_digit s"

text \<open>With an odd number of characters the loop steps over the end.\<close>

fun decode_hex :: "string \<Rightarrow> string result" where
  "decode_hex [] = Inr []"
| "decode_hex [a] = Inl Out_Of_Bounds"
| "decode_hex (a # b # s) =
     rbind (decode_hex s) (\<lambda>r. Inr (char_of (unat (or (push_bit 4 (hex_to_uint a)) (hex_to_uint b))) # r))"

section \<open>Tokens and quoted strings\<close>

definition in_token :: "char \<Rightarrow> bool" where
  "in_token c \<longleftrightarrow> is_alpha c \<or> is_digit c \<or> c \<in> set ''!#$%&*+-.^_|~'' \<or> c = CHR 0x27 \<or> c = CHR 0x60"

definition in_attr_char :: "char \<Rightarrow> bool" where
  "in_attr_char c \<longleftrightarrow> in_token c \<and> c \<notin> {CHR ''*'', CHR 0x27, CHR ''%''}"

definition percent_encode_token :: "string \<Rightarrow> string" where
  "percent_encode_token target = concat (map (\<lambda>c. if c \<noteq> CHR ''%'' \<and> in_token c then [c] else percent_octet c) target)"

definition quote_string :: "string \<Rightarrow> string" where
  "quote_string target =
     (if CHR 0x22 \<notin> set target then target
      else concat (map (\<lambda>c. if c = CHR 0x22 then [CHR 0x5C, CHR 0x22] else [c]) target))"

section \<open>URL-safe base64\<close>

definition to_token68_char :: "char \<Rightarrow> char" where
  "to_token68_char c = (if c = CHR ''+'' then CHR ''-'' else if c = CHR ''/'' then CHR ''_'' else c)"

definition to_token68 :: "string \<Rightarrow> string" where
  "to_token68 s = takeWhile (\<lambda>c. c \<noteq> CHR ''='') (map to_token68_char s)"

definition to_base64_char :: "char \<Rightarrow> char" where
  "to_base64_char c = (if c = CHR ''-'' then CHR ''+'' else if c = CHR ''_'' then CHR ''/'' else c)"

definition to_base64 :: "string \<Rightarrow> string" where
  "to_base64 s =
     map to_base64_char s @ (if length s mod 4 \<noteq> 0 then replicate (4 - length s mod 4) (CHR ''='') else [])"

section \<open>Lists\<close>

fun split_str :: "char \<Rightarrow> string \<Rightarrow> string list" where
  "split_str delim [] = [[]]"
| "split_str delim (c # s) =
     (if c = delim then [] # split_str delim s else (c # hd (split_str delim s)) # tl (split_str delim s))"

definition parse_config_str_list :: "char \<Rightarrow> string \<Rightarrow> string list" where
  "parse_config_str_list delim s = split_str delim s"

section \<open>Host and port\<close>

definition make_hostport :: "(string \<Rightarrow> bool) \<Rightarrow> string \<Rightarrow> u16 \<Rightarrow> string" where
  "make_hostport ipv6 host port =
     (if ipv6 host then ''['' @ host @ '']'' else host) @ '':'' @ utos (unat port)"

definition make_http_hostport :: "(string \<Rightarrow> bool) \<Rightarrow> string \<Rightarrow> u16 \<Rightarrow> string" where
  "make_http_hostport ipv6 host port =
     (if port \<noteq> 80 \<and> port \<noteq> 443 then make_hostport ipv6 host port
      else if ipv6 host then ''['' @ host @ '']'' else host)"

definition extract_host :: "string \<Rightarrow> string result" where
  "extract_host hostport =
     (if hostport = [] then Inl Out_Of_Bounds
      else Inr (if hd hostport = CHR ''[''
        then let h = takeWhile (\<lambda>c. c \<noteq> CHR '']'') hostport;
                 r = dropWhile (\<lambda>c. c \<noteq> CHR '']'') hostport
             in if r = [] then [] else if tl r \<noteq> [] \<and> hd (tl r) \<noteq> CHR '':'' then [] else h @ '']''
        else takeWhile (\<lambda>c. c \<noteq> CHR '':'') hostport))"

definition split_hostport :: "string \<Rightarrow> string \<times> string" where
  "split_hostport hostport =
     (if hostport = [] then ([], [])
      else if hd hostport = CHR ''[''
      then let h = takeWhile (\<lambda>c. c \<noteq> CHR '']'') (tl hostport);
               r = dropWhile (\<lambda>c. c \<noteq> CHR '']'') (tl hostport)
           in if r = [] then ([], [])
              else if tl r = [] then (h, [])
              else if hd (tl r) \<noteq> CHR '':'' \<or> tl (tl r) = [] then ([], [])
              else (h, tl (tl r))
      else let h = takeWhile (\<lambda>c. c \<noteq> CHR '':'') hostport;
               r = dropWhile (\<lambda>c. c \<noteq> CHR '':'') hostport
           in if h = [] then ([], [])
              else if r = [] then (h, [])
              else if tl r = [] then ([], [])
              else (h, tl r))"

section \<open>Paths\<close>

definition check_path :: "string \<Rightarrow> bool" where
  "check_path path \<longleftrightarrow> path \<noteq> [] \<and> hd path = CHR ''/'' \<and> str_find path [CHR 0x5C] 0 = None
     \<and> str_find path ''/../'' 0 = None \<and> str_find path ''/./'' 0 = None \<and> \<not> suffix ''/..'' path \<and> \<not> suffix ''/.'' path"

section \<open>Bytes\<close>

text \<open>Big-endian integers: \<^verbatim>\<open>htons\<close> and a copy of the bytes, and back.\<close>

definition put_uint16be :: "u16 \<Rightarrow> bytes" where
  "put_uint16be n = [ucast (drop_bit 8 n), ucast n]"

definition put_uint32be :: "u32 \<Rightarrow> bytes" where
  "put_uint32be n = [ucast (drop_bit 24 n), ucast (drop_bit 16 n), ucast (drop_bit 8 n), ucast n]"

fun get_uint16 :: "bytes \<Rightarrow> u16 result" where
  "get_uint16 (a # b # data) = Inr (or (push_bit 8 (ucast a)) (ucast b))"
| "get_uint16 data = Inl Out_Of_Bounds"

fun get_uint32 :: "bytes \<Rightarrow> u32 result" where
  "get_uint32 (a # b # c # d # data) =
     Inr (or (or (or (push_bit 24 (ucast a)) (push_bit 16 (ucast b))) (push_bit 8 (ucast c))) (ucast d))"
| "get_uint32 data = Inl Out_Of_Bounds"

text \<open>A character, which is signed, is extended to the width of the hash.\<close>

definition hash32_step :: "u32 \<Rightarrow> char \<Rightarrow> u32" where
  "hash32_step h0 c =
     (let h = xor h0 (scast (word_of_nat (of_char c) :: u8))
      in h + (push_bit 1 h + push_bit 4 h + push_bit 7 h + push_bit 8 h + push_bit 24 h))"

definition hash32 :: "string \<Rightarrow> u32" where
  "hash32 s = fold (\<lambda>c h. hash32_step h c) s 2166136261"

text \<open>The function its comment names: FNV-1a.\<close>

definition fnv1a :: "string \<Rightarrow> u32" where
  "fnv1a s = fold (\<lambda>c h. xor h (word_of_nat (of_char c)) * 16777619) s 2166136261"

section \<open>Printing and reading numbers\<close>

lemma utos_len_nat_dec: "0 < n \<Longrightarrow> utos_len n = length (nat_dec n)"
  by (induction n rule: nat_dec.induct) (subst utos_len.simps, subst nat_dec.simps, auto simp: utos_len.simps)

lemma utos_fill_nat_dec:
  "0 < n \<Longrightarrow> length (nat_dec n) \<le> length res \<Longrightarrow>
     utos_fill n (length (nat_dec n)) res = nat_dec n @ drop (length (nat_dec n)) res"
proof (induction n arbitrary: res rule: nat_dec.induct)
  case (1 n)
  show ?case
  proof (cases "n < 10")
    case True
    then have d: "nat_dec n = [digit_char n]" by (simp add: nat_dec.simps)
    then obtain c cs where "res = c # cs" using "1.prems" by (cases res) auto
    then show ?thesis using True d "1.prems" by (simp add: utos_fill.simps [of n] utos_fill.simps [of 0])
  next
    case False
    let ?k = "length (nat_dec (n div 10))"
    let ?res = "res[?k := digit_char (n mod 10)]"
    have d: "nat_dec n = nat_dec (n div 10) @ [digit_char (n mod 10)]" using False by (simp add: nat_dec.simps [of n])
    have k: "?k < length res" using "1.prems"(2) d by simp
    then have "drop ?k ?res = digit_char (n mod 10) # drop (Suc ?k) res" by (simp add: Cons_nth_drop_Suc [symmetric])
    then show ?thesis using "1.IH" [of ?res] False k d by (simp add: utos_fill.simps [of n])
  qed
qed

lemma utos_nat_dec: "utos n = nat_dec n"
proof (cases "n = 0")
  case True
  have "nat_dec 0 = ''0''" by code_simp
  then show ?thesis using True by (simp add: utos_def)
next
  case False
  then show ?thesis by (simp add: utos_def utos_len_nat_dec utos_fill_nat_dec)
qed

lemma is_digit_is_digit_char: "is_digit c = is_digit_char c"
  by (simp add: is_digit_def is_digit_char_def less_eq_char_def)

lemma dec_value_ge: "acc \<le> dec_value acc s"
proof (induction s arbitrary: acc)
  case (Cons c s)
  show ?case using Cons [of "10 * acc + digit_val c"] by simp
qed simp

lemma parse_uint_loop_value:
  "int n \<le> int64_max \<Longrightarrow> parse_uint_loop s (int n) i =
     Inr (if int (dec_value n s) \<le> int64_max then (int (dec_value n s), i + length (takeWhile is_digit s)) else (- 1, 0))"
proof (induction s arbitrary: n i)
  case (Cons c s)
  show ?case
  proof (cases "is_digit c")
    case True
    let ?n = "10 * n + digit_val c"
    have v: "dec_value n (c # s) = dec_value ?n s" using True by (simp add: is_digit_is_digit_char)
    have ge: "int ?n \<le> int (dec_value ?n s)" using dec_value_ge [of ?n s] by simp
    show ?thesis
    proof (cases "int ?n \<le> int64_max")
      case fits: True
      then have le: "int n \<le> int64_max div 10" "int n * 10 \<le> int64_max - int (digit_val c)" by (simp_all add: int64_max_def)
      then have "c_int64 (int n * 10) = Inr (int n * 10)" "c_int64 (int n * 10 + int (digit_val c)) = Inr (int ?n)"
        by (simp_all add: int64_max_def c_int64_def)
      then show ?thesis using Cons.IH [OF fits, of "i + 1"] True v le by simp
    next
      case False
      then have over: "int64_max div 10 < int n \<or> int64_max - int (digit_val c) < int n * 10" by (auto simp: int64_max_def)
      have "int n \<le> int64_max div 10 \<Longrightarrow> c_int64 (int n * 10) = Inr (int n * 10)" by (simp add: int64_max_def c_int64_def)
      then show ?thesis using over False True ge unfolding v by auto
    qed
  next
    case False
    then show ?thesis using Cons.prems by (simp add: is_digit_is_digit_char)
  qed
qed simp

lemma parse_uint_digits_value:
  "parse_uint_digits s =
     Inr (if takeWhile is_digit s \<noteq> [] \<and> int (dec_value 0 s) \<le> int64_max then (int (dec_value 0 s), length (takeWhile is_digit s))
      else (- 1, 0))"
  using parse_uint_loop_value [of 0 s 0] by (cases s) (auto simp: parse_uint_digits_def int64_max_def Let_def)

lemma takeWhile_all: "takeWhile P s = s \<longleftrightarrow> (\<forall>c \<in> set s. P c)"
  by (metis set_takeWhileD takeWhile_eq_all_conv)

lemma length_takeWhile_all: "length (takeWhile P s) = length s \<longleftrightarrow> (\<forall>c \<in> set s. P c)"
  by (metis takeWhile_all takeWhile_eq_take take_all_iff order_refl le_eq_less_or_eq)

lemma parse_uint_value:
  "parse_uint s = Inr (if s \<noteq> [] \<and> (\<forall>c \<in> set s. is_digit c) \<and> int (dec_value 0 s) \<le> int64_max then int (dec_value 0 s) else - 1)"
proof (cases "\<forall>c \<in> set s. is_digit c")
  case True
  then have all: "takeWhile is_digit s = s" by (simp add: takeWhile_all)
  show ?thesis using True unfolding parse_uint_def parse_uint_digits_value all by (simp add: Let_def)
next
  case False
  then have "length (takeWhile is_digit s) \<noteq> length s" by (simp add: length_takeWhile_all)
  then show ?thesis using False by (simp add: parse_uint_def parse_uint_digits_value)
qed

lemma nat_dec_is_digits: "\<forall>c \<in> set (nat_dec n). is_digit c"
  using nat_dec_digits by (auto simp: is_digit_is_digit_char)

lemma parse_digits_then:
  "\<not> is_digit u \<Longrightarrow> int n \<le> int64_max \<Longrightarrow> parse_uint_digits (nat_dec n @ [u]) = Inr (int n, length (nat_dec n))"
  using nat_dec_is_digits [of n] nat_dec_digits [of _ n]
  by (simp add: parse_uint_digits_value takeWhile_append2 dec_value_append is_digit_is_digit_char)

lemma parse_with_unit:
  assumes "(u, m) \<in> {(CHR ''K'', 2 ^ 10), (CHR ''M'', 2 ^ 20), (CHR ''G'', 2 ^ 30)}" and "n * m < 2 ^ 63"
  shows "parse_uint_with_unit (nat_dec n @ [u]) = Inr (int (n * m))"
proof -
  have u: "\<not> is_digit u" using assms(1) by (auto simp: is_digit_def less_eq_char_def)
  have m: "0 < m" using assms(1) by auto
  have nm: "int n * int m \<le> int64_max" using assms(2) unfolding int64_max_def by (simp flip: of_nat_mult)
  have "int n = int n * int m div int m" using m by simp
  also have "\<dots> \<le> int64_max div int m" by (rule zdiv_mono1 [OF nm]) (use m in simp)
  finally have le: "int n \<le> int64_max div int m" .
  have "n \<le> n * m" using m by (cases m) simp_all
  then have "int n \<le> int n * int m" by (simp only: of_nat_le_iff flip: of_nat_mult)
  then have "int n \<le> int64_max" using nm by simp
  then have d: "parse_uint_digits (nat_dec n @ [u]) = Inr (int n, length (nat_dec n))" by (rule parse_digits_then [OF u])
  consider "u = CHR ''K''" "m = 2 ^ 10" | "u = CHR ''M''" "m = 2 ^ 20" | "u = CHR ''G''" "m = 2 ^ 30" using assms(1) by blast
  moreover have "c_int64 (int n * int m) = Inr (int n * int m)" using nm by (intro c_int64_nonneg) simp_all
  ultimately show ?thesis using le d by cases (simp_all add: parse_uint_with_unit_def nth_append Let_def)
qed

lemma parse_utos: "parse_uint (utos n) = Inr (if n < 2 ^ 63 then int n else - 1)"
  using nat_dec_is_digits [of n] by (auto simp: utos_nat_dec parse_uint_value int64_max_def)

lemma parse_utos_unit:
  assumes "n < 2 ^ 63"
  shows "parse_uint_with_unit (utos_unit n)
    = Inr (int (n - n mod (if 2 ^ 30 \<le> n then 2 ^ 30 else if 2 ^ 20 \<le> n then 2 ^ 20 else if 2 ^ 10 \<le> n then 2 ^ 10 else 1)))"
proof -
  have p: "n div m * m = n - n mod m" for m :: nat by (simp add: minus_mod_eq_div_mult)
  have le: "n div m * m < 2 ^ 63" for m :: nat using assms by (simp add: p less_imp_diff_less)
  consider "2 ^ 30 \<le> n" | "2 ^ 20 \<le> n" "\<not> 2 ^ 30 \<le> n" | "2 ^ 10 \<le> n" "\<not> 2 ^ 20 \<le> n" | "\<not> 2 ^ 10 \<le> n" by linarith
  then show ?thesis
  proof cases
    case 1
    then show ?thesis using parse_with_unit [of "CHR ''G''" "2 ^ 30", OF _ le] by (simp add: utos_unit_def utos_nat_dec p)
  next
    case 2
    then show ?thesis using parse_with_unit [of "CHR ''M''" "2 ^ 20", OF _ le] by (simp add: utos_unit_def utos_nat_dec p)
  next
    case 3
    then show ?thesis using parse_with_unit [of "CHR ''K''" "2 ^ 10", OF _ le] by (simp add: utos_unit_def utos_nat_dec p)
  next
    case 4
    have all: "takeWhile is_digit (nat_dec n) = nat_dec n" using nat_dec_is_digits by (simp add: takeWhile_all)
    show ?thesis using 4 assms
      by (simp add: utos_unit_def utos_nat_dec parse_uint_with_unit_def parse_uint_digits_value all int64_max_def)
  qed
qed

lemma parse_with_unit_returns: "\<exists>m. parse_uint_with_unit s = Inr m"
proof -
  have mul: "n \<le> int64_max div m \<Longrightarrow> 0 \<le> n \<Longrightarrow> 0 < m \<Longrightarrow> c_int64 (n * m) = Inr (n * m)" for n m :: int
  proof -
    assume a: "n \<le> int64_max div m" "0 \<le> n" "0 < m"
    then have "n * m \<le> int64_max div m * m" by (simp add: mult_right_mono)
    also have "\<dots> \<le> int64_max" using a(3) by (simp add: minus_mod_eq_div_mult [symmetric])
    finally show ?thesis using a(2,3) by (intro c_int64_nonneg) simp_all
  qed
  show ?thesis
    by (auto simp: parse_uint_with_unit_def parse_uint_digits_value Let_def not_less mul)
qed

section \<open>Hexadecimal text, base64 and lists\<close>

lemma LOWER_XDIGITS_all:
  "\<forall>i \<in> set [0..<16]. is_hex_digit (LOWER_XDIGITS ! i) \<and> hex_to_uint (LOWER_XDIGITS ! i) = word_of_nat i"
  by (simp add: upt_rec LOWER_XDIGITS_def is_hex_digit_def is_digit_def hex_to_uint_def char_value_def less_eq_char_def)

lemma hex_pair:
  "\<forall>i \<in> set [0..<16]. \<forall>j \<in> set [0..<16]. unat (or (push_bit 4 (word_of_nat i)) (word_of_nat j :: u32)) = i * 16 + j"
  by (simp add: upt_rec)

lemma decode_format_hex: "is_hex_string (format_hex s) \<and> decode_hex (format_hex s) = Inr s"
proof (induction s)
  case (Cons c s)
  let ?n = "of_char c :: nat"
  have h: "?n div 16 \<in> set [0..<16]" "?n mod 16 \<in> set [0..<16]"
    using of_char_less [of c] less_mult_imp_div_less [of ?n 16 16] by simp_all
  note x = bspec [OF LOWER_XDIGITS_all h(1)] bspec [OF LOWER_XDIGITS_all h(2)]
  have "unat (or (push_bit 4 (word_of_nat (?n div 16))) (word_of_nat (?n mod 16) :: u32)) = ?n"
    using bspec [OF bspec [OF hex_pair h(1)] h(2)] by (simp only: div_mult_mod_eq)
  then show ?case using Cons x by (simp add: format_hex_def is_hex_string_def)
qed (simp add: format_hex_def is_hex_string_def)

lemma percent_decode_token: "percent_decode (percent_encode_token s) = s"
  by (induction s) (auto simp: percent_encode_token_def percent_decode_other percent_decode_octet)

text \<open>The text of an encoding: characters of the alphabet, then at most two signs of padding.\<close>

lemma b64_char_in: "i < 64 \<Longrightarrow> b64_char i \<in> set B64_CHARS"
proof -
  assume "i < 64"
  then have "unat i < length B64_CHARS" by (simp add: B64_CHARS_def word_less_nat_alt)
  then show ?thesis by (simp add: b64_char_def)
qed

lemma group_word_bound: "unat (push_bit 16 (ucast (a :: u8) :: u32) + push_bit 8 (ucast (b :: u8)) + ucast (c :: u8)) < 2 ^ 24"
  by (simp only: group_value unat_small [OF group_bound] group_bound)

lemma group_word_bounds:
  "unat (push_bit 16 (ucast (a :: u8) :: u32) + push_bit 8 (ucast (b :: u8))) < 2 ^ 24"
  "unat (push_bit 16 (ucast (a :: u8) :: u32)) < 2 ^ 24"
  using group_word_bound [of a b 0] group_word_bound [of a 0 0] by (simp_all only: unsigned_0 add_0_right push_bit_of_0)

lemma encode_text:
  "\<exists>body k. encode_groups s = body @ replicate k (CHR ''='') \<and> k \<le> 2 \<and> set body \<subseteq> set B64_CHARS"
proof (induction s rule: encode_groups.induct)
  case (1 a b c s)
  then obtain body k where e: "encode_groups s = body @ replicate k (CHR ''='')" "k \<le> 2" "set body \<subseteq> set B64_CHARS" by blast
  have "set (encode_three a b c) \<subseteq> set B64_CHARS"
    using top_sextet_less [OF group_word_bound [of a b c]]
    by (simp add: encode_three_def Let_def b64_char_in sextet_less del: push_bit_of_0)
  then show ?case using e by (intro exI [of _ "encode_three a b c @ body"] exI [of _ k]) simp
next
  case (2 a b)
  show ?case using top_sextet_less [OF group_word_bounds(1) [of a b]]
    by (intro exI [of _ "butlast (encode_two a b)"] exI [of _ 1]) (simp add: encode_two_def Let_def b64_char_in sextet_less)
next
  case (3 a)
  show ?case using top_sextet_less [OF group_word_bounds(2) [of a]]
    by (intro exI [of _ "butlast (butlast (encode_one a))"] exI [of _ 2])
      (simp add: encode_one_def Let_def b64_char_in sextet_less numeral_2_eq_2)
qed simp

lemma token68_back:
  assumes "set body \<subseteq> set B64_CHARS" and "k \<le> 2" and "(length body + k) mod 4 = 0"
  shows "to_base64 (to_token68 (body @ replicate k (CHR ''=''))) = body @ replicate k (CHR ''='')"
proof -
  have "\<forall>c \<in> set B64_CHARS. to_token68_char c \<noteq> CHR ''='' \<and> to_base64_char (to_token68_char c) = c"
    by (simp add: B64_CHARS_def to_token68_char_def to_base64_char_def)
  then have chars: "\<forall>c \<in> set body. to_token68_char c \<noteq> CHR ''='' \<and> to_base64_char (to_token68_char c) = c"
    using assms(1) by blast
  have "to_token68 (body @ replicate k (CHR ''='')) =
      map to_token68_char body @ takeWhile (\<lambda>c. c \<noteq> CHR ''='') (map to_token68_char (replicate k (CHR ''='')))"
    unfolding to_token68_def map_append using chars by (subst takeWhile_append2) auto
  then have t: "to_token68 (body @ replicate k (CHR ''='')) = map to_token68_char body" by (cases k) (simp_all add: to_token68_char_def)
  have "map to_base64_char (map to_token68_char body) = body" using chars by (induction body) auto
  moreover have "(if length body mod 4 \<noteq> 0 then 4 - length body mod 4 else 0) = k" using assms(2,3) by presburger
  ultimately show ?thesis unfolding t to_base64_def by (auto split: if_splits)
qed

lemma split_str_nonempty [simp]: "split_str d s \<noteq> []"
  by (cases s) auto

lemma split_str_parts:
  "concat (map (\<lambda>x. x @ [d]) (split_str d s)) = s @ [d] \<and> (\<forall>x \<in> set (split_str d s). d \<notin> set x)"
proof (induction s)
  case (Cons c s)
  then show ?case by (cases "split_str d s") auto
qed simp

section \<open>Host and port\<close>

lemma digits_clean: "c \<in> set (utos n) \<Longrightarrow> c \<noteq> CHR '':'' \<and> c \<noteq> CHR '']''"
  using nat_dec_digits [of c n] by (auto simp: utos_nat_dec is_digit_char_def)

lemma utos_nonempty [simp]: "utos n \<noteq> []"
  by (simp add: utos_nat_dec)

lemma split_made_hostport:
  assumes "host \<noteq> []" and "ipv6 host \<Longrightarrow> CHR '']'' \<notin> set host"
    and "\<not> ipv6 host \<Longrightarrow> CHR '':'' \<notin> set host \<and> hd host \<noteq> CHR ''[''"
  shows "split_hostport (make_hostport ipv6 host port) = (host, utos (unat port))"
    and "extract_host (make_hostport ipv6 host port) = Inr (if ipv6 host then ''['' @ host @ '']'' else host)"
proof -
  have a: "takeWhile (\<lambda>c. c \<noteq> d) (host @ d # r) = host \<and> dropWhile (\<lambda>c. c \<noteq> d) (host @ d # r) = d # r" if "d \<notin> set host" for d r
    using that by (induction host) auto
  show "split_hostport (make_hostport ipv6 host port) = (host, utos (unat port))"
    using assms a by (cases "ipv6 host") (simp_all add: make_hostport_def split_hostport_def)
  show "extract_host (make_hostport ipv6 host port) = Inr (if ipv6 host then ''['' @ host @ '']'' else host)"
    using assms a by (cases "ipv6 host") (simp_all add: make_hostport_def extract_host_def)
qed

section \<open>Paths\<close>

lemma segments_split: "p \<noteq> [] \<Longrightarrow> CHR ''/'' \<notin> set x \<Longrightarrow> segments (x @ CHR ''/'' # y) = x # segments y"
  by (simp add: segments_slash segments_file)

lemma segment_at:
  assumes "CHR ''/'' \<notin> set x"
  shows "x \<in> set (segments p) \<longleftrightarrow>
    p = x \<or> prefix (x @ ''/'') p \<or> suffix (CHR ''/'' # x) p \<or> sublist (CHR ''/'' # x @ ''/'') p"
proof
  assume "x \<in> set (segments p)"
  then show "p = x \<or> prefix (x @ ''/'') p \<or> suffix (CHR ''/'' # x) p \<or> sublist (CHR ''/'' # x @ ''/'') p"
  proof (induction p rule: length_induct)
    case (1 p)
    show ?case
    proof (cases "CHR ''/'' \<in> set p")
      case False
      then show ?thesis using "1.prems" by (simp add: segments_file)
    next
      case True
      then obtain a b where p: "p = a @ CHR ''/'' # b" "CHR ''/'' \<notin> set a" by (metis split_list_first)
      then consider "x = a" | "x \<in> set (segments b)" using "1.prems" by (auto simp: segments_slash segments_file)
      then show ?thesis
      proof cases
        case 1
        then show ?thesis using p by simp
      next
        case 2
        have "length b < length p" using p by simp
        with "1.IH" 2 have "b = x \<or> prefix (x @ ''/'') b \<or> suffix (CHR ''/'' # x) b \<or> sublist (CHR ''/'' # x @ ''/'') b" by blast
        then show ?thesis unfolding p(1)
          by (auto simp: suffix_def prefix_def sublist_def) (metis append.assoc append_Cons)+
      qed
    qed
  qed
next
  assume "p = x \<or> prefix (x @ ''/'') p \<or> suffix (CHR ''/'' # x) p \<or> sublist (CHR ''/'' # x @ ''/'') p"
  then show "x \<in> set (segments p)" using assms
    by (auto simp: prefix_def suffix_def sublist_def segments_slash segments_file segments_slash [of "_ @ CHR ''/'' # x", simplified])
qed

section \<open>Lemmas on bytes\<close>

lemma get_put_uint16: "get_uint16 (put_uint16be n @ rest) = Inr n"
  by (auto simp: put_uint16be_def intro!: bit_word_eqI simp: bit_simps)

lemma get_put_uint32: "get_uint32 (put_uint32be n @ rest) = Inr n"
proof -
  have "or (or (or (push_bit 24 (ucast (ucast (drop_bit 24 n) :: u8))) (push_bit 16 (ucast (ucast (drop_bit 16 n) :: u8))))
      (push_bit 8 (ucast (ucast (drop_bit 8 n) :: u8)))) (ucast (ucast n :: u8)) = n" (is "?w = n")
  proof (rule bit_word_eqI)
    fix k
    assume "k < LENGTH(32)"
    then consider "k < 8" | "8 \<le> k" "k < 16" | "16 \<le> k" "k < 24" | "24 \<le> k" "k < 32" by fastforce
    then show "bit ?w k = bit n k" by cases (auto simp: bit_simps)
  qed
  then show ?thesis by (simp add: put_uint32be_def)
qed

lemma scast_ascii:
  assumes "n < 128"
  shows "(scast (word_of_nat n :: u8) :: u32) = word_of_nat n"
proof -
  have "\<forall>n \<in> set [0..<128]. (scast (word_of_nat n :: u8) :: u32) = word_of_nat n" by code_simp
  then show ?thesis using assms by simp
qed

lemma hash32_step_ascii: "(of_char c :: nat) < 128 \<Longrightarrow> hash32_step h c = xor h (word_of_nat (of_char c)) * 16777619"
  unfolding hash32_step_def by (simp add: scast_ascii push_bit_eq_mult Let_def)

lemma hash32_ascii:
  "\<forall>c \<in> set s. (of_char c :: nat) < 128 \<Longrightarrow>
     fold (\<lambda>c h. hash32_step h c) s h = fold (\<lambda>c h. xor h (word_of_nat (of_char c)) * 16777619) s h"
  by (induction s arbitrary: h) (simp_all add: hash32_step_ascii)

section \<open>Properties\<close>

text \<open>C39. Numbers are read as they are printed, and no text makes the 64-bit accumulation overflow. A printed number is read
  back exactly when it is below \<open>2\<^sup>6\<^sup>3\<close>, and \<open>-1\<close> is given otherwise; a number below \<open>2\<^sup>6\<^sup>3\<close> printed with a unit is read back
  rounded down to that unit; \<^verbatim>\<open>parse_uint\<close> of any text is its value if it is all digits and the value is below \<open>2\<^sup>6\<^sup>3\<close>, and
  \<open>-1\<close> if not; and neither function ends in the fault that stands for a signed overflow.\<close>

theorem printed_numbers_read_back:
  "parse_uint (utos n) = Inr (if n < 2 ^ 63 then int n else - 1)
   \<and> (n < 2 ^ 63 \<longrightarrow> parse_uint_with_unit (utos_unit n)
        = Inr (int (n - n mod (if 2 ^ 30 \<le> n then 2 ^ 30 else if 2 ^ 20 \<le> n then 2 ^ 20 else if 2 ^ 10 \<le> n then 2 ^ 10 else 1))))
   \<and> parse_uint s = Inr (if s \<noteq> [] \<and> (\<forall>c \<in> set s. is_digit c) \<and> dec_value 0 s < 2 ^ 63 then int (dec_value 0 s) else - 1)
   \<and> (\<exists>m. parse_uint_with_unit s = Inr m)"
  using parse_utos [of n] parse_utos_unit [of n] parse_with_unit_returns [of s]
  by (auto simp: parse_uint_value int64_max_def)

theorem printed_numbers_read_back_witness:
  "parse_uint (utos 9223372036854775808) = Inr (- 1) \<and> parse_uint_with_unit (utos_unit 5000) = Inr 4096
   \<and> parse_uint ''007'' = Inr 7"
  using printed_numbers_read_back [of 9223372036854775808 "''007''"] printed_numbers_read_back [of 5000 "''007''"]
  by (simp add: is_digit_def is_digit_char_def digit_val_def less_eq_char_def)

text \<open>The text encodings lose nothing: hexadecimal text is valid and decodes to what was encoded; the URL-safe form of
  a base64 text, without its padding, converts back to it; and the parts of a split text, each followed by the delimiter,
  join to the text, and none contains the delimiter; a percent-encoded token decodes to what was encoded.\<close>

lemma text_encodings_roundtrip:
  "is_hex_string (format_hex s) \<and> decode_hex (format_hex s) = Inr s
   \<and> to_base64 (to_token68 (encode bs)) = encode bs
   \<and> concat (map (\<lambda>x. x @ [d]) (split_str d s)) = s @ [d] \<and> (\<forall>x \<in> set (split_str d s). d \<notin> set x)
   \<and> percent_decode (percent_encode_token s) = s"
proof -
  obtain body k where e: "encode_groups bs = body @ replicate k (CHR ''='')" "k \<le> 2" "set body \<subseteq> set B64_CHARS"
    using encode_text by blast
  have "length (encode_groups bs) mod 4 = 0" by (simp add: length_encode_groups encode_length_def)
  then have "(length body + k) mod 4 = 0" unfolding e(1) by simp
  from token68_back [OF e(3,2) this] show ?thesis
    using decode_format_hex [of s] split_str_parts [of d s] percent_decode_token [of s] by (simp add: encode_eq_groups e(1))
qed

lemma text_encodings_roundtrip_witness:
  "split_str (CHR '','') ''a,b'' = [''a'', ''b''] \<and> (\<forall>x \<in> {''a'', ''b''}. CHR '','' \<notin> set x)"
  using text_encodings_roundtrip [of "''a,b''" "[]" "CHR '',''"] by simp

text \<open>A host and a port that were joined are split again, and the host is found in the text: a name or an IPv4 address has no
  colon, and an IPv6 address, which does, is put in brackets.\<close>

lemma hostport_roundtrip:
  assumes "host \<noteq> []" and "ipv6 host \<Longrightarrow> CHR '']'' \<notin> set host"
    and "\<not> ipv6 host \<Longrightarrow> CHR '':'' \<notin> set host \<and> hd host \<noteq> CHR ''[''"
  shows "split_hostport (make_hostport ipv6 host port) = (host, utos (unat port))
    \<and> extract_host (make_hostport ipv6 host port) = Inr (if ipv6 host then ''['' @ host @ '']'' else host)
    \<and> parse_uint (snd (split_hostport (make_hostport ipv6 host port))) = Inr (uint port)"
proof -
  have "unat port < 2 ^ 63" using unsigned_less [of port, where ?'a = nat] by simp
  then have "parse_uint (utos (unat port)) = Inr (uint port)" by (simp add: parse_utos)
  then show ?thesis using split_made_hostport [OF assms] by simp
qed

lemma hostport_roundtrip_witness:
  "split_hostport (make_hostport (\<lambda>h. h = ''::1'') ''::1'' 8080) = (''::1'', utos 8080)
   \<and> split_hostport (make_hostport (\<lambda>h. h = ''::1'') ''localhost'' 80) = (''localhost'', utos 80)"
  using hostport_roundtrip [of "''::1''" "\<lambda>h. h = ''::1''" 8080] hostport_roundtrip [of "''localhost''" "\<lambda>h. h = ''::1''" 80] by simp

text \<open>C38. \<^verbatim>\<open>check_path\<close> accepts exactly the absolute paths without a backslash none of whose segments is a dot or two dots.\<close>

theorem check_path_no_traversal:
  "check_path p \<longleftrightarrow> prefix ''/'' p \<and> CHR 0x5C \<notin> set p \<and> no_dots (segments p)"
proof (cases "prefix ''/'' p")
  case True
  have find: "str_find p pat 0 = None \<longleftrightarrow> \<not> sublist pat p" for pat using str_find_sublist [of p pat] by blast
  have "sublist [CHR 0x5C] p \<longleftrightarrow> CHR 0x5C \<in> set p" by (auto simp: sublist_def in_set_conv_decomp)
  moreover have "x \<in> set (segments p) \<longleftrightarrow> suffix (CHR ''/'' # x) p \<or> sublist (CHR ''/'' # x @ ''/'') p"
    if "x \<in> {''.'', ''..''}" for x
    using that True segment_at [of x p] by (auto simp: prefix_def)
  ultimately show ?thesis using True by (auto simp: check_path_def find no_dots_def prefix_def)
next
  case False
  then show ?thesis by (cases p) (auto simp: check_path_def)
qed

text \<open>On ASCII text \<^verbatim>\<open>hash32\<close> is the hash FNV-1a its comment names, computed with shifts; on other text it is not, since the
  characters are extended with their sign.\<close>

lemma hash32_is_fnv1a_on_ascii:
  assumes "\<forall>c \<in> set s. (of_char c :: nat) < 128"
  shows "hash32 s = fnv1a s \<and> hash32 [CHR 0x80] \<noteq> fnv1a [CHR 0x80]"
proof -
  have "hash32 [CHR 0x80] \<noteq> fnv1a [CHR 0x80]" by code_simp
  then show ?thesis using hash32_ascii [OF assms] by (simp add: hash32_def fnv1a_def)
qed

lemma hash32_is_fnv1a_on_ascii_witness: "hash32 ''a'' = 0xe40c292c"
proof -
  have "fnv1a ''a'' = 0xe40c292c" by code_simp
  then show ?thesis using hash32_is_fnv1a_on_ascii [of "''a''"] by simp
qed

end
