(* ===== verification/Edit_Distance.thy ===== *)
theory Edit_Distance
  imports Maock_Prelude
begin

text \<open>
  The edit distance by which \<^verbatim>\<open>show_candidates\<close> of \<^verbatim>\<open>util.cc\<close> looks for options of a similar name: \<^verbatim>\<open>levenshtein\<close>, which keeps three
  rows of the table and rotates them, with its additions of \<^verbatim>\<open>int\<close> (an overflow is a fault); the table its loops fill; and the
  distance its comment describes, the least cost of an edit script.
\<close>

text \<open>The costs of a swap of two neighbours, of a substitution, an addition and a deletion.\<close>

record costs =
  swapcost :: int
  subcost :: int
  addcost :: int
  delcost :: int

section \<open>The rows\<close>

text \<open>An entry of the current row \<open>d0\<close>, from the two rows before it.\<close>

definition lev_cell :: "costs \<Rightarrow> string \<Rightarrow> string \<Rightarrow> nat \<Rightarrow> nat \<Rightarrow> int list \<Rightarrow> int list \<Rightarrow> int list \<Rightarrow> int result" where
  "lev_cell k a b i j d0 d1 d2 =
     rbind (c_int (d1 ! (j - 1) + (if a ! (i - 1) = b ! (j - 1) then 0 else subcost k))) (\<lambda>x.
     rbind (if 2 \<le> i \<and> 2 \<le> j \<and> a ! (i - 1) \<noteq> b ! (j - 1) \<and> a ! (i - 2) = b ! (j - 1) \<and> a ! (i - 1) = b ! (j - 2)
            then rbind (c_int (d2 ! (j - 2) + swapcost k)) (\<lambda>s. Inr (min x s)) else Inr x) (\<lambda>y.
     rbind (c_int (d1 ! j + delcost k)) (\<lambda>del.
     rbind (c_int (d0 ! (j - 1) + addcost k)) (\<lambda>add. Inr (min y (min del add))))))"

fun lev_row :: "costs \<Rightarrow> string \<Rightarrow> string \<Rightarrow> nat \<Rightarrow> nat list \<Rightarrow> int list \<Rightarrow> int list \<Rightarrow> int list \<Rightarrow> int list result" where
  "lev_row k a b i [] d0 d1 d2 = Inr d0"
| "lev_row k a b i (j # js) d0 d1 d2 =
     rbind (lev_cell k a b i j d0 d1 d2) (\<lambda>v. lev_row k a b i js (d0[j := v]) d1 d2)"

text \<open>The rows, rotated after each: the current one becomes the previous one.\<close>

fun lev_rows :: "costs \<Rightarrow> string \<Rightarrow> string \<Rightarrow> nat list \<Rightarrow> int list \<Rightarrow> int list \<Rightarrow> int list \<Rightarrow> int list result" where
  "lev_rows k a b [] d0 d1 d2 = Inr d1"
| "lev_rows k a b (i # is) d0 d1 d2 =
     rbind (lev_row k a b i [1..<length b + 1] (d0[0 := int i]) d1 d2) (\<lambda>r. lev_rows k a b is d2 r d1)"

definition levenshtein :: "costs \<Rightarrow> string \<Rightarrow> string \<Rightarrow> int result" where
  "levenshtein k a b =
     (let blen = length b; zero = replicate (blen + 1) 0
      in rbind (lev_rows k a b [1..<length a + 1] zero (map int [0..<blen + 1]) zero) (\<lambda>d1. Inr (d1 ! blen)))"

section \<open>The table\<close>

text \<open>The entry for the first \<open>i\<close> characters of \<open>a\<close> and the first \<open>j\<close> of \<open>b\<close>. The first row and the first column are as the loops
  fill them: one for each character, whatever \<^verbatim>\<open>addcost\<close> and \<^verbatim>\<open>delcost\<close> are.\<close>

fun lev_table :: "costs \<Rightarrow> string \<Rightarrow> string \<Rightarrow> nat \<Rightarrow> nat \<Rightarrow> int" where
  "lev_table k a b 0 j = int j"
| "lev_table k a b (Suc i) 0 = int (Suc i)"
| "lev_table k a b (Suc i) (Suc j) =
     (let change = lev_table k a b i j + (if a ! i = b ! j then 0 else subcost k);
          swap = (if 1 \<le> i \<and> 1 \<le> j \<and> a ! i \<noteq> b ! j \<and> a ! (i - 1) = b ! j \<and> a ! i = b ! (j - 1)
                  then min change (lev_table k a b (i - 1) (j - 1) + swapcost k) else change)
      in min swap (min (lev_table k a b i (Suc j) + delcost k) (lev_table k a b (Suc i) j + addcost k)))"

declare lev_table.simps(3) [simp del]

definition swaps :: "string \<Rightarrow> string \<Rightarrow> nat \<Rightarrow> nat \<Rightarrow> bool" where
  "swaps a b i j \<longleftrightarrow> 1 \<le> i \<and> 1 \<le> j \<and> a ! i \<noteq> b ! j \<and> a ! (i - 1) = b ! j \<and> a ! i = b ! (j - 1)"

lemma lev_table_Suc:
  "lev_table k a b (Suc i) (Suc j) =
     min (if swaps a b i j then min (lev_table k a b i j + (if a ! i = b ! j then 0 else subcost k))
            (lev_table k a b (i - 1) (j - 1) + swapcost k)
          else lev_table k a b i j + (if a ! i = b ! j then 0 else subcost k))
       (min (lev_table k a b i (Suc j) + delcost k) (lev_table k a b (Suc i) j + addcost k))"
  by (simp only: lev_table.simps(3) Let_def swaps_def)

text \<open>The distance the comment describes: the least cost of turning \<open>a\<close> into \<open>b\<close>, from left to right, by keeping characters,
  substituting them, swapping two neighbours, adding and deleting characters.\<close>

inductive edit_script :: "costs \<Rightarrow> string \<Rightarrow> string \<Rightarrow> int \<Rightarrow> bool" for k where
  edit_none: "edit_script k [] [] 0"
| edit_keep: "edit_script k a b c \<Longrightarrow> edit_script k (a @ [x]) (b @ [x]) c"
| edit_substitute: "x \<noteq> y \<Longrightarrow> edit_script k a b c \<Longrightarrow> edit_script k (a @ [x]) (b @ [y]) (c + subcost k)"
| edit_swap: "x \<noteq> y \<Longrightarrow> edit_script k a b c \<Longrightarrow> edit_script k (a @ [x, y]) (b @ [y, x]) (c + swapcost k)"
| edit_delete: "edit_script k a b c \<Longrightarrow> edit_script k (a @ [x]) b (c + delcost k)"
| edit_add: "edit_script k a b c \<Longrightarrow> edit_script k a (b @ [y]) (c + addcost k)"

text \<open>Costs for which no sum leaves \<^verbatim>\<open>int\<close> on texts of \<open>n\<close> characters together.\<close>

definition costs_fit :: "costs \<Rightarrow> nat \<Rightarrow> bool" where
  "costs_fit k n \<longleftrightarrow> 0 \<le> swapcost k \<and> 0 \<le> subcost k \<and> addcost k = 1 \<and> 1 \<le> delcost k
     \<and> int n + max 1 (max (swapcost k) (max (subcost k) (delcost k))) < 2 ^ 31"

section \<open>The rows are those of the table\<close>

lemma lev_table_bounds:
  "0 \<le> swapcost k \<Longrightarrow> 0 \<le> subcost k \<Longrightarrow> addcost k = 1 \<Longrightarrow> 0 \<le> delcost k \<Longrightarrow>
     0 \<le> lev_table k a b i j \<and> lev_table k a b i j \<le> int i + int j"
proof (induction k a b i j rule: lev_table.induct)
  case (3 k a b i j)
  let ?T = "lev_table k a b"
  let ?x = "?T i j + (if a ! i = b ! j then 0 else subcost k)"
  have le: "0 \<le> ?T i j" "0 \<le> ?T i (Suc j)" "0 \<le> ?T (Suc i) j" "?T (Suc i) j \<le> int (Suc i) + int j"
    using "3.IH"(1,3,4) "3.prems" by simp_all
  have sw: "swaps a b i j \<Longrightarrow> 0 \<le> ?T (i - 1) (j - 1)" using "3.IH"(2) "3.prems" unfolding swaps_def by blast
  have "0 \<le> ?x" using le(1) "3.prems" by simp
  then have "0 \<le> (if swaps a b i j then min ?x (?T (i - 1) (j - 1) + swapcost k) else ?x)"
    using sw "3.prems"(1) by (cases "swaps a b i j") simp_all
  then have "0 \<le> ?T (Suc i) (Suc j)" using le(2,3) "3.prems" unfolding lev_table_Suc by simp
  moreover have "?T (Suc i) (Suc j) \<le> ?T (Suc i) j + addcost k" by (simp add: lev_table_Suc)
  ultimately show ?case using le(4) "3.prems"(3) by simp
qed simp_all

lemma lev_table_fits:
  assumes "costs_fit k n" and "i + j \<le> n" and "c \<in> {0, swapcost k, subcost k, addcost k, delcost k}"
  shows "c_int (lev_table k a b i j + c) = Inr (lev_table k a b i j + c)"
proof -
  have c: "0 \<le> c" "c \<le> max 1 (max (swapcost k) (max (subcost k) (delcost k)))" using assms(1,3) by (auto simp: costs_fit_def)
  have t: "0 \<le> lev_table k a b i j" "lev_table k a b i j \<le> int i + int j"
    using lev_table_bounds [of k a b i j] assms(1) by (simp_all add: costs_fit_def)
  have "int i + int j \<le> int n" using assms(2) by simp
  then have "lev_table k a b i j + c < 2 ^ 31" using c(2) t(2) assms(1) unfolding costs_fit_def by linarith
  then show ?thesis using c(1) t(1) by simp
qed

lemma lev_cell_table:
  assumes "costs_fit k n" and "Suc i + Suc j \<le> n"
    and "d1 ! j = lev_table k a b i j" and "d1 ! Suc j = lev_table k a b i (Suc j)" and "d0 ! j = lev_table k a b (Suc i) j"
    and "0 < i \<Longrightarrow> d2 ! (j - 1) = lev_table k a b (i - 1) (j - 1)"
  shows "lev_cell k a b (Suc i) (Suc j) d0 d1 d2 = Inr (lev_table k a b (Suc i) (Suc j))"
proof -
  note fits = lev_table_fits [OF assms(1)]
  have change: "c_int (lev_table k a b i j + (if a ! i = b ! j then 0 else subcost k))
      = Inr (lev_table k a b i j + (if a ! i = b ! j then 0 else subcost k))"
    and del: "c_int (lev_table k a b i (Suc j) + delcost k) = Inr (lev_table k a b i (Suc j) + delcost k)"
    and add: "c_int (lev_table k a b (Suc i) j + addcost k) = Inr (lev_table k a b (Suc i) j + addcost k)"
    using assms(2) fits [of i j 0 a b] fits [of i j "subcost k" a b] fits [of i "Suc j" "delcost k" a b]
      fits [of "Suc i" j "addcost k" a b] by simp_all
  show ?thesis
  proof (cases "1 \<le> i \<and> 1 \<le> j")
    case True
    then have b: "2 \<le> Suc i" "2 \<le> Suc j" "1 \<le> i" "1 \<le> j" and e: "Suc i - 2 = i - 1" "Suc j - 2 = j - 1" by simp_all
    have d2: "d2 ! (j - 1) = lev_table k a b (i - 1) (j - 1)" using True assms(6) by simp
    have swap: "c_int (lev_table k a b (i - 1) (j - 1) + swapcost k) = Inr (lev_table k a b (i - 1) (j - 1) + swapcost k)"
      using assms(2) fits [of "i - 1" "j - 1" "swapcost k" a b] by simp
    define x where "x = lev_table k a b i j + (if a ! i = b ! j then 0 else subcost k)"
    have "(2 \<le> Suc i \<and> 2 \<le> Suc j \<and> a ! i \<noteq> b ! j \<and> a ! (i - 1) = b ! j \<and> a ! i = b ! (j - 1)) = swaps a b i j"
      using b by (simp only: swaps_def simp_thms)
    then have "lev_cell k a b (Suc i) (Suc j) d0 d1 d2
      = rbind (if swaps a b i j then Inr (min x (lev_table k a b (i - 1) (j - 1) + swapcost k)) else Inr x)
        (\<lambda>y. Inr (min y (min (lev_table k a b i (Suc j) + delcost k) (lev_table k a b (Suc i) j + addcost k))))"
      unfolding lev_cell_def by (simp only: e d2 assms(3-5) diff_Suc_1 change del add swap rbind.simps x_def)
    also have "\<dots> = Inr (lev_table k a b (Suc i) (Suc j))"
      unfolding lev_table_Suc x_def by (cases "swaps a b i j") simp_all
    finally show ?thesis .
  next
    case False
    then have "(2 \<le> Suc i \<and> 2 \<le> Suc j \<and> P) = False" "(1 \<le> i \<and> 1 \<le> j \<and> P) = False" for P by auto
    then show ?thesis
      unfolding lev_cell_def lev_table_Suc swaps_def by (simp only: assms(3-5) diff_Suc_1 if_False change del add rbind.simps)
  qed
qed

text \<open>The row of \<open>i\<close>, given the two before it.\<close>

lemma lev_row_table:
  assumes "costs_fit k N" and "Suc i + n \<le> N" and "length d0 = Suc n" and "m < Suc n"
    and "\<And>j. j \<le> n \<Longrightarrow> d1 ! j = lev_table k a b i j" and "\<And>j. 0 < i \<Longrightarrow> j \<le> n \<Longrightarrow> d2 ! j = lev_table k a b (i - 1) j"
    and "\<And>j. j < Suc n - m \<Longrightarrow> d0 ! j = lev_table k a b (Suc i) j"
  shows "\<exists>r. lev_row k a b (Suc i) [Suc n - m..<Suc n] d0 d1 d2 = Inr r \<and> length r = Suc n
    \<and> (\<forall>j \<le> n. r ! j = lev_table k a b (Suc i) j)"
  using assms(3-7)
proof (induction m arbitrary: d0)
  case 0
  then show ?case by simp
next
  case (Suc m)
  let ?j = "n - Suc m"
  let ?d0 = "d0[Suc ?j := lev_table k a b (Suc i) (Suc ?j)]"
  have j: "Suc n - Suc m = Suc ?j" "Suc ?j \<le> n" "Suc n - m = Suc (Suc ?j)" using Suc.prems(2) by simp_all
  have cell: "lev_cell k a b (Suc i) (Suc ?j) d0 d1 d2 = Inr (lev_table k a b (Suc i) (Suc ?j))"
  proof -
    have "d1 ! ?j = lev_table k a b i ?j" "d1 ! Suc ?j = lev_table k a b i (Suc ?j)" "d0 ! ?j = lev_table k a b (Suc i) ?j"
      "0 < i \<Longrightarrow> d2 ! (?j - 1) = lev_table k a b (i - 1) (?j - 1)"
      using Suc.prems(3) [of ?j] Suc.prems(3) [of "Suc ?j"] Suc.prems(4) [of "?j - 1"] Suc.prems(5) [of ?j] j by simp_all
    moreover have "Suc i + Suc ?j \<le> N" using assms(2) j(2) by linarith
    ultimately show ?thesis using lev_cell_table [OF assms(1)] by blast
  qed
  have d0: "?d0 ! j' = lev_table k a b (Suc i) j'" if "j' < Suc n - m" for j'
  proof (cases "j' = Suc ?j")
    case True
    then show ?thesis using Suc.prems(1) j(2) by (simp only: nth_list_update_eq less_Suc_eq_le)
  next
    case False
    then have "j' < Suc n - Suc m" using that j by linarith
    from Suc.prems(5) [OF this] False show ?thesis by (simp only: nth_list_update_neq)
  qed
  have "length ?d0 = Suc n" "m < Suc n" using Suc.prems(1,2) by simp_all
  from Suc.IH [OF this Suc.prems(3,4) d0]
  have IH: "\<exists>r. lev_row k a b (Suc i) [Suc n - m..<Suc n] ?d0 d1 d2 = Inr r \<and> length r = Suc n
      \<and> (\<forall>j \<le> n. r ! j = lev_table k a b (Suc i) j)" by blast
  have "[Suc n - Suc m..<Suc n] = Suc ?j # [Suc n - m..<Suc n]" using j by (subst upt_conv_Cons) simp_all
  then show ?case using IH by (simp only: lev_row.simps cell rbind.simps)
qed

lemma lev_rows_table:
  assumes "costs_fit k N" and "n + length b \<le> N" and "i \<le> n"
    and "length d0 = Suc (length b)" "length d1 = Suc (length b)" "length d2 = Suc (length b)"
    and "\<And>j. j \<le> length b \<Longrightarrow> d1 ! j = lev_table k a b i j"
    and "\<And>j. 0 < i \<Longrightarrow> j \<le> length b \<Longrightarrow> d2 ! j = lev_table k a b (i - 1) j"
  shows "\<exists>r. lev_rows k a b [Suc i..<Suc n] d0 d1 d2 = Inr r \<and> (\<forall>j \<le> length b. r ! j = lev_table k a b n j)"
  using assms(3-8)
proof (induction "n - i" arbitrary: i d0 d1 d2)
  case 0
  then show ?case by simp
next
  case (Suc m)
  have "Suc i + length b \<le> N" using assms(2) Suc.hyps(2) by linarith
  from lev_row_table [OF assms(1) this, of "d0[0 := int (Suc i)]" "length b" d1 a b d2] Suc.prems
  obtain r where r: "lev_row k a b (Suc i) [1..<length b + 1] (d0[0 := int (Suc i)]) d1 d2 = Inr r"
    "length r = Suc (length b)" "\<forall>j \<le> length b. r ! j = lev_table k a b (Suc i) j" by auto
  have "[Suc i..<Suc n] = Suc i # [Suc (Suc i)..<Suc n]" using Suc.hyps(2) by (subst upt_conv_Cons) simp_all
  moreover have "\<exists>s. lev_rows k a b [Suc (Suc i)..<Suc n] d2 r d1 = Inr s \<and> (\<forall>j \<le> length b. s ! j = lev_table k a b n j)"
    by (rule Suc.hyps(1)) (use Suc.hyps(2) Suc.prems r in simp_all)
  ultimately show ?case using r(1) by simp
qed

lemma levenshtein_table:
  assumes "costs_fit k (length a + length b)"
  shows "levenshtein k a b = Inr (lev_table k a b (length a) (length b))"
proof -
  let ?zero = "replicate (Suc (length b)) (0 :: int)"
  have "\<exists>r. lev_rows k a b [Suc 0..<Suc (length a)] ?zero (map int [0..<Suc (length b)]) ?zero = Inr r
      \<and> (\<forall>j \<le> length b. r ! j = lev_table k a b (length a) j)"
    by (rule lev_rows_table [OF assms]) (auto simp del: upt_Suc replicate.simps)
  then show ?thesis by (auto simp: levenshtein_def Let_def simp del: upt_Suc replicate.simps)
qed

section \<open>The table and the edit scripts\<close>

lemma lev_table_prefix:
  "i \<le> length a \<Longrightarrow> j \<le> length b \<Longrightarrow> lev_table k (a @ a') (b @ b') i j = lev_table k a b i j"
proof (induction k a b i j rule: lev_table.induct)
  case (3 k a b i j)
  have "i < length a" "i - 1 < length a" "j < length b" "j - 1 < length b" using "3.prems" by linarith+
  then have nth: "(a @ a') ! i = a ! i" "(b @ b') ! j = b ! j" "(a @ a') ! (i - 1) = a ! (i - 1)" "(b @ b') ! (j - 1) = b ! (j - 1)"
    by (simp_all add: nth_append)
  have IH: "lev_table k (a @ a') (b @ b') i j = lev_table k a b i j"
    "lev_table k (a @ a') (b @ b') i (Suc j) = lev_table k a b i (Suc j)"
    "lev_table k (a @ a') (b @ b') (Suc i) j = lev_table k a b (Suc i) j"
    using "3.IH"(1,3,4) "3.prems" by simp_all
  have "swaps (a @ a') (b @ b') i j = swaps a b i j" by (simp only: swaps_def nth)
  moreover have "swaps a b i j \<Longrightarrow>
      lev_table k (a @ a') (b @ b') (i - 1) (j - 1) = lev_table k a b (i - 1) (j - 1)"
    using "3.IH"(2) "3.prems" unfolding swaps_def by (meson diff_le_self le_trans Suc_leD)
  ultimately show ?case unfolding lev_table_Suc IH nth by (cases "swaps a b i j") simp_all
qed simp_all

lemma lev_table_le:
  "lev_table k a b (Suc i) (Suc j) \<le> lev_table k a b i j + (if a ! i = b ! j then 0 else subcost k)"
  "lev_table k a b (Suc i) (Suc j) \<le> lev_table k a b i (Suc j) + delcost k"
  "lev_table k a b (Suc i) (Suc j) \<le> lev_table k a b (Suc i) j + addcost k"
  "swaps a b i j \<Longrightarrow> lev_table k a b (Suc i) (Suc j) \<le> lev_table k a b (i - 1) (j - 1) + swapcost k"
  unfolding lev_table_Suc by (cases "swaps a b i j"; simp only: if_True if_False; linarith)+

text \<open>No script costs less than the table says, if deleting a character costs at least one.\<close>

lemma edit_script_lower:
  assumes "edit_script k a b c" and "addcost k = 1" and "1 \<le> delcost k"
  shows "lev_table k a b (length a) (length b) \<le> c"
  using assms(1)
proof induction
  case (edit_keep a b c x)
  then show ?case
    using lev_table_le(1) [of k "a @ [x]" "b @ [x]" "length a" "length b"] by (simp add: lev_table_prefix)
next
  case (edit_substitute x y a b c)
  then show ?case
    using lev_table_le(1) [of k "a @ [x]" "b @ [y]" "length a" "length b"] by (simp add: lev_table_prefix)
next
  case (edit_swap x y a b c)
  then show ?case
    using lev_table_le(4) [of "a @ [x, y]" "b @ [y, x]" "Suc (length a)" "Suc (length b)" k]
    by (simp add: lev_table_prefix nth_append swaps_def)
next
  case (edit_delete a b c x)
  have p: "lev_table k (a @ [x]) b (length a) j = lev_table k a b (length a) j" if "j \<le> length b" for j
    using lev_table_prefix [of "length a" a j b k "[x]" "[]"] that by simp
  show ?case
  proof (cases "length b")
    case 0
    then have "lev_table k a b (length a) (length b) = int (length a)" by (cases "length a") simp_all
    then show ?thesis using edit_delete assms(3) 0 by simp
  next
    case (Suc j)
    then show ?thesis using edit_delete p [of "Suc j"] lev_table_le(2) [of k "a @ [x]" b "length a" j] by (simp)
  qed
next
  case (edit_add a b c y)
  have p: "lev_table k a (b @ [y]) i (length b) = lev_table k a b i (length b)" if "i \<le> length a" for i
    using lev_table_prefix [of i a "length b" b k "[]" "[y]"] that by simp
  show ?case
  proof (cases "length a")
    case 0
    then show ?thesis using edit_add assms(2) by simp
  next
    case (Suc i)
    then show ?thesis using edit_add p [of "Suc i"] lev_table_le(3) [of k a "b @ [y]" i "length b"] by (simp)
  qed
qed simp

lemma edit_script_deletes: "delcost k = 1 \<Longrightarrow> edit_script k a [] (int (length a))"
proof (induction a rule: rev_induct)
  case (snoc x a)
  then show ?case using edit_delete [of k a "[]" "int (length a)" x] by (simp add: add.commute)
qed (simp add: edit_none)

lemma edit_script_adds: "addcost k = 1 \<Longrightarrow> edit_script k [] b (int (length b))"
proof (induction b rule: rev_induct)
  case (snoc x b)
  then show ?case using edit_add [of k "[]" b "int (length b)" x] by (simp add: add.commute)
qed (simp add: edit_none)

text \<open>A script with the cost the table says, if deleting a character costs one.\<close>

lemma edit_script_attained:
  "addcost k = 1 \<Longrightarrow> delcost k = 1 \<Longrightarrow> i \<le> length a \<Longrightarrow> j \<le> length b \<Longrightarrow>
     edit_script k (take i a) (take j b) (lev_table k a b i j)"
proof (induction k a b i j rule: lev_table.induct)
  case (1 k a b j)
  then show ?case using edit_script_adds [of k "take j b"] by simp
next
  case (2 k a b i)
  then show ?case using edit_script_deletes [of k "take (Suc i) a"] by simp
next
  case (3 k a b i j)
  let ?T = "lev_table k a b"
  let ?change = "?T i j + (if a ! i = b ! j then 0 else subcost k)"
  have ta: "take (Suc i) a = take i a @ [a ! i]" and tb: "take (Suc j) b = take j b @ [b ! j]"
    using "3.prems" by (simp_all add: take_Suc_conv_app_nth)
  have IH: "edit_script k (take i a) (take j b) (?T i j)"
    "edit_script k (take i a) (take (Suc j) b) (?T i (Suc j))" "edit_script k (take (Suc i) a) (take j b) (?T (Suc i) j)"
    using "3.IH" "3.prems" by simp_all
  have change: "edit_script k (take (Suc i) a) (take (Suc j) b) ?change"
    unfolding ta tb using edit_keep [OF IH(1)] edit_substitute [OF _ IH(1)] by simp
  have del: "edit_script k (take (Suc i) a) (take (Suc j) b) (?T i (Suc j) + delcost k)"
    unfolding ta using edit_delete [OF IH(2)] .
  have add: "edit_script k (take (Suc i) a) (take (Suc j) b) (?T (Suc i) j + addcost k)"
    unfolding tb using edit_add [OF IH(3)] .
  have swap: "edit_script k (take (Suc i) a) (take (Suc j) b) (?T (i - 1) (j - 1) + swapcost k)"
    if "swaps a b i j"
  proof -
    have c: "1 \<le> i" "1 \<le> j" "a ! i \<noteq> b ! j" "a ! (i - 1) = b ! j" "a ! i = b ! (j - 1)"
      using that unfolding swaps_def by blast+
    have "edit_script k (take (i - 1) a) (take (j - 1) b) (?T (i - 1) (j - 1))" using "3.IH" "3.prems" c by simp
    then have "edit_script k (take (i - 1) a @ [a ! (i - 1), a ! i]) (take (j - 1) b @ [a ! i, a ! (i - 1)])
        (?T (i - 1) (j - 1) + swapcost k)" using c by (intro edit_swap) simp
    moreover have "take (Suc i) a = take (i - 1) a @ [a ! (i - 1), a ! i]" using c(1) "3.prems" ta take_Suc_conv_app_nth [of "i - 1" a] by simp
    moreover have "take (Suc j) b = take (j - 1) b @ [a ! i, a ! (i - 1)]" using c "3.prems" tb take_Suc_conv_app_nth [of "j - 1" b] by simp
    ultimately show ?thesis by simp
  qed
  let ?P = "edit_script k (take (Suc i) a) (take (Suc j) b)"
  have min: "?P (min x y)" if "?P x" "?P y" for x y using that by (simp add: min_def)
  show ?case unfolding lev_table_Suc using change del add swap by (cases "swaps a b i j") (simp_all only: if_True if_False min)
qed

section \<open>Properties\<close>

text \<open>C40. \<^verbatim>\<open>levenshtein\<close> against the distance of its comment. For costs that are not negative, an addition costing one (as in the
  only call) and a deletion at least one, and texts and costs for which no sum leaves \<^verbatim>\<open>int\<close>, the three rotating rows end without
  overflow in a number that no edit script undercuts; and when a deletion costs one, there is a script of just that cost, so
  the result is the least. For the costs of the call, in which a deletion costs three, it need not be
  (\<open>levenshtein_leading_deletion\<close>).\<close>

theorem levenshtein_distance:
  assumes "0 \<le> swapcost k" and "0 \<le> subcost k" and "addcost k = 1" and "1 \<le> delcost k"
    and "int (length a + length b) + max 1 (max (swapcost k) (max (subcost k) (delcost k))) < 2 ^ 31"
  shows "\<exists>d. levenshtein k a b = Inr d \<and> (\<forall>c. edit_script k a b c \<longrightarrow> d \<le> c) \<and> (delcost k = 1 \<longrightarrow> edit_script k a b d)"
proof -
  have "levenshtein k a b = Inr (lev_table k a b (length a) (length b))"
    using assms by (simp add: levenshtein_table costs_fit_def)
  then show ?thesis using edit_script_lower assms(3,4) edit_script_attained [of k "length a" a "length b" b] by auto
qed

theorem levenshtein_distance_witness:
  "\<exists>d. levenshtein \<lparr>swapcost = 1, subcost = 1, addcost = 1, delcost = 1\<rparr> ''prot'' ''port'' = Inr d
     \<and> edit_script \<lparr>swapcost = 1, subcost = 1, addcost = 1, delcost = 1\<rparr> ''prot'' ''port'' d"
  using levenshtein_distance [of "\<lparr>swapcost = 1, subcost = 1, addcost = 1, delcost = 1\<rparr>" "''prot''" "''port''"] by auto

text \<open>With the costs of \<^verbatim>\<open>show_candidates\<close> a leading character is deleted for one instead of three: the first column of the
  table ignores \<^verbatim>\<open>delcost\<close>.\<close>

lemma levenshtein_leading_deletion:
  "levenshtein \<lparr>swapcost = 0, subcost = 2, addcost = 1, delcost = 3\<rparr> ''a'' [] = Inr 1
   \<and> \<not> edit_script \<lparr>swapcost = 0, subcost = 2, addcost = 1, delcost = 3\<rparr> ''a'' [] 1"
proof -
  have "edit_script k a b c \<Longrightarrow> b = [] \<Longrightarrow> c = int (length a) * delcost k" for k a b c
    by (induction rule: edit_script.induct) (simp_all add: algebra_simps)
  then have "\<not> edit_script \<lparr>swapcost = 0, subcost = 2, addcost = 1, delcost = 3\<rparr> ''a'' [] 1" by fastforce
  moreover have "levenshtein \<lparr>swapcost = 0, subcost = 2, addcost = 1, delcost = 3\<rparr> ''a'' [] = Inr 1" by code_simp
  ultimately show ?thesis by blast
qed

end
