(* ===== verification/Spec2Isabelle.thy ===== *)
theory Spec2Isabelle
  imports Config_Schema Json_Pointer Http_Message Match_Rule Calendar Response Server Base64 Memchunk Serve_Mux
    Http1_Order Http2_Response Lua_Store Connection Listener End_To_End Alpn
    Http_Date Text_Util Edit_Distance
begin

text \<open>
  A verification development for maock, a mock server for HTTP/1 and HTTP/2. Every theory models one part of the program,
  in the order the code has it; this theory imports them all. File names are relative to \<^verbatim>\<open>src/\<close>.

  \<^bold>\<open>The program.\<close> The configuration lists services; a service has a request, a set of rules on the header fields and the JSON
  payload of a request, and weighted responses, whose payload and header fields are templates filled from the request, from random
  values, from the time or by a Lua script. At the start \<^verbatim>\<open>asio_util.cc\<close> reads the configuration, builds one
  \<^verbatim>\<open>H2Server\<close> for each worker thread, registers one callback with the multiplexer and listens. An accepted connection is given to the io
  service of one worker and gets a protocol handler for HTTP/2 or HTTP/1. The handler turns what arrives into calls of the multiplexer, which redirects a
  request to its clean path or hands it to the callback. The callback finds the best service that matches, draws a response,
  fills its templates and sends it, at once, after a delay, or from another thread; the handler turns it into bytes, which the
  connection writes.

  \<^bold>\<open>Conventions\<close> (\<^verbatim>\<open>Maock_Prelude\<close>, \<^verbatim>\<open>Cxx_Container\<close>). A \<^verbatim>\<open>std::string\<close> is a list of characters, an unsigned integer of a fixed width is
  a word, so that its arithmetic wraps; signed arithmetic that could overflow is checked at its width (\<open>c_int\<close>, \<open>c_int64\<close>), and an overflow is a fault. A class is a record with the members of the source. An
  operation that can fail to return gives a \<^typ>\<open>'a result\<close>: \<^typ>\<open>fault\<close> tells an exit, an exception, a violated assertion, an access
  outside an array (or a signed overflow) and a null pointer apart, which in C++ may be undefined behaviour. A loop that may not end is a \<^verbatim>\<open>partial_function\<close>, and
  \<^term>\<open>None\<close> is its not returning; all other recursions are proved to terminate, with no fuel anywhere. The ordered containers of the C++ library are lists
  sorted by their comparison, with the comparison as an argument, since the source has comparisons that identify different
  keys. What happens outside the program is an argument: \<^verbatim>\<open>lib\<close> (RapidJSON and \<^verbatim>\<open>std::regex\<close>), \<^verbatim>\<open>lua_lib\<close>
  (the Lua interpreter), streams of random draws, the time, the parser of HTTP/1 (\<open>llhttp_execute\<close>) and of URLs (\<open>parse_url\<close>), and
  the session of nghttp2: \<open>mem_recv\<close> and \<open>mem_send\<close> give the callbacks it makes and its output, \<open>session_rv\<close> the return values of
  its functions, \<open>want\<close> whether it wants to read or write. Calls into the session are logged in the order they are made, as values.

  \<^bold>\<open>The decision.\<close>
  \<^item> \<^verbatim>\<open>Config_Schema\<close>: \<^verbatim>\<open>H2Server_Config_Schema.h\<close>, the records of the configuration with the members the constructors leave uninitialised
    as arguments, what is mandatory, and the post-processing.
  \<^item> \<^verbatim>\<open>Json_Pointer\<close>, \<^verbatim>\<open>Response\<close>: \<^verbatim>\<open>H2Server_Response.h\<close>. Templates and extended JSON pointers: \<open>tokenize_string_roundtrip\<close>,
    \<open>getValueFromJsonPtr_nth\<close>. Arguments, payload and header fields, the customisation by Lua, throttling:
    \<open>produce_payload_substitutes\<close>, \<open>update_response_with_lua_contract\<close>.
  \<^item> \<^verbatim>\<open>Http_Message\<close>, \<^verbatim>\<open>Match_Rule\<close>: requests as the handlers deliver them, and \<^verbatim>\<open>H2Server_Request.h\<close>, the rules with their memo. The lemmas show the
    memo sound: a remembered result is the result.
  \<^item> \<^verbatim>\<open>Server\<close>: \<^verbatim>\<open>H2Server.h\<close>, the order of the services, the search and the weighted choice. \<open>get_matched_request_best_fit\<close> (the first
    match from the end is a best one), \<open>select_response_proportional\<close> (each response gets its share of the range of the draw),
    \<open>colliding_rule_is_dropped\<close>; the lemma \<open>get_matched_request_total\<close> says that the search answers.
  \<^item> \<^verbatim>\<open>Lua_Store\<close>: \<^verbatim>\<open>common_lua.cc\<close>, the sharded store the scripts share. \<open>lua_store_refines_map\<close>.

  \<^bold>\<open>Requests and responses.\<close>
  \<^item> \<^verbatim>\<open>Http_Util\<close>, \<^verbatim>\<open>Header_Token\<close>, \<^verbatim>\<open>Serve_Mux\<close>: the helpers of \<^verbatim>\<open>http2.cc\<close> and \<^verbatim>\<open>util.cc\<close> that the server calls, the generated switches on
    names as data, and \<^verbatim>\<open>asio_server_serve_mux.cc\<close>. \<open>path_join_no_traversal\<close>, \<open>percent_decode_encode\<close>, \<open>lookup_token_correct\<close>, \<open>mux_match_longest\<close>,
    \<open>mux_total\<close>.
  \<^item> \<^verbatim>\<open>Http_Stream\<close>, \<^verbatim>\<open>Base_Handler\<close>: \<^verbatim>\<open>asio_server_response.cc\<close>, \<^verbatim>\<open>asio_server_stream.cc\<close>, \<^verbatim>\<open>asio_server_base_handler.cc\<close>. An operation on a response
    returns the calls it makes to the protocol handler as values, which each handler executes in its own way.
    \<open>response_started_once\<close>, \<open>stale_handler_not_found\<close>.
  \<^item> \<^verbatim>\<open>Dispatch\<close>: \<^verbatim>\<open>asio_util.cc\<close>, the callback, its ways to send a response, and the statistics. \<open>dispatch_answers_matched\<close>,
    \<open>dispatch_outcomes\<close>, \<open>trailers_leak\<close>.
  \<^item> \<^verbatim>\<open>Http1_Handler\<close>, \<^verbatim>\<open>Http1_Order\<close>: \<^verbatim>\<open>asio_server_http1_handler.cc\<close> and its step relation. \<open>http1_responses_in_order\<close> is an invariant of all
    interleavings of reads, answers and writes, over what each write puts into its buffer; \<open>http1_writes_ready_responses\<close> says that ready responses that fit are written;
    \<open>http1_large_body_never_returns\<close> that a body that does not fit is never written.
  \<^item> \<^verbatim>\<open>Http2_Handler\<close>, \<^verbatim>\<open>Http2_Session\<close>, \<^verbatim>\<open>Http2_Request\<close>, \<^verbatim>\<open>Http2_Response\<close>: \<^verbatim>\<open>asio_server_http2_handler.cc\<close>, its runs, and a request and a response in
    full. \<open>h2_write_within_buffer\<close>, \<open>h2_streams_well_formed\<close>, \<open>h2_request_as_sent\<close>, \<open>h2_response_as_produced\<close>.
  \<^item> \<^verbatim>\<open>End_To_End\<close>: \<open>http2_request_answered\<close> composes them. From the frames of a request over HTTP/2 to the payload the session reads, with
    multiplexer, matching, choice and templates between.

  \<^bold>\<open>Connections and threads.\<close>
  \<^item> \<^verbatim>\<open>Connection\<close>: \<^verbatim>\<open>asio_server_connection.h\<close> over any handler: reads, writes and deadlines are outstanding until a step completes
    them. \<open>connection_discipline\<close>, \<open>stopped_connection_finished\<close>; with the two handlers behind it, \<open>h2_connection_output\<close> (what the socket is
    given is the session's output) and \<open>deferred_response_dropped\<close>.
  \<^item> \<^verbatim>\<open>Listener\<close>: \<^verbatim>\<open>asio_io_service_pool.cc\<close> and \<^verbatim>\<open>asio_server.cc\<close>. Connections go to the workers in turn (\<open>io_services_round_robin\<close>); after a failure for lack of
    descriptors a socket accepts nothing any more (\<open>accept_never_resumes\<close>).
  \<^item> \<^verbatim>\<open>Alpn\<close>: the choice of the protocol, where a comparison past the end of the client's list is a fault. \<open>alpn_negotiates_h2\<close>.

  \<^bold>\<open>Data.\<close>
  \<^item> \<^verbatim>\<open>Memchunk\<close>: \<^verbatim>\<open>memchunk.h\<close>, over an explicit store, since queues share chunks through a pool. \<open>memchunks_session_fifo\<close> refines a
    queue of bytes, operation by operation, with every loop shown to return.
  \<^item> \<^verbatim>\<open>Base64\<close>, \<^verbatim>\<open>Calendar\<close>, \<^verbatim>\<open>Http_Date\<close>: \<^verbatim>\<open>base64.h\<close>, \<^verbatim>\<open>timegm.c\<close>, the dates of \<^verbatim>\<open>util.cc\<close>. \<open>base64_roundtrip\<close>, \<open>decode_fits_buffer\<close>,
    \<open>response_date_is_now\<close> (the cached date of a response reads back as the time of its sending).
  \<^item> \<^verbatim>\<open>Text_Util\<close>, \<^verbatim>\<open>Edit_Distance\<close>: further helpers of \<^verbatim>\<open>util.cc\<close>. \<open>printed_numbers_read_back\<close>, \<open>check_path_no_traversal\<close>,
    \<open>levenshtein_distance\<close> (against edit scripts; \<open>levenshtein_leading_deletion\<close> is where the code departs from its comment).

  \<^bold>\<open>Interfaces.\<close> \<^verbatim>\<open>keyed_order\<close> (a comparison by a key; interpreted on the orders of rules, of requests, of case-insensitive names and on linear orders)
  carries the lemmas on containers; \<^verbatim>\<open>dictionary\<close> is what a map promises, of \<^verbatim>\<open>std::map\<close> and of the sharded store; \<^verbatim>\<open>byte_queue\<close> a
  queue of bytes, of \<^verbatim>\<open>Memchunks\<close>; \<^verbatim>\<open>name_switch\<close> a generated switch, of the two in \<^verbatim>\<open>http2.cc\<close>; \<^verbatim>\<open>recorded_output\<close> a source that remembers what it gave out, of the
  session behind the HTTP/2 handler; \<^verbatim>\<open>connected_handler\<close> what a connection relies on, of both protocol handlers.

  \<^bold>\<open>Bounds.\<close> Hypotheses bound what the code does not check: fewer than \<open>2^31\<close> requests on an HTTP/1 connection, since their number becomes the number of a stream; fewer
  than \<open>2^64\<close> handlers on a thread; weights that add up to at most \<open>2^31\<close>, the range of the draw; no two different rules that compare as equal; times up to the
  year 9999 where four digits are written; texts whose edit distance fits an \<^verbatim>\<open>int\<close>. Where a piece of a session's output longer than the connection's buffer would
  be a fault, \<open>h2_write_within_buffer\<close> says so. The buffers of a connection have 8 and 64 KB, as in the source.

  \<^bold>\<open>Not modelled.\<close> The reading of the command line and of the configuration file, the creation of threads, the set-up of TLS contexts (\<^verbatim>\<open>tls.cc\<close>,
  \<^verbatim>\<open>asio_server_tls_context.cc\<close>, but for the choice of the protocol) and socket options: calls of the system or of libraries. The layout of the printed statistics and the debug
  printers. \<^verbatim>\<open>asio_httpx_server.cc\<close>, which forwards every call. \<^verbatim>\<open>allocator.h\<close> and \<^verbatim>\<open>template.h\<close>: memory and generic helpers of C++; where a
  function takes an allocator, its result is modelled. \<^verbatim>\<open>pb.c\<close>, \<^verbatim>\<open>pb.h\<close> and \<^verbatim>\<open>third-party/\<close> are copies of other projects. Helpers of \<^verbatim>\<open>http2.cc\<close>
  and \<^verbatim>\<open>util.cc\<close> that nothing calls, beyond those above (sockets, digests, hex dumps, durations, Link headers). Two threads that touch the same datum: the code shares only the
  store of the scripts, under a lock, and counters.
\<close>

end
